(* ===== verification/Prelude.thy ===== *)
theory Prelude
  imports Main "HOL-Library.Word"
begin

text \<open>
  Shared vocabulary of the development: machine integers, the outcome of a kernel
  path with its sequencing combinators, little-endian byte encodings, byte-addressed
  memory, and the generic list lemmas the components use.
\<close>

unbundle bit_operations_syntax

section \<open>Machine integers\<close>

type_synonym u8 = "8 word"
type_synonym u16 = "16 word"
type_synonym u32 = "32 word"

named_theorems lock_simps \<open>symbolic execution of spin locks\<close>
named_theorems byte_simps \<open>little-endian encodings and byte sequences\<close>
named_theorems mon_simps \<open>symbolic execution of kernel paths\<close>

section \<open>Kernel paths\<close>

text \<open>
  A kernel path is run from a state until one of these happens: it returns (\<open>Ret\<close>),
  it switches to the scheduler (\<open>Swt\<close>: the state at the call of \<open>swtch\<close>), it
  calls \<open>panic\<close> (\<open>Pnc\<close>), it spins on a word that only another CPU can change
  (\<open>Spn\<close>), or it dereferences a null pointer or an index outside an array (\<open>Ub\<close>).
\<close>

datatype ('a, 's) outcome = Ret 'a 's | Swt 's | Pnc string | Spn | Ub

type_synonym ('a, 's) kmon = "'s \<Rightarrow> ('a, 's) outcome"

definition ret :: "'a \<Rightarrow> ('a, 's) kmon" where
  "ret a s = Ret a s"

definition bnd :: "('a, 's) kmon \<Rightarrow> ('a \<Rightarrow> ('b, 's) kmon) \<Rightarrow> ('b, 's) kmon" where
  "bnd m k s =
     (case m s of Ret a t \<Rightarrow> k a t | Swt t \<Rightarrow> Swt t | Pnc e \<Rightarrow> Pnc e | Spn \<Rightarrow> Spn | Ub \<Rightarrow> Ub)"

definition thn :: "('a, 's) kmon \<Rightarrow> ('b, 's) kmon \<Rightarrow> ('b, 's) kmon" where
  "thn m k s = bnd m (\<lambda>_. k) s"

definition panic :: "string \<Rightarrow> ('a, 's) kmon" where
  "panic e s = Pnc e"

definition undefd :: "('a, 's) kmon" where
  "undefd s = Ub"

definition gets :: "('s \<Rightarrow> 'a) \<Rightarrow> ('a, 's) kmon" where
  "gets f s = Ret (f s) s"

definition modify :: "('s \<Rightarrow> 's) \<Rightarrow> (unit, 's) kmon" where
  "modify f s = Ret () (f s)"

definition skip :: "(unit, 's) kmon" where
  "skip s = Ret () s"

definition assert_or :: "string \<Rightarrow> ('s \<Rightarrow> bool) \<Rightarrow> (unit, 's) kmon" where
  "assert_or e p s = (if p s then Ret () s else Pnc e)"

text \<open>A loop over a list of indices whose body does not leave the loop.\<close>

fun forM :: "'i list \<Rightarrow> ('i \<Rightarrow> (unit, 's) kmon) \<Rightarrow> (unit, 's) kmon" where
  "forM [] f = skip"
| "forM (i # is) f = thn (f i) (forM is f)"

lemmas mon_defs = ret_def bnd_def thn_def panic_def undefd_def gets_def modify_def skip_def
  assert_or_def

lemma bnd_ret [simp]: "bnd (ret a) k = k a"
  by (rule ext) (simp add: mon_defs)

lemma bnd_ret_right [simp]: "bnd m ret = m"
  by (rule ext) (simp add: mon_defs split: outcome.splits)

lemma bnd_assoc: "bnd (bnd m k) l = bnd m (\<lambda>a. bnd (k a) l)"
  by (rule ext) (simp add: mon_defs split: outcome.splits)

lemma bnd_Ret_iff: "bnd m k s = Ret b u \<longleftrightarrow> (\<exists>a t. m s = Ret a t \<and> k a t = Ret b u)"
  by (simp add: bnd_def split: outcome.splits)

lemma thn_Ret_iff: "thn m k s = Ret b u \<longleftrightarrow> (\<exists>a t. m s = Ret a t \<and> k t = Ret b u)"
  by (simp add: thn_def bnd_Ret_iff)

lemma bnd_RetI: "m s = Ret a t \<Longrightarrow> k a t = r \<Longrightarrow> bnd m k s = r"
  by (simp add: bnd_def)

lemma thn_RetI: "m s = Ret a t \<Longrightarrow> k t = r \<Longrightarrow> thn m k s = r"
  by (simp add: thn_def bnd_def)

lemma bnd_cong [fundef_cong]:
  assumes "m s = m' s" and "\<And>a t. m' s = Ret a t \<Longrightarrow> k a t = k' a t"
  shows "bnd m k s = bnd m' k' s"
  using assms by (simp add: bnd_def split: outcome.splits)

lemma thn_cong [fundef_cong]:
  assumes "m s = m' s" and "\<And>a t. m' s = Ret a t \<Longrightarrow> k t = k' t"
  shows "thn m k s = thn m' k' s"
  using assms by (simp add: thn_def bnd_def split: outcome.splits)

text \<open>
  \<open>stays I m R\<close>: from a state with \<open>I\<close>, a path that returns or switches does so in a state with \<open>I\<close>,
  and the value it returns satisfies \<open>R\<close>.
\<close>

definition stays :: "('s \<Rightarrow> bool) \<Rightarrow> ('a, 's) kmon \<Rightarrow> ('a \<Rightarrow> bool) \<Rightarrow> bool" where
  "stays I m R \<longleftrightarrow> (\<forall>s. I s \<longrightarrow> (case m s of Ret a t \<Rightarrow> I t \<and> R a | Swt t \<Rightarrow> I t | Pnc e \<Rightarrow> True | Spn \<Rightarrow> True | Ub \<Rightarrow> True))"

abbreviation (input) any :: "'a \<Rightarrow> bool" where "any \<equiv> \<lambda>_. True"

lemma stays_bndR: "stays I m R \<Longrightarrow> (\<And>a. R a \<Longrightarrow> stays I (k a) Q) \<Longrightarrow> stays I (bnd m k) Q"
proof -
  assume m: "stays I m R" and k: "\<And>a. R a \<Longrightarrow> stays I (k a) Q"
  show ?thesis unfolding stays_def
  proof (intro allI impI)
    fix s assume "I s"
    then have "case m s of Ret a t \<Rightarrow> I t \<and> R a | Swt t \<Rightarrow> I t | _ \<Rightarrow> True" using m by (simp add: stays_def)
    then show "case bnd m k s of Ret a t \<Rightarrow> I t \<and> Q a | Swt t \<Rightarrow> I t | _ \<Rightarrow> True"
      using k by (cases "m s") (simp_all add: bnd_def stays_def)
  qed
qed

lemma stays_weak: "stays I m R \<Longrightarrow> (\<And>a. R a \<Longrightarrow> Q a) \<Longrightarrow> stays I m Q"
proof -
  assume m: "stays I m R" and R: "\<And>a. R a \<Longrightarrow> Q a"
  show ?thesis unfolding stays_def
  proof (intro allI impI)
    fix s assume "I s"
    then have "case m s of Ret a t \<Rightarrow> I t \<and> R a | Swt t \<Rightarrow> I t | _ \<Rightarrow> True" using m by (simp add: stays_def)
    then show "case m s of Ret a t \<Rightarrow> I t \<and> Q a | Swt t \<Rightarrow> I t | _ \<Rightarrow> True" using R by (cases "m s") simp_all
  qed
qed

lemma stays_bnd [intro!]: "stays I m any \<Longrightarrow> (\<And>a. stays I (k a) Q) \<Longrightarrow> stays I (bnd m k) Q"
  by (rule stays_bndR)

lemma stays_thn [intro!]: "stays I m any \<Longrightarrow> stays I k Q \<Longrightarrow> stays I (thn m k) Q"
  using stays_bnd[of I m "\<lambda>_. k" Q] by (simp add: thn_def[abs_def])

lemma stays_gets [intro!]: "(\<And>s. I s \<Longrightarrow> R (f s)) \<Longrightarrow> stays I (gets f) R"
  by (simp add: stays_def mon_defs)

lemma stays_bnd_gets [intro!]: "(\<And>s. I s \<Longrightarrow> stays I (k (f s)) Q) \<Longrightarrow> stays I (bnd (gets f) k) Q"
  by (simp add: stays_def mon_defs)

lemma stays_modify [intro!]: "(\<And>s. I s \<Longrightarrow> I (f s)) \<Longrightarrow> stays I (modify f) any"
  by (simp add: stays_def mon_defs)

lemma stays_basic [simp]:
  "stays I (ret a) any" "stays I (panic e) R" "stays I undefd R" "stays I skip any"
  "stays I (assert_or e p) any" "stays I (\<lambda>s. Spn) R"
  by (auto simp: stays_def mon_defs)

lemma stays_ret [intro!]: "R a \<Longrightarrow> stays I (ret a) R"
  by (simp add: stays_def mon_defs)

lemma stays_if [intro!]: "(b \<Longrightarrow> stays I m R) \<Longrightarrow> (\<not> b \<Longrightarrow> stays I n R) \<Longrightarrow> stays I (if b then m else n) R"
  by simp

lemma stays_option [intro!]:
  "(x = None \<Longrightarrow> stays I m R) \<Longrightarrow> (\<And>y. x = Some y \<Longrightarrow> stays I (k y) R) \<Longrightarrow> stays I (case x of None \<Rightarrow> m | Some y \<Rightarrow> k y) R"
  by (cases x) simp_all

lemma stays_prod [intro!]: "(\<And>a b. x = (a, b) \<Longrightarrow> stays I (k a b) R) \<Longrightarrow> stays I (case x of (a, b) \<Rightarrow> k a b) R"
  by (cases x) simp

lemma stays_Let [intro!]: "stays I (k v) R \<Longrightarrow> stays I (let x = v in k x) R"
  by (simp add: Let_def)

lemma stays_forM [intro!]: "(\<And>i. i \<in> set is \<Longrightarrow> stays I (f i) any) \<Longrightarrow> stays I (forM is f) any"
  by (induction "is") auto

lemma staysD: "stays I m R \<Longrightarrow> I s \<Longrightarrow> m s = Ret a t \<Longrightarrow> I t" "stays I m R \<Longrightarrow> I s \<Longrightarrow> m s = Swt t \<Longrightarrow> I t"
  by (drule stays_def[THEN iffD1], drule spec[of _ s], simp)+

text \<open>
  Total correctness: \<open>wp m Q s\<close> says that the path \<open>m\<close> run from \<open>s\<close> returns, with \<open>Q\<close>. The
  rules push a postcondition back through the combinators; \<open>wp_bndI\<close> uses what is known of the
  first part of a sequence.
\<close>

definition wp :: "('a, 's) kmon \<Rightarrow> ('a \<Rightarrow> 's \<Rightarrow> bool) \<Rightarrow> 's \<Rightarrow> bool" where
  "wp m Q s \<longleftrightarrow> (\<exists>a t. m s = Ret a t \<and> Q a t)"

lemma wp_simps [simp]:
  "wp (ret a) Q = Q a" "wp (gets f) Q = (\<lambda>s. Q (f s) s)" "wp (modify g) R = (\<lambda>s. R () (g s))"
  "wp skip R = R ()" "wp (panic e) Q = (\<lambda>s. False)" "wp undefd Q = (\<lambda>s. False)"
  "wp (bnd m k) T = wp m (\<lambda>a. wp (k a) T)" "wp (thn n l) T = wp n (\<lambda>_. wp l T)"
  "wp (assert_or e p) R = (\<lambda>s. p s \<and> R () s)"
  by (auto simp: wp_def mon_defs fun_eq_iff split: outcome.splits)

lemma wpI: "m s = Ret a t \<Longrightarrow> Q a t \<Longrightarrow> wp m Q s"
  by (auto simp: wp_def)

lemma wp_Ret: "m s = Ret a t \<Longrightarrow> wp m Q s \<longleftrightarrow> Q a t"
  by (auto simp: wp_def)

lemma wpD: "wp m Q s \<Longrightarrow> \<exists>a t. m s = Ret a t \<and> Q a t"
  by (simp add: wp_def)

lemma wpDu: "wp m Q s \<Longrightarrow> \<exists>t. m s = Ret () t \<and> Q () t"
  by (auto simp: wp_def)

lemma wp_mono: "wp m Q s \<Longrightarrow> (\<And>a t. Q a t \<Longrightarrow> R a t) \<Longrightarrow> wp m R s"
  by (auto simp: wp_def)

lemma wp_bndI: "wp m P s \<Longrightarrow> (\<And>a t. P a t \<Longrightarrow> wp (k a) Q t) \<Longrightarrow> wp (bnd m k) Q s"
  by (auto simp: wp_def mon_defs)

lemma wp_thnI: "wp m P s \<Longrightarrow> (\<And>a t. P a t \<Longrightarrow> wp k Q t) \<Longrightarrow> wp (thn m k) Q s"
  by (auto simp: wp_def mon_defs)

lemma wp_conj: "wp m Q s \<Longrightarrow> wp m R s \<Longrightarrow> wp m (\<lambda>a t. Q a t \<and> R a t) s"
  by (auto simp: wp_def)

lemma wp_if: "wp (if b then m else n) Q s \<longleftrightarrow> (if b then wp m Q s else wp n Q s)"
  by simp

lemma wp_forM:
  assumes "I 0 s" "\<And>i t. i < n \<Longrightarrow> I i t \<Longrightarrow> wp (f i) (\<lambda>_. I (Suc i)) t"
  shows "wp (forM [0..<n] f) (\<lambda>_. I n) s"
proof -
  have snoc: "wp (forM (xs @ [i]) f) R t \<longleftrightarrow> wp (forM xs f) (\<lambda>_. wp (f i) R) t" for xs i R t
    by (induction xs arbitrary: t) (auto simp: wp_def mon_defs split: outcome.splits)
  have "k \<le> n \<Longrightarrow> wp (forM [0..<k] f) (\<lambda>_. I k) s" for k
  proof (induction k)
    case (Suc k)
    then have "wp (forM [0..<k] f) (\<lambda>_. I k) s" by simp
    then have "wp (forM [0..<k] f) (\<lambda>_. wp (f k) (\<lambda>_. I (Suc k))) s"
      by (rule wp_mono) (use Suc.prems assms(2) in auto)
    then show ?case by (simp add: snoc)
  qed (simp add: assms(1))
  then show ?thesis by simp
qed

section \<open>First index of a list\<close>

text \<open>The scan \<open>for(i = 0; i < N; i++) if(p(a[i])) \<dots> break;\<close> finds the first index with \<open>p\<close>.\<close>

fun find_idx :: "('a \<Rightarrow> bool) \<Rightarrow> 'a list \<Rightarrow> nat option" where
  "find_idx p [] = None"
| "find_idx p (x # xs) = (if p x then Some 0 else map_option Suc (find_idx p xs))"

lemma find_idx_SomeD:
  "find_idx p xs = Some i \<Longrightarrow> i < length xs \<and> p (xs ! i) \<and> (\<forall>j < i. \<not> p (xs ! j))"
proof (induction xs arbitrary: i)
  case (Cons x xs)
  then show ?case
  proof (cases i)
    case (Suc k)
    with Cons.prems have "find_idx p xs = Some k" "\<not> p x" by (auto split: if_splits)
    with Cons.IH have "k < length xs \<and> p (xs ! k) \<and> (\<forall>j < k. \<not> p (xs ! j))" by simp
    with Suc \<open>\<not> p x\<close> show ?thesis by (auto simp: less_Suc_eq_0_disj)
  qed (auto split: if_splits)
qed simp

lemma find_idx_None_iff: "find_idx p xs = None \<longleftrightarrow> (\<forall>x \<in> set xs. \<not> p x)"
  by (induction xs) auto

lemma find_idx_SomeI:
  "i < length xs \<Longrightarrow> p (xs ! i) \<Longrightarrow> (\<And>j. j < i \<Longrightarrow> \<not> p (xs ! j)) \<Longrightarrow> find_idx p xs = Some i"
proof (induction xs arbitrary: i)
  case (Cons x xs)
  show ?case
  proof (cases i)
    case 0
    with Cons.prems show ?thesis by simp
  next
    case (Suc k)
    with Cons.prems(3)[of 0] have "\<not> p x" by simp
    have "find_idx p xs = Some k"
    proof (rule Cons.IH)
      show "k < length xs" "p (xs ! k)" using Cons.prems Suc by auto
      show "\<not> p (xs ! j)" if "j < k" for j using Cons.prems(3)[of "Suc j"] Suc that by simp
    qed
    with \<open>\<not> p x\<close> Suc show ?thesis by simp
  qed
qed simp

section \<open>Little-endian encodings\<close>

definition le16 :: "u16 \<Rightarrow> u8 list" where
  "le16 x = [ucast x, ucast (drop_bit 8 x)]"

definition le32 :: "u32 \<Rightarrow> u8 list" where
  "le32 x = [ucast x, ucast (drop_bit 8 x), ucast (drop_bit 16 x), ucast (drop_bit 24 x)]"

definition of_le16 :: "u8 list \<Rightarrow> u16" where
  "of_le16 bs = ucast (bs ! 0) OR push_bit 8 (ucast (bs ! 1))"

definition of_le32 :: "u8 list \<Rightarrow> u32" where
  "of_le32 bs = ucast (bs ! 0) OR push_bit 8 (ucast (bs ! 1)) OR push_bit 16 (ucast (bs ! 2))
     OR push_bit 24 (ucast (bs ! 3))"

lemma of_le16_le16 [simp]: "of_le16 (le16 x) = x"
  by (rule bit_word_eqI) (auto simp: of_le16_def le16_def bit_simps)

lemma of_le32_le32 [simp]: "of_le32 (le32 x) = x"
proof (rule bit_word_eqI)
  fix n :: nat
  assume "n < LENGTH(32)"
  then consider "n < 8" | "8 \<le> n" "n < 16" | "16 \<le> n" "n < 24" | "24 \<le> n" "n < 32" by fastforce
  then show "bit (of_le32 (le32 x)) n = bit x n"
    by cases (auto simp: of_le32_def le32_def bit_simps)
qed

lemma length_le [simp]: "length (le16 x) = 2" "length (le32 y) = 4"
  by (simp_all add: le16_def le32_def)

text \<open>The bytes \<open>off \<dots> off + n - 1\<close> of a sequence, and their replacement.\<close>

definition bytes_at :: "nat \<Rightarrow> nat \<Rightarrow> 'a list \<Rightarrow> 'a list" where
  "bytes_at off n bs = take n (drop off bs)"

definition put_at :: "nat \<Rightarrow> 'a list \<Rightarrow> 'a list \<Rightarrow> 'a list" where
  "put_at off xs bs = take off bs @ xs @ drop (off + length xs) bs"

lemma length_bytes_at [simp]: "off + n \<le> length bs \<Longrightarrow> length (bytes_at off n bs) = n"
  by (simp add: bytes_at_def)

lemma length_put_at [simp]: "off + length xs \<le> length bs \<Longrightarrow> length (put_at off xs bs) = length bs"
  by (simp add: put_at_def)

lemma nth_bytes_at [simp]: "i < n \<Longrightarrow> off + n \<le> length bs \<Longrightarrow> bytes_at off n bs ! i = bs ! (off + i)"
  by (simp add: bytes_at_def)

lemma nth_put_at:
  "off + length xs \<le> length bs \<Longrightarrow> i < length bs \<Longrightarrow>
   put_at off xs bs ! i = (if off \<le> i \<and> i < off + length xs then xs ! (i - off) else bs ! i)"
  by (auto simp: put_at_def nth_append)

lemma bytes_at_put_same [simp]:
  "off + length xs \<le> length bs \<Longrightarrow> n = length xs \<Longrightarrow> bytes_at off n (put_at off xs bs) = xs"
  by (simp add: bytes_at_def put_at_def)

lemma bytes_at_put_other:
  assumes "off + length xs \<le> length bs" and "o' + n \<le> length bs"
    and "o' + n \<le> off \<or> off + length xs \<le> o'"
  shows "bytes_at o' n (put_at off xs bs) = bytes_at o' n bs"
  using assms by (intro nth_equalityI) (auto simp: nth_put_at)

lemma put_bytes_at_id: "off + n \<le> length bs \<Longrightarrow> put_at off (bytes_at off n bs) bs = bs"
  by (intro nth_equalityI) (auto simp: nth_put_at)

lemma bytes_at_whole [simp]: "length bs = n \<Longrightarrow> bytes_at 0 n bs = bs"
  by (simp add: bytes_at_def)

lemma put_at_whole [simp]: "length xs = length bs \<Longrightarrow> put_at 0 xs bs = xs"
  by (simp add: put_at_def)

section \<open>Byte-addressed memory\<close>

type_synonym memory = "u32 \<Rightarrow> u8"

definition mrd :: "memory \<Rightarrow> u32 \<Rightarrow> nat \<Rightarrow> u8 list" where
  "mrd m a n = map (\<lambda>i. m (a + of_nat i)) [0..<n]"

fun mwr :: "memory \<Rightarrow> u32 \<Rightarrow> u8 list \<Rightarrow> memory" where
  "mwr m a [] = m"
| "mwr m a (b # bs) = mwr (m(a := b)) (a + 1) bs"

definition mrd32 :: "memory \<Rightarrow> u32 \<Rightarrow> u32" where
  "mrd32 m a = of_le32 (mrd m a 4)"

definition mwr32 :: "memory \<Rightarrow> u32 \<Rightarrow> u32 \<Rightarrow> memory" where
  "mwr32 m a v = mwr m a (le32 v)"

lemma length_mrd [simp]: "length (mrd m a n) = n"
  by (simp add: mrd_def)

lemma nth_mrd [simp]: "i < n \<Longrightarrow> mrd m a n ! i = m (a + of_nat i)"
  by (simp add: mrd_def)

lemma unat_pred: "x \<noteq> 0 \<Longrightarrow> unat (x - 1 :: 'a :: len word) = unat x - 1"
  by (metis Suc_pred' add_diff_cancel_left' diff_Suc_1 unat_gt_0 unat_minus_one)

lemma unat_of_nat32: "n < 4294967296 \<Longrightarrow> unat (of_nat n :: u32) = n"
  by (simp add: unat_of_nat take_bit_nat_eq_self)

lemma unat_lt32: "unat (x :: u32) < 4294967296"
  by (rule order_less_le_trans[OF unsigned_less]) simp

lemma unat_add_of_nat: "unat (x :: u32) + n < 4294967296 \<Longrightarrow> unat (x + of_nat n) = unat x + n"
  using unat_of_nat32[of "unat x + n"] by simp

lemma sint_unat32: "unat (x :: u32) < 2147483648 \<Longrightarrow> sint x = int (unat x)"
proof -
  assume "unat x < 2147483648"
  then have "int (unat x) < 2147483648" by linarith
  then have "uint x < 2147483648" by simp
  moreover have "- 2147483648 \<le> uint x" by (rule order_trans[OF _ uint_ge_0]) simp
  ultimately have "signed_take_bit 31 (uint x) = uint x" by (intro signed_take_bit_int_eq_self) simp_all
  then show ?thesis by (simp add: sint_uint)
qed

lemma unat_nonneg_sint: "0 \<le> sint x \<Longrightarrow> sint x < n \<Longrightarrow> n \<le> 2147483648 \<Longrightarrow> int (unat x) = sint x" for x :: u32
proof -
  assume a: "0 \<le> sint x" "sint x < n" "n \<le> 2147483648"
  have "uint x = sint x mod 4294967296" using uint_word_of_int[of "sint x", where 'a=32] by simp
  then show ?thesis using a by simp
qed

text \<open>A write of at most the whole address space puts the bytes at the offsets from its start.\<close>

lemma mwr_at:
  "length bs \<le> 4294967296 \<Longrightarrow>
   mwr m a bs x = (if unat (x - a) < length bs then bs ! unat (x - a) else m x)"
proof (induction bs arbitrary: m a)
  case (Cons b bs)
  show ?case
  proof (cases "x = a")
    case True
    have "unat (x - (a + 1)) = 4294967295" using True by (simp add: unsigned_minus_1_eq_mask mask_eq_exp_minus_1)
    then have "mwr (m(a := b)) (a + 1) bs x = (m(a := b)) x" using Cons by (simp del: fun_upd_apply)
    with True show ?thesis by simp
  next
    case False
    then have "unat (x - (a + 1)) = unat (x - a) - 1" "x - a \<noteq> 0"
      using unat_pred[of "x - a"] by (simp_all add: diff_diff_eq)
    moreover from this(2) have "0 < unat (x - a)" by (simp add: unat_gt_0)
    ultimately show ?thesis using Cons False by (auto simp: nth_Cons')
  qed
qed simp

lemma mrd_mwr_same: "length bs \<le> 4294967295 \<Longrightarrow> mrd (mwr m a bs) a (length bs) = bs"
  by (rule nth_equalityI) (auto simp: mwr_at unat_of_nat32)

lemma mrd32_mwr32_same [simp]: "mrd32 (mwr32 m a v) a = v"
  using mrd_mwr_same[of "le32 v" m a] by (simp add: mrd32_def mwr32_def)

text \<open>Two ranges of bytes that do not meet.\<close>

definition apart :: "u32 \<Rightarrow> nat \<Rightarrow> u32 \<Rightarrow> nat \<Rightarrow> bool" where
  "apart a n b k \<longleftrightarrow> (\<forall>i < n. \<forall>j < k. a + of_nat i \<noteq> b + of_nat j)"

lemma apart_sym: "apart a n b k \<Longrightarrow> apart b k a n"
  unfolding apart_def by metis

lemma apart_mono: "apart a n b k \<Longrightarrow> n' \<le> n \<Longrightarrow> k' \<le> k \<Longrightarrow> apart a n' b k'"
  by (simp add: apart_def)

lemma mrd_cong: "(\<And>i. i < n \<Longrightarrow> m (a + of_nat i) = m' (a + of_nat i)) \<Longrightarrow> mrd m a n = mrd m' a n"
  by (simp add: mrd_def)

lemma mwr_other:
  assumes "length bs \<le> 4294967296" "\<And>j. j < length bs \<Longrightarrow> x \<noteq> a + of_nat j"
  shows "mwr m a bs x = m x"
proof -
  have "x = a + of_nat (unat (x - a))" by simp
  then have "\<not> unat (x - a) < length bs" using assms(2)[of "unat (x - a)"] by auto
  with assms(1) show ?thesis by (simp add: mwr_at)
qed

lemma mrd_mwr_apart: "length bs \<le> 4294967296 \<Longrightarrow> apart b n a (length bs) \<Longrightarrow> mrd (mwr m a bs) b n = mrd m b n"
  by (rule mrd_cong, rule mwr_other) (auto simp: apart_def)

lemma mrd32_mwr32_apart: "apart b 4 a 4 \<Longrightarrow> mrd32 (mwr32 m a v) b = mrd32 m b"
  by (simp add: mrd32_def mwr32_def mrd_mwr_apart)

end
