(* ===== verification/Params.thy ===== *)
theory Params
  imports Prelude
begin

text \<open>
  Constants and address arithmetic of the kernel headers: \<^verbatim>\<open>param.h\<close>, \<^verbatim>\<open>memlayout.h\<close>,
  \<^verbatim>\<open>mmu.h\<close>. Array bounds are \<open>nat\<close>; addresses and page-table entries are 32-bit words.
\<close>

section \<open>param.h\<close>

abbreviation (input) NPROC :: nat where "NPROC \<equiv> 64"
abbreviation (input) KSTACKSIZE :: u32 where "KSTACKSIZE \<equiv> 4096"
abbreviation (input) NOFILE :: nat where "NOFILE \<equiv> 16"
abbreviation (input) NFILE :: nat where "NFILE \<equiv> 100"
abbreviation (input) NINODE :: nat where "NINODE \<equiv> 50"
abbreviation (input) NDEV :: nat where "NDEV \<equiv> 10"
abbreviation (input) ROOTDEV :: u32 where "ROOTDEV \<equiv> 1"
abbreviation (input) MAXARG :: nat where "MAXARG \<equiv> 32"
abbreviation (input) MAXOPBLOCKS :: nat where "MAXOPBLOCKS \<equiv> 10"
abbreviation (input) LOGSIZE :: nat where "LOGSIZE \<equiv> 30"
abbreviation (input) NBUF :: nat where "NBUF \<equiv> 30"
abbreviation (input) MAXTHRDS :: nat where "MAXTHRDS \<equiv> 32"
abbreviation (input) NMUTX :: nat where "NMUTX \<equiv> 64"
abbreviation (input) NCONDVAR :: nat where "NCONDVAR \<equiv> 64"

section \<open>memlayout.h\<close>

abbreviation (input) EXTMEM :: u32 where "EXTMEM \<equiv> 0x100000"
abbreviation (input) PHYSTOP :: u32 where "PHYSTOP \<equiv> 0xE000000"
abbreviation (input) DEVSPACE :: u32 where "DEVSPACE \<equiv> 0xFE000000"
abbreviation (input) KERNBASE :: u32 where "KERNBASE \<equiv> 0x80000000"
abbreviation (input) KERNLINK :: u32 where "KERNLINK \<equiv> 0x80100000"

definition v2p :: "u32 \<Rightarrow> u32" where
  "v2p a = a - KERNBASE"

definition p2v :: "u32 \<Rightarrow> u32" where
  "p2v a = a + KERNBASE"

lemma v2p_p2v [simp]: "v2p (p2v a) = a" and p2v_v2p [simp]: "p2v (v2p a) = a"
  by (simp_all add: v2p_def p2v_def)

section \<open>mmu.h\<close>

abbreviation (input) PGSIZE :: u32 where "PGSIZE \<equiv> 4096"
abbreviation (input) NPDENTRIES :: nat where "NPDENTRIES \<equiv> 1024"
abbreviation (input) NPTENTRIES :: u32 where "NPTENTRIES \<equiv> 1024"
abbreviation (input) PTE_P :: u32 where "PTE_P \<equiv> 1"
abbreviation (input) PTE_W :: u32 where "PTE_W \<equiv> 2"
abbreviation (input) PTE_U :: u32 where "PTE_U \<equiv> 4"

definition PDX :: "u32 \<Rightarrow> u32" where
  "PDX va = drop_bit 22 va AND 0x3FF"

definition PTX :: "u32 \<Rightarrow> u32" where
  "PTX va = drop_bit 12 va AND 0x3FF"

definition PGADDR :: "u32 \<Rightarrow> u32 \<Rightarrow> u32 \<Rightarrow> u32" where
  "PGADDR d t off = (push_bit 22 d OR push_bit 12 t OR off)"

definition PGROUNDUP :: "u32 \<Rightarrow> u32" where
  "PGROUNDUP sz = ((sz + PGSIZE - 1) AND NOT (PGSIZE - 1))"

definition PGROUNDDOWN :: "u32 \<Rightarrow> u32" where
  "PGROUNDDOWN a = (a AND NOT (PGSIZE - 1))"

definition PTE_ADDR :: "u32 \<Rightarrow> u32" where
  "PTE_ADDR pte = (pte AND NOT 0xFFF)"

definition PTE_FLAGS :: "u32 \<Rightarrow> u32" where
  "PTE_FLAGS pte = (pte AND 0xFFF)"

lemma mask12: "(0xFFF :: u32) = mask 12"
  by (simp add: mask_eq_exp_minus_1)

lemma mask10: "(0x3FF :: u32) = mask 10"
  by (simp add: mask_eq_exp_minus_1)

lemma bit_0xFFF: "bit (0xFFF :: u32) n \<longleftrightarrow> n < 12"
  unfolding mask12 by (auto simp: bit_mask_iff)

lemma bit_0x3FF: "bit (0x3FF :: u32) n \<longleftrightarrow> n < 10"
  unfolding mask10 by (auto simp: bit_mask_iff)

text \<open>The three parts of a linear address give it back, and the parts are those of the macro.\<close>

lemma PGADDR_parts: "PGADDR (PDX va) (PTX va) (PTE_FLAGS va) = va"
proof (rule bit_word_eqI)
  fix n :: nat
  assume "n < LENGTH(32)"
  then consider "n < 12" | "12 \<le> n" "n < 22" | "22 \<le> n" "n < 32" by fastforce
  then show "bit (PGADDR (PDX va) (PTX va) (PTE_FLAGS va)) n = bit va n"
    unfolding PGADDR_def PDX_def PTX_def PTE_FLAGS_def mask12 mask10
    by cases (auto simp: bit_mask_iff bit_and_iff bit_or_iff bit_push_bit_iff bit_drop_bit_eq
        simp del: push_bit_and)
qed

lemma PTE_ADDR_FLAGS: "PTE_ADDR pte OR PTE_FLAGS pte = pte"
  unfolding PTE_ADDR_def PTE_FLAGS_def mask12
  by (rule bit_word_eqI) (auto simp: bit_and_iff bit_or_iff bit_not_iff bit_mask_iff)

lemma PGROUNDDOWN_PTE_ADDR: "PGROUNDDOWN a = PTE_ADDR a"
  by (simp add: PGROUNDDOWN_def PTE_ADDR_def)

lemma PTE_ADDR_mod: "PTE_ADDR a = a - a mod PGSIZE"
proof -
  have "a AND 0xFFF = a mod 4096"
    unfolding mask12 by (simp flip: take_bit_eq_mask add: take_bit_eq_mod)
  moreover have "a = (a AND NOT 0xFFF) + (a AND 0xFFF)"
    by (subst disjunctive_add) (auto simp: bit_simps bit_0xFFF intro!: bit_word_eqI)
  ultimately show ?thesis
    by (simp add: PTE_ADDR_def) (metis add_diff_cancel_right')
qed

lemma unat_PTE_ADDR: "unat (PTE_ADDR a) = 4096 * (unat a div 4096)"
proof -
  have "unat (a mod 4096) = unat a mod 4096" by (simp add: unat_mod)
  moreover have "unat (a - a mod 4096) = unat a - unat (a mod 4096)"
    by (rule unat_sub) (simp add: word_le_nat_alt unat_mod)
  ultimately show ?thesis
    by (simp add: PTE_ADDR_mod minus_mod_eq_mult_div)
qed

text \<open>Page-aligned addresses.\<close>

definition page_aligned :: "u32 \<Rightarrow> bool" where
  "page_aligned a \<longleftrightarrow> a mod PGSIZE = 0"

lemma page_aligned_iff: "page_aligned p \<longleftrightarrow> unat p mod 4096 = 0"
proof -
  have "unat (p mod PGSIZE) = unat p mod 4096" by (simp add: unat_mod)
  then show ?thesis unfolding page_aligned_def by (metis unat_eq_0)
qed

lemma page_aligned_PTE_ADDR [simp]: "page_aligned (PTE_ADDR a)"
  by (simp add: page_aligned_iff unat_PTE_ADDR)

end
