(* ===== verification/Spinlock.thy ===== *)
theory Spinlock
  imports Params
begin

text \<open>
  \<^verbatim>\<open>spinlock.c\<close>, \<^verbatim>\<open>spinlock.h\<close> and the part of \<^verbatim>\<open>struct cpu\<close> the locks use. The state of this
  theory, \<open>lockst\<close>, is the root of the chain of kernel states: every later component
  extends the record, so that an operation of this theory runs on every kernel state.
\<close>

section \<open>State\<close>

datatype lkname = LkStr string | LkPtr int

record spinlock =
  locked :: u32
  lk_name :: lkname
  lk_cpu :: "nat option"
  lk_pcs :: "u32 list"
  lk_id :: u32

text \<open>The static locks of the kernel; a pipe's lock is named by the address of the pipe.\<close>

datatype lockid = Lptable | Lkmem | Lbcache | Lide | Llog | Licache | Lftable | Lticks
  | Lcons | Linput | Lpipe u32

record cpu =
  cpu_id :: u8
  ncli :: int
  intena :: bool
  eflags_if :: bool
  cpu_proc :: "nat option"
  ts_ss0 :: u16
  ts_esp0 :: u32
  cr3 :: u32

text \<open>
  \<open>mycpu\<close> is the index of the CPU that executes (the \<open>%gs:0\<close> variable \<open>cpu\<close>);
  \<open>stkmem\<close> are the words of the kernel stack and \<open>frame\<close> the address of the first
  argument of the current call, which only \<open>getcallerpcs\<close> reads.
\<close>

record lockst =
  cpus :: "nat \<Rightarrow> cpu"
  mycpu :: nat
  locks :: "lockid \<Rightarrow> spinlock"
  stkmem :: "u32 \<Rightarrow> u32"
  frame :: u32

definition the_cpu :: "'z lockst_scheme \<Rightarrow> cpu" where
  "the_cpu s = cpus s (mycpu s)"

definition upd_cpu :: "(cpu \<Rightarrow> cpu) \<Rightarrow> 'z lockst_scheme \<Rightarrow> 'z lockst_scheme" where
  "upd_cpu f s = s\<lparr>cpus := (cpus s)(mycpu s := f (cpus s (mycpu s)))\<rparr>"

definition upd_lock :: "lockid \<Rightarrow> (spinlock \<Rightarrow> spinlock) \<Rightarrow> 'z lockst_scheme \<Rightarrow> 'z lockst_scheme" where
  "upd_lock l f s = s\<lparr>locks := (locks s)(l := f (locks s l))\<rparr>"

section \<open>Operations\<close>

text \<open>\<open>initlock\<close> works on any \<^verbatim>\<open>struct spinlock\<close>, the mutexes of a process included.\<close>

definition initlock :: "lkname \<Rightarrow> spinlock \<Rightarrow> spinlock" where
  "initlock nm lk = lk\<lparr>lk_name := nm, locked := 0, lk_cpu := None\<rparr>"

text \<open>\<open>xchg\<close> stores the new value and returns the old one.\<close>

definition xchg :: "u32 \<Rightarrow> u32 \<Rightarrow> u32 \<times> u32" where
  "xchg old new = (old, new)"

fun pcs_walk :: "(u32 \<Rightarrow> u32) \<Rightarrow> nat \<Rightarrow> u32 \<Rightarrow> u32 list" where
  "pcs_walk m 0 ebp = []"
| "pcs_walk m (Suc n) ebp =
     (if ebp = 0 \<or> ebp < KERNBASE \<or> ebp = 0xffffffff then replicate (Suc n) 0
      else m (ebp + 4) # pcs_walk m n (m ebp))"

definition getcallerpcs :: "(u32 \<Rightarrow> u32) \<Rightarrow> u32 \<Rightarrow> u32 list" where
  "getcallerpcs m v = pcs_walk m 10 (v - 8)"

definition holding :: "lockid \<Rightarrow> 'z lockst_scheme \<Rightarrow> bool" where
  "holding l s \<longleftrightarrow> locked (locks s l) \<noteq> 0 \<and> lk_cpu (locks s l) = Some (mycpu s)"

definition pushcli :: "(unit, 'z lockst_scheme) kmon" where
  "pushcli s =
     (let eflags = eflags_if (the_cpu s);
          s1 = upd_cpu (\<lambda>c. c\<lparr>eflags_if := False\<rparr>) s;
          n = ncli (the_cpu s1);
          s2 = upd_cpu (\<lambda>c. c\<lparr>ncli := n + 1\<rparr>) s1
      in Ret () (if n = 0 then upd_cpu (\<lambda>c. c\<lparr>intena := eflags\<rparr>) s2 else s2))"

definition popcli :: "(unit, 'z lockst_scheme) kmon" where
  "popcli s =
     (if eflags_if (the_cpu s) then Pnc ''popcli - interruptible''
      else let s1 = upd_cpu (\<lambda>c. c\<lparr>ncli := ncli c - 1\<rparr>) s in
        if ncli (the_cpu s1) < 0 then Pnc ''popcli''
        else if ncli (the_cpu s1) = 0 \<and> intena (the_cpu s1)
          then Ret () (upd_cpu (\<lambda>c. c\<lparr>eflags_if := True\<rparr>) s1)
          else Ret () s1)"

text \<open>
  The loop \<open>while(xchg(&lk->locked, 1) != 0);\<close> ends at once when the word was zero;
  otherwise only the CPU that holds the lock can end it.
\<close>

definition acquire :: "lockid \<Rightarrow> (unit, 'z lockst_scheme) kmon" where
  "acquire l =
     thn pushcli (\<lambda>s.
       if holding l s then Pnc ''acquire''
       else let (old, new) = xchg (locked (locks s l)) 1 in
         if old \<noteq> 0 then Spn
         else Ret () (upd_lock l (\<lambda>k. k\<lparr>locked := new, lk_cpu := Some (mycpu s),
                lk_pcs := getcallerpcs (stkmem s) (frame s)\<rparr>) s))"

definition release :: "lockid \<Rightarrow> (unit, 'z lockst_scheme) kmon" where
  "release l s =
     (if \<not> holding l s then Pnc ''release''
      else let s1 = upd_lock l (\<lambda>k. k\<lparr>lk_pcs := (lk_pcs k)[0 := 0], lk_cpu := None\<rparr>) s;
               s2 = upd_lock l (\<lambda>k. k\<lparr>locked := snd (xchg (locked k) 0)\<rparr>) s1
           in popcli s2)"

section \<open>Taking and dropping a lock\<close>

definition lk_free :: "lockid \<Rightarrow> 'z lockst_scheme \<Rightarrow> bool" where
  "lk_free l s \<longleftrightarrow> locked (locks s l) = 0"

text \<open>Interrupts are off while the nesting count is positive, and the count is never negative.\<close>

definition cli_ok :: "'z lockst_scheme \<Rightarrow> bool" where
  "cli_ok s \<longleftrightarrow> 0 \<le> ncli (the_cpu s) \<and> (0 < ncli (the_cpu s) \<longrightarrow> \<not> eflags_if (the_cpu s))"

definition lk_held :: "lockid \<Rightarrow> 'z lockst_scheme \<Rightarrow> bool" where
  "lk_held l s \<longleftrightarrow> holding l s \<and> 0 < ncli (the_cpu s) \<and> \<not> eflags_if (the_cpu s)"

text \<open>The state after \<open>acquire\<close> of a free lock, and after \<open>release\<close> of a held one.\<close>

definition acq_cpu :: "cpu \<Rightarrow> cpu" where
  "acq_cpu c = (if ncli c = 0
     then c\<lparr>eflags_if := False, ncli := ncli c + 1, intena := eflags_if c\<rparr>
     else c\<lparr>eflags_if := False, ncli := ncli c + 1\<rparr>)"

definition rel_cpu :: "cpu \<Rightarrow> cpu" where
  "rel_cpu c = (if ncli c = 1 \<and> intena c then c\<lparr>ncli := ncli c - 1, eflags_if := True\<rparr>
     else c\<lparr>ncli := ncli c - 1\<rparr>)"

definition acq :: "lockid \<Rightarrow> 'z lockst_scheme \<Rightarrow> 'z lockst_scheme" where
  "acq l s = s\<lparr>cpus := (cpus s)(mycpu s := acq_cpu (cpus s (mycpu s))),
     locks := (locks s)(l := (locks s l)\<lparr>locked := 1, lk_cpu := Some (mycpu s),
        lk_pcs := getcallerpcs (stkmem s) (frame s)\<rparr>)\<rparr>"

definition rel :: "lockid \<Rightarrow> 'z lockst_scheme \<Rightarrow> 'z lockst_scheme" where
  "rel l s = s\<lparr>cpus := (cpus s)(mycpu s := rel_cpu (cpus s (mycpu s))),
     locks := (locks s)(l := (locks s l)\<lparr>lk_pcs := (lk_pcs (locks s l))[0 := 0], lk_cpu := None,
        locked := 0\<rparr>)\<rparr>"

lemmas cpu_defs = the_cpu_def upd_cpu_def upd_lock_def

lemma acquire_free: "lk_free l s \<Longrightarrow> acquire l s = Ret () (acq l s)"
  by (simp add: acquire_def pushcli_def acq_def acq_cpu_def lk_free_def holding_def xchg_def
      mon_defs cpu_defs Let_def)

lemma acquire_holding: "holding l s \<Longrightarrow> acquire l s = Pnc ''acquire''"
  by (simp add: acquire_def pushcli_def holding_def mon_defs cpu_defs Let_def)

lemma acquire_other:
  "locked (locks s l) \<noteq> 0 \<Longrightarrow> lk_cpu (locks s l) \<noteq> Some (mycpu s) \<Longrightarrow> acquire l s = Spn"
  by (simp add: acquire_def pushcli_def holding_def xchg_def mon_defs cpu_defs Let_def)

lemma release_held: "lk_held l s \<Longrightarrow> release l s = Ret () (rel l s)"
  by (simp add: release_def popcli_def rel_def rel_cpu_def lk_held_def holding_def xchg_def
      mon_defs cpu_defs Let_def)

lemmas lk_defs = lk_free_def lk_held_def holding_def cli_ok_def the_cpu_def

lemma acq_fields [simp]:
  "mycpu (acq l s) = mycpu s" "stkmem (acq l s) = stkmem s" "frame (acq l s) = frame s"
  "mycpu (rel l s) = mycpu s" "stkmem (rel l s) = stkmem s" "frame (rel l s) = frame s"
  "lockst.more (acq l s) = lockst.more s" "lockst.more (rel l s) = lockst.more s"
  by (simp_all add: acq_def rel_def)

lemma cpu_proc_acq [simp]:
  "cpu_proc (cpus (acq l s) i) = cpu_proc (cpus s i)"
  "cpu_proc (cpus (rel l s) i) = cpu_proc (cpus s i)"
  "cpu_proc (the_cpu (acq l s)) = cpu_proc (the_cpu s)"
  "cpu_proc (the_cpu (rel l s)) = cpu_proc (the_cpu s)"
  by (simp_all add: acq_def rel_def acq_cpu_def rel_cpu_def the_cpu_def)

lemma ncli_acq [simp]:
  "ncli (the_cpu (acq l s)) = ncli (the_cpu s) + 1"
  "ncli (the_cpu (rel l s)) = ncli (the_cpu s) - 1"
  by (simp_all add: acq_def rel_def acq_cpu_def rel_cpu_def the_cpu_def)

lemma held_acq [simp, intro]: "cli_ok s \<Longrightarrow> lk_held l (acq l s)"
  by (simp add: lk_defs acq_def acq_cpu_def)

lemma held_acq_other [simp]: "l \<noteq> l' \<Longrightarrow> lk_held l s \<Longrightarrow> lk_held l (acq l' s)"
  by (simp add: lk_defs acq_def acq_cpu_def)

lemma free_acq_other [simp]: "l \<noteq> l' \<Longrightarrow> lk_free l (acq l' s) = lk_free l s"
  by (simp add: lk_defs acq_def acq_cpu_def)

lemma free_rel [simp]: "lk_free l (rel l s)"
  by (simp add: lk_defs rel_def)

lemma free_rel_other [simp]: "l \<noteq> l' \<Longrightarrow> lk_free l (rel l' s) = lk_free l s"
  by (simp add: lk_defs rel_def)

lemma holding_acq [simp]: "holding l (acq l s)"
  by (simp add: lk_defs acq_def)

lemma holding_acq_other [simp]: "l \<noteq> l' \<Longrightarrow> holding l (acq l' s) = holding l s"
  by (simp add: lk_defs acq_def)

lemma holding_rel_other [simp]: "l \<noteq> l' \<Longrightarrow> holding l (rel l' s) = holding l s"
  by (simp add: lk_defs rel_def)

lemma held_rel_other [simp]:
  "l \<noteq> l' \<Longrightarrow> lk_held l s \<Longrightarrow> 1 < ncli (the_cpu s) \<Longrightarrow> lk_held l (rel l' s)"
  by (simp add: lk_defs rel_def rel_cpu_def)

lemma free_not_holding: "lk_free l s \<Longrightarrow> \<not> holding l s"
  by (simp add: lk_defs)

lemma cli_ok_acq [simp, intro]: "cli_ok s \<Longrightarrow> cli_ok (acq l s)"
  by (simp add: lk_defs acq_def acq_cpu_def)

lemma held_ncli: "lk_held l s \<Longrightarrow> 1 \<le> ncli (the_cpu s)"
  by (simp add: lk_defs)

lemma cli_ok_rel [simp, intro]: "lk_held l s \<Longrightarrow> cli_ok (rel l s)"
  by (auto simp: lk_defs rel_def rel_cpu_def)

text \<open>
  One critical section: the lock is free again, the nesting count and the interrupt flag
  are those before it, and no other lock has changed.
\<close>

lemma crit_cpu:
  "cli_ok s \<Longrightarrow> ncli (the_cpu (rel l (acq l s))) = ncli (the_cpu s) \<and>
     eflags_if (the_cpu (rel l (acq l s))) = eflags_if (the_cpu s)"
  by (auto simp: lk_defs acq_def rel_def acq_cpu_def rel_cpu_def)

lemma eflags_if_acq [simp]: "\<not> eflags_if (the_cpu (acq l s))"
  by (simp add: acq_def acq_cpu_def the_cpu_def)

lemma eflags_if_rel:
  "eflags_if (the_cpu (rel l s)) =
     (if ncli (the_cpu s) = 1 \<and> intena (the_cpu s) then True else eflags_if (the_cpu s))"
  by (simp add: rel_def rel_cpu_def the_cpu_def)

lemma crit_cli_ok [simp]: "cli_ok s \<Longrightarrow> cli_ok (rel l (acq l s))"
  by (rule cli_ok_rel) simp

lemma crit_locks [simp]: "l' \<noteq> l \<Longrightarrow> locks (rel l (acq l s)) l' = locks s l'"
  by (simp add: acq_def rel_def)

lemma pcs_walk_length [simp]: "length (pcs_walk m n ebp) = n"
  by (induction m n ebp rule: pcs_walk.induct) auto

section \<open>Properties of the lock operations\<close>

fun push_n :: "nat \<Rightarrow> (unit, 'z lockst_scheme) kmon" where
  "push_n 0 = skip"
| "push_n (Suc n) = thn (push_n n) pushcli"

fun pop_n :: "nat \<Rightarrow> (unit, 'z lockst_scheme) kmon" where
  "pop_n 0 = skip"
| "pop_n (Suc n) = thn popcli (pop_n n)"

lemma push_n_state:
  "cli_ok s \<Longrightarrow> \<exists>t. push_n n s = Ret () t \<and> cli_ok t \<and> ncli (the_cpu t) = ncli (the_cpu s) + int n \<and>
     eflags_if (the_cpu t) = (n = 0 \<and> eflags_if (the_cpu s)) \<and>
     intena (the_cpu t) = (if ncli (the_cpu s) = 0 \<and> 0 < n then eflags_if (the_cpu s)
       else intena (the_cpu s))"
proof (induction n)
  case (Suc n)
  then obtain t where t: "push_n n s = Ret () t" "cli_ok t"
    "ncli (the_cpu t) = ncli (the_cpu s) + int n"
    "eflags_if (the_cpu t) = (n = 0 \<and> eflags_if (the_cpu s))"
    "intena (the_cpu t) = (if ncli (the_cpu s) = 0 \<and> 0 < n then eflags_if (the_cpu s)
       else intena (the_cpu s))" by auto
  have "ncli (the_cpu t) = 0 \<longleftrightarrow> n = 0 \<and> ncli (the_cpu s) = 0"
    using t(3) Suc.prems by (auto simp: cli_ok_def)
  then show ?case
    using t Suc.prems
    by (auto simp: pushcli_def mon_defs cpu_defs Let_def cli_ok_def split: if_splits)
qed (simp add: mon_defs)

lemma pop_n_state:
  "0 < n \<Longrightarrow> \<not> eflags_if (the_cpu s) \<Longrightarrow> ncli (the_cpu s) = k + int n \<Longrightarrow> 0 \<le> k \<Longrightarrow>
     \<exists>t. pop_n n s = Ret () t \<and> ncli (the_cpu t) = k \<and>
       eflags_if (the_cpu t) = (k = 0 \<and> intena (the_cpu s))"
proof (induction n arbitrary: s)
  case (Suc n)
  let ?t = "upd_cpu rel_cpu s"
  have pop: "popcli s = Ret () ?t"
    using Suc.prems by (simp add: popcli_def rel_cpu_def cpu_defs Let_def)
  show ?case
  proof (cases "n = 0")
    case True
    with Suc.prems pop show ?thesis
      by (auto simp: mon_defs rel_cpu_def cpu_defs)
  next
    case False
    have "\<exists>t. pop_n n ?t = Ret () t \<and> ncli (the_cpu t) = k \<and>
        eflags_if (the_cpu t) = (k = 0 \<and> intena (the_cpu ?t))"
      using Suc.prems False by (intro Suc.IH) (auto simp: rel_cpu_def cpu_defs)
    with pop show ?thesis by (auto simp: mon_defs rel_cpu_def cpu_defs)
  qed
qed simp

text \<open>
  Nesting of \<open>pushcli\<close> and \<open>popcli\<close>: any number of \<open>pushcli\<close> calls followed by as many
  \<open>popcli\<close> calls return, interrupts are off in between, and the nesting count and the
  interrupt flag end as they were, also when interrupts were off at the start.
\<close>

theorem pushcli_popcli_nested:
  assumes "cli_ok s"
  shows "\<exists>t u. push_n n s = Ret () t \<and> pop_n n t = Ret () u \<and> (0 < n \<longrightarrow> \<not> eflags_if (the_cpu t)) \<and>
    ncli (the_cpu u) = ncli (the_cpu s) \<and> eflags_if (the_cpu u) = eflags_if (the_cpu s)"
proof (cases "n = 0")
  case False
  obtain t where t: "push_n n s = Ret () t" "ncli (the_cpu t) = ncli (the_cpu s) + int n"
    "\<not> eflags_if (the_cpu t)"
    "intena (the_cpu t) = (if ncli (the_cpu s) = 0 then eflags_if (the_cpu s) else intena (the_cpu s))"
    using push_n_state[OF assms, of n] False by auto
  have "0 \<le> ncli (the_cpu s)" using assms by (simp add: cli_ok_def)
  from pop_n_state[OF _ t(3,2) this] False obtain u where
    "pop_n n t = Ret () u" "ncli (the_cpu u) = ncli (the_cpu s)"
    "eflags_if (the_cpu u) = (ncli (the_cpu s) = 0 \<and> intena (the_cpu t))" by auto
  with t assms show ?thesis by (auto simp: cli_ok_def)
qed (simp add: mon_defs)

text \<open>A machine at rest: every lock free, interrupts on, no process on the CPU.\<close>

definition cpu_boot :: cpu where
  "cpu_boot = \<lparr>cpu_id = 0, ncli = 0, intena = False, eflags_if = True, cpu_proc = None, ts_ss0 = 0,
     ts_esp0 = 0, cr3 = 0\<rparr>"

definition spinlock_boot :: spinlock where
  "spinlock_boot = \<lparr>locked = 0, lk_name = LkPtr 0, lk_cpu = None, lk_pcs = replicate 10 0, lk_id = 0\<rparr>"

definition lockst_boot :: lockst where
  "lockst_boot = \<lparr>cpus = (\<lambda>_. cpu_boot), mycpu = 0, locks = (\<lambda>_. spinlock_boot),
     stkmem = (\<lambda>_. 0), frame = 0\<rparr>"

lemmas boot_defs = cpu_boot_def spinlock_boot_def lockst_boot_def

lemma lockst_boot_ok: "cli_ok lockst_boot" "lk_free l lockst_boot"
  by (simp_all add: lk_defs boot_defs)

theorem pushcli_popcli_nested_witness:
  "cli_ok lockst_boot \<and> (\<exists>t u. push_n 3 lockst_boot = Ret () t \<and> pop_n 3 t = Ret () u \<and>
     \<not> eflags_if (the_cpu t) \<and> ncli (the_cpu u) = 0 \<and> eflags_if (the_cpu u))"
  using pushcli_popcli_nested[OF lockst_boot_ok(1), of 3] lockst_boot_ok(1)
  by (auto simp: boot_defs the_cpu_def)

text \<open>
  C38. \<open>acquire\<close> of a free lock returns holding it with interrupts off; a second \<open>acquire\<close> by
  the same CPU panics instead of deadlocking; \<open>release\<close> frees it and restores the nesting
  count and the interrupt flag, changing no other lock and no other part of the kernel state.
\<close>

theorem acquire_release_restores:
  assumes "lk_free l s" and "cli_ok s"
  shows "\<exists>t u. acquire l s = Ret () t \<and> holding l t \<and> \<not> eflags_if (the_cpu t) \<and>
    acquire l t = Pnc ''acquire'' \<and> release l t = Ret () u \<and> lk_free l u \<and>
    ncli (the_cpu u) = ncli (the_cpu s) \<and> eflags_if (the_cpu u) = eflags_if (the_cpu s) \<and>
    (\<forall>l'. l' \<noteq> l \<longrightarrow> locks u l' = locks s l') \<and> lockst.more u = lockst.more s"
proof (intro exI conjI)
  show "acquire l s = Ret () (acq l s)" using assms by (simp add: acquire_free)
  show "release l (acq l s) = Ret () (rel l (acq l s))" using assms by (simp add: release_held)
  show "acquire l (acq l s) = Pnc ''acquire''" by (simp add: acquire_holding)
qed (use assms in \<open>simp_all add: crit_cpu\<close>)

theorem acquire_release_restores_witness:
  "lk_free Lptable lockst_boot \<and> (\<exists>t u. acquire Lptable lockst_boot = Ret () t \<and> holding Lptable t \<and>
     acquire Lptable t = Pnc ''acquire'' \<and> release Lptable t = Ret () u \<and> lk_free Lptable u)"
  using acquire_release_restores[OF lockst_boot_ok(2) lockst_boot_ok(1), of Lptable] lockst_boot_ok(2)
  by blast

end
