(* ===== verification/Proc.thy ===== *)
theory Proc
  imports Spinlock
begin

text \<open>
  The process table of \<^verbatim>\<open>proc.h\<close> and the operations of \<^verbatim>\<open>proc.c\<close> that work on it alone:
  scheduling, sleep and wakeup, kill, and the mutexes and condition variables of the
  kernel threads. Pointers to a \<^verbatim>\<open>struct proc\<close> are indices of \<open>ptable\<close>.
\<close>

section \<open>State\<close>

record kcontext =
  c_edi :: u32
  c_esi :: u32
  c_ebx :: u32
  c_ebp :: u32
  c_eip :: u32

record trapframe =
  tf_edi :: u32
  tf_esi :: u32
  tf_ebp :: u32
  tf_oesp :: u32
  tf_ebx :: u32
  tf_edx :: u32
  tf_ecx :: u32
  tf_eax :: u32
  tf_gs :: u16
  tf_fs :: u16
  tf_es :: u16
  tf_ds :: u16
  tf_trapno :: u32
  tf_err :: u32
  tf_eip :: u32
  tf_cs :: u16
  tf_eflags :: u32
  tf_esp :: u32
  tf_ss :: u16

datatype procstate = UNUSED | EMBRYO | SLEEPING | RUNNABLE | RUNNING | ZOMBIE

text \<open>
  A sleep channel is an address: of a kernel object, one constructor per kind of object,
  or the pid of a thread cast to a pointer (\<^verbatim>\<open>(void*)proc->pid\<close>), which lies below every
  kernel address. The null pointer is \<open>ChNull\<close>.
\<close>

datatype chan = ChNull | ChProc nat | ChBuf nat | ChInode nat | ChLog | ChTicks
  | ChPread u32 | ChPwrite u32 | ChInput | ChNum int

definition chan_of_pid :: "int \<Rightarrow> chan" where
  "chan_of_pid n = (if n = 0 then ChNull else ChNum n)"

record kthread_mutex =
  mx_lock :: spinlock
  lockingthread :: int

record kthread_condvar =
  cv_id :: int
  waitingthreadlist :: "int list"

record proc =
  p_sz :: u32
  p_pgdir :: u32
  p_kstack :: u32
  p_state :: procstate
  p_pid :: int
  p_parent :: "nat option"
  p_tf :: trapframe
  p_context :: kcontext
  p_chan :: chan
  p_killed :: bool
  p_ofile :: "nat option list"
  p_cwd :: "nat option"
  p_name :: "u8 list"
  p_ctflag :: bool
  p_type :: int
  p_wrapper :: u32
  p_ustack :: u32
  p_tcount :: u32
  p_mutexlist :: "kthread_mutex list"
  p_condvarlist :: "kthread_condvar list"
  p_threadattr :: int
  p_threadretval :: int

record procst = lockst +
  ptable :: "proc list"
  nextpid :: int
  initproc :: "nat option"
  kpgdir :: u32

text \<open>
  Access to the table: \<open>myproc\<close> is the variable \<open>proc\<close>, a null pointer while the
  scheduler runs; \<open>getp\<close> and \<open>updp\<close> read and write one entry.
\<close>

definition myproc :: "(nat, 'z procst_scheme) kmon" where
  "myproc s = (case cpu_proc (the_cpu s) of None \<Rightarrow> Ub | Some i \<Rightarrow> Ret i s)"

definition getp :: "nat \<Rightarrow> (proc, 'z procst_scheme) kmon" where
  "getp i s = (if i < length (ptable s) then Ret (ptable s ! i) s else Ub)"

definition updp :: "nat \<Rightarrow> (proc \<Rightarrow> proc) \<Rightarrow> (unit, 'z procst_scheme) kmon" where
  "updp i f s = (if i < length (ptable s)
     then Ret () (s\<lparr>ptable := (ptable s)[i := f (ptable s ! i)]\<rparr>) else Ub)"

definition deref :: "'a option \<Rightarrow> ('a, 's) kmon" where
  "deref p = (case p of None \<Rightarrow> undefd | Some i \<Rightarrow> ret i)"

section \<open>Scheduling\<close>

definition pinit :: "(unit, 'z procst_scheme) kmon" where
  "pinit = modify (upd_lock Lptable (initlock (LkStr ''ptable'')))"

text \<open>
  \<open>switchuvm\<close> and \<open>switchkvm\<close> of \<^verbatim>\<open>vm.c\<close>: the task state segment gets the kernel
  stack of the current process, and the page-table register the directory of \<open>p\<close>.
\<close>

definition switchuvm :: "nat \<Rightarrow> (unit, 'z procst_scheme) kmon" where
  "switchuvm p =
     thn pushcli
     (bnd myproc (\<lambda>me. bnd (getp me) (\<lambda>q.
      thn (modify (upd_cpu (\<lambda>c. c\<lparr>ts_ss0 := push_bit 3 2, ts_esp0 := p_kstack q + KSTACKSIZE\<rparr>)))
     (bnd (getp p) (\<lambda>pp.
      if p_pgdir pp = 0 then panic ''switchuvm: no pgdir''
      else thn (modify (upd_cpu (\<lambda>c. c\<lparr>cr3 := v2p (p_pgdir pp)\<rparr>))) popcli)))))"

definition switchkvm :: "(unit, 'z procst_scheme) kmon" where
  "switchkvm = modify (\<lambda>s. upd_cpu (\<lambda>c. c\<lparr>cr3 := v2p (kpgdir s)\<rparr>) s)"

definition sched :: "(unit, 'z procst_scheme) kmon" where
  "sched s =
     (if \<not> holding Lptable s then Pnc ''sched ptable.lock''
      else if ncli (the_cpu s) \<noteq> 1 then Pnc ''sched locks''
      else bnd (bnd myproc getp) (\<lambda>p s.
        if p_state p = RUNNING then Pnc ''sched running''
        else if eflags_if (the_cpu s) then Pnc ''sched interruptible''
        else Swt s) s)"

text \<open>
  What \<open>sched\<close> does when the process is switched to again: \<open>b\<close> is its local \<open>intena\<close>,
  the flag it saved before the switch.
\<close>

definition sched_return :: "bool \<Rightarrow> (unit, 'z procst_scheme) kmon" where
  "sched_return b = modify (upd_cpu (\<lambda>c. c\<lparr>intena := b\<rparr>))"

text \<open>
  The scan of \<open>scheduler\<close> from entry \<open>i\<close> on, with \<open>ptable.lock\<close> held: \<open>Some p\<close>
  when it switches to process \<open>p\<close>, \<open>None\<close> when it reaches the end of the table and
  drops the lock. \<open>scheduler_back\<close> is its continuation when process \<open>p\<close> switches back.
\<close>

definition scheduler_scan :: "nat \<Rightarrow> (nat option, 'z procst_scheme) kmon" where
  "scheduler_scan i =
     bnd (gets (\<lambda>s. find_idx (\<lambda>p. p_state p = RUNNABLE) (drop i (ptable s)))) (\<lambda>r.
       case r of
         None \<Rightarrow> thn (release Lptable) (ret None)
       | Some d \<Rightarrow>
           thn (modify (upd_cpu (\<lambda>c. c\<lparr>cpu_proc := Some (i + d)\<rparr>)))
           (thn (switchuvm (i + d))
           (thn (updp (i + d) (\<lambda>p. p\<lparr>p_state := RUNNING\<rparr>))
           (ret (Some (i + d))))))"

definition scheduler_round :: "(nat option, 'z procst_scheme) kmon" where
  "scheduler_round =
     thn (modify (upd_cpu (\<lambda>c. c\<lparr>eflags_if := True\<rparr>)))
     (thn (acquire Lptable) (scheduler_scan 0))"

definition scheduler_back :: "nat \<Rightarrow> (nat option, 'z procst_scheme) kmon" where
  "scheduler_back p =
     thn switchkvm
     (thn (modify (upd_cpu (\<lambda>c. c\<lparr>cpu_proc := None\<rparr>))) (scheduler_scan (Suc p)))"

definition yield :: "(unit, 'z procst_scheme) kmon" where
  "yield =
     thn (acquire Lptable)
     (bnd myproc (\<lambda>p. thn (updp p (\<lambda>q. q\<lparr>p_state := RUNNABLE\<rparr>)) sched))"

definition yield_return :: "bool \<Rightarrow> (unit, 'z procst_scheme) kmon" where
  "yield_return b = thn (sched_return b) (release Lptable)"

section \<open>Sleep, wakeup and kill\<close>

definition sleep :: "chan \<Rightarrow> lockid option \<Rightarrow> (unit, 'z procst_scheme) kmon" where
  "sleep ch lk s =
     (if cpu_proc (the_cpu s) = None then Pnc ''sleep''
      else case lk of None \<Rightarrow> Pnc ''sleep without lk'' | Some l \<Rightarrow>
        thn (if l \<noteq> Lptable then thn (acquire Lptable) (release l) else skip)
        (bnd myproc (\<lambda>p.
         thn (updp p (\<lambda>q. q\<lparr>p_chan := ch, p_state := SLEEPING\<rparr>)) sched)) s)"

definition sleep_return :: "bool \<Rightarrow> lockid \<Rightarrow> (unit, 'z procst_scheme) kmon" where
  "sleep_return b l =
     thn (sched_return b)
     (bnd myproc (\<lambda>p.
      thn (updp p (\<lambda>q. q\<lparr>p_chan := ChNull\<rparr>))
      (if l \<noteq> Lptable then thn (release Lptable) (acquire l) else skip)))"

definition wakeup_proc :: "chan \<Rightarrow> proc \<Rightarrow> proc" where
  "wakeup_proc ch p =
     (if p_state p = SLEEPING \<and> p_chan p = ch then p\<lparr>p_state := RUNNABLE\<rparr> else p)"

definition wakeup1 :: "chan \<Rightarrow> (unit, 'z procst_scheme) kmon" where
  "wakeup1 ch = modify (\<lambda>s. s\<lparr>ptable := map (wakeup_proc ch) (ptable s)\<rparr>)"

definition wakeup :: "chan \<Rightarrow> (unit, 'z procst_scheme) kmon" where
  "wakeup ch = thn (acquire Lptable) (thn (wakeup1 ch) (release Lptable))"

definition kill_proc :: "proc \<Rightarrow> proc" where
  "kill_proc p =
     (let p1 = p\<lparr>p_killed := True\<rparr>
      in if p_state p1 = SLEEPING then p1\<lparr>p_state := RUNNABLE\<rparr> else p1)"

definition kill :: "int \<Rightarrow> (int, 'z procst_scheme) kmon" where
  "kill n =
     thn (acquire Lptable)
     (bnd (gets (\<lambda>s. find_idx (\<lambda>p. p_pid p = n) (ptable s))) (\<lambda>r.
        case r of
          Some i \<Rightarrow> thn (updp i kill_proc) (thn (release Lptable) (ret 0))
        | None \<Rightarrow> thn (release Lptable) (ret (-1))))"

section \<open>Process-table fields and locks\<close>

lemma procst_acq [simp]:
  "ptable (acq l s) = ptable s" "nextpid (acq l s) = nextpid s"
  "initproc (acq l s) = initproc s" "kpgdir (acq l s) = kpgdir s"
  "ptable (rel l s) = ptable s" "nextpid (rel l s) = nextpid s"
  "initproc (rel l s) = initproc s" "kpgdir (rel l s) = kpgdir s"
  by (simp_all add: acq_def rel_def)

lemma procst_upd_locks [simp]:
  "lk_free l (s\<lparr>ptable := x\<rparr>) = lk_free l s" "lk_held l (s\<lparr>ptable := x\<rparr>) = lk_held l s"
  "holding l (s\<lparr>ptable := x\<rparr>) = holding l s" "cli_ok (s\<lparr>ptable := x\<rparr>) = cli_ok s"
  "the_cpu (s\<lparr>ptable := x\<rparr>) = the_cpu s"
  "lk_free l (s\<lparr>nextpid := n\<rparr>) = lk_free l s" "lk_held l (s\<lparr>nextpid := n\<rparr>) = lk_held l s"
  "holding l (s\<lparr>nextpid := n\<rparr>) = holding l s" "cli_ok (s\<lparr>nextpid := n\<rparr>) = cli_ok s"
  "the_cpu (s\<lparr>nextpid := n\<rparr>) = the_cpu s"
  by (simp_all add: lk_defs)

lemma procst_upd_acq [simp]:
  "acq l (s\<lparr>ptable := x\<rparr>) = (acq l s)\<lparr>ptable := x\<rparr>"
  "rel l (s\<lparr>ptable := x\<rparr>) = (rel l s)\<lparr>ptable := x\<rparr>"
  "acq l (s\<lparr>nextpid := n\<rparr>) = (acq l s)\<lparr>nextpid := n\<rparr>"
  "rel l (s\<lparr>nextpid := n\<rparr>) = (rel l s)\<lparr>nextpid := n\<rparr>"
  by (simp_all add: acq_def rel_def)

lemma myproc_simps [simp]:
  "cpu_proc (the_cpu s) = Some p \<Longrightarrow> myproc s = Ret p s"
  by (simp add: myproc_def)

lemma getp_Ret [simp]: "i < length (ptable s) \<Longrightarrow> getp i s = Ret (ptable s ! i) s"
  by (simp add: getp_def)

lemma updp_Ret [simp]:
  "i < length (ptable s) \<Longrightarrow> updp i f s = Ret () (s\<lparr>ptable := (ptable s)[i := f (ptable s ! i)]\<rparr>)"
  by (simp add: updp_def)

text \<open>
  The states in which the table's operations run: \<open>p\<close> is the current process, an entry
  of the table, and \<open>ptable.lock\<close> is free.
\<close>

definition runs :: "nat \<Rightarrow> 'z procst_scheme \<Rightarrow> bool" where
  "runs p s \<longleftrightarrow> cpu_proc (the_cpu s) = Some p \<and> p < length (ptable s) \<and> lk_free Lptable s \<and> cli_ok s"

lemma runsD [dest]:
  "runs p s \<Longrightarrow> cpu_proc (the_cpu s) = Some p" "runs p s \<Longrightarrow> p < length (ptable s)"
  "runs p s \<Longrightarrow> lk_free Lptable s" "runs p s \<Longrightarrow> cli_ok s"
  by (simp_all add: runs_def)

section \<open>Properties\<close>

lemma wakeup_Ret:
  "lk_free Lptable s \<Longrightarrow> cli_ok s \<Longrightarrow>
   wakeup ch s = Ret () ((rel Lptable (acq Lptable s))\<lparr>ptable := map (wakeup_proc ch) (ptable s)\<rparr>)"
  by (simp add: wakeup_def wakeup1_def mon_defs acquire_free release_held)

lemma kill_Ret:
  "lk_free Lptable s \<Longrightarrow> cli_ok s \<Longrightarrow> kill n s =
     (case find_idx (\<lambda>p. p_pid p = n) (ptable s) of
        None \<Rightarrow> Ret (-1) (rel Lptable (acq Lptable s))
      | Some i \<Rightarrow> Ret 0 ((rel Lptable (acq Lptable s))\<lparr>ptable := (ptable s)[i := kill_proc (ptable s ! i)]\<rparr>))"
  by (auto simp: kill_def mon_defs acquire_free release_held split: option.splits
      dest: find_idx_SomeD)

section \<open>Paths that leave the process alone\<close>

text \<open>
  What most kernel paths do to the state of this theory and of the locks: the CPU, its nesting
  count and its process are as before, every lock is free that was, and of the process table only
  some sleepers have become runnable.
\<close>

definition woke :: "proc list \<Rightarrow> proc list \<Rightarrow> bool" where
  "woke ps qs \<longleftrightarrow> length qs = length ps \<and> (\<forall>i < length ps. qs ! i = ps ! i \<or>
     p_state (ps ! i) = SLEEPING \<and> qs ! i = (ps ! i)\<lparr>p_state := RUNNABLE\<rparr>)"

definition quiet :: "'z procst_scheme \<Rightarrow> 'z procst_scheme \<Rightarrow> bool" where
  "quiet s t \<longleftrightarrow> mycpu t = mycpu s \<and> cpu_proc (the_cpu t) = cpu_proc (the_cpu s) \<and>
     ncli (the_cpu t) = ncli (the_cpu s) \<and> eflags_if (the_cpu t) = eflags_if (the_cpu s) \<and>
     (\<forall>l. lk_free l t = lk_free l s) \<and> woke (ptable s) (ptable t) \<and> nextpid t = nextpid s \<and>
     initproc t = initproc s \<and> kpgdir t = kpgdir s"

lemma woke_refl [simp]: "woke ps ps"
  by (simp add: woke_def)

lemma woke_trans: "woke ps qs \<Longrightarrow> woke qs rs \<Longrightarrow> woke ps rs"
  unfolding woke_def by (metis (no_types, lifting) proc.surjective proc.update_convs(4))

lemma woke_wakeup [simp]: "woke ps (map (wakeup_proc ch) ps)"
  by (simp add: woke_def wakeup_proc_def)

lemma quiet_refl [simp]: "quiet s s"
  by (simp add: quiet_def)

lemma quiet_trans: "quiet s t \<Longrightarrow> quiet t u \<Longrightarrow> quiet s u"
  by (auto simp: quiet_def intro: woke_trans)

lemma quiet_crit:
  assumes "lk_free l s" "cli_ok s"
  shows "quiet s (rel l (acq l s))"
proof -
  have "lk_free l' (rel l (acq l s)) = lk_free l' s" for l' using assms(1) by (cases "l' = l") auto
  with crit_cpu[OF assms(2)] show ?thesis by (simp add: quiet_def)
qed

lemma quiet_crit2:
  assumes "lk_free l s" "lk_free l' s" "l \<noteq> l'" "cli_ok s"
  shows "quiet s (rel l (rel l' (acq l' (acq l s))))"
proof -
  have "lk_free k (rel l (rel l' (acq l' (acq l s)))) = lk_free k s" for k
    using assms by (cases "k = l"; cases "k = l'") auto
  moreover have "eflags_if (the_cpu (rel l (rel l' (acq l' (acq l s))))) = eflags_if (the_cpu s)"
    using assms(4) by (auto simp: lk_defs acq_def rel_def acq_cpu_def rel_cpu_def)
  ultimately show ?thesis by (simp add: quiet_def)
qed

lemma quiet_woke: "quiet s t \<Longrightarrow> woke (ptable t) ps \<Longrightarrow> quiet s (t\<lparr>ptable := ps\<rparr>)"
  by (auto simp: quiet_def intro: woke_trans)

lemma quiet_cli_ok: "quiet s t \<Longrightarrow> cli_ok s \<Longrightarrow> cli_ok t"
  by (auto simp: quiet_def cli_ok_def)

lemma quiet_runs: "quiet s t \<Longrightarrow> runs p s \<Longrightarrow> runs p t"
  by (auto simp: quiet_def runs_def cli_ok_def woke_def)

lemma quiet_wakeup:
  assumes "lk_free Lptable s" "cli_ok s"
  shows "\<exists>t. wakeup ch s = Ret () t \<and> quiet s t \<and> procst.more t = procst.more s"
proof -
  let ?u = "rel Lptable (acq Lptable s)"
  have "quiet ?u (?u\<lparr>ptable := map (wakeup_proc ch) (ptable s)\<rparr>)" by (simp add: quiet_def)
  with quiet_trans[OF quiet_crit[OF assms]] assms show ?thesis by (simp add: wakeup_Ret acq_def rel_def)
qed


text \<open>The state of an example process table: entry 0 sleeps on the log, entry 1 runs.\<close>

definition tf_zero :: trapframe where
  "tf_zero = \<lparr>tf_edi = 0, tf_esi = 0, tf_ebp = 0, tf_oesp = 0, tf_ebx = 0, tf_edx = 0, tf_ecx = 0,
     tf_eax = 0, tf_gs = 0, tf_fs = 0, tf_es = 0, tf_ds = 0, tf_trapno = 0, tf_err = 0, tf_eip = 0,
     tf_cs = 0, tf_eflags = 0, tf_esp = 0, tf_ss = 0\<rparr>"

definition mutex_boot :: kthread_mutex where
  "mutex_boot = \<lparr>mx_lock = spinlock_boot, lockingthread = 0\<rparr>"

definition condvar_boot :: kthread_condvar where
  "condvar_boot = \<lparr>cv_id = 0, waitingthreadlist = replicate MAXTHRDS 0\<rparr>"

definition proc_boot :: proc where
  "proc_boot = \<lparr>p_sz = 0, p_pgdir = 0, p_kstack = 0, p_state = UNUSED, p_pid = 0, p_parent = None,
     p_tf = tf_zero, p_context = \<lparr>c_edi = 0, c_esi = 0, c_ebx = 0, c_ebp = 0, c_eip = 0\<rparr>,
     p_chan = ChNull, p_killed = False, p_ofile = replicate NOFILE None, p_cwd = None,
     p_name = replicate 16 0, p_ctflag = False, p_type = 0, p_wrapper = 0, p_ustack = 0,
     p_tcount = 0, p_mutexlist = replicate NMUTX mutex_boot,
     p_condvarlist = replicate NCONDVAR condvar_boot, p_threadattr = 0, p_threadretval = 0\<rparr>"

definition procst_ex :: "procst" where
  "procst_ex = lockst.extend (lockst_boot\<lparr>cpus := (\<lambda>_. cpu_boot\<lparr>cpu_proc := Some 1\<rparr>)\<rparr>)
     (procst.fields
       [proc_boot\<lparr>p_state := SLEEPING, p_pid := 1, p_chan := ChLog, p_pgdir := 0x80400000\<rparr>,
        proc_boot\<lparr>p_state := RUNNING, p_pid := 2, p_pgdir := 0x80401000\<rparr>,
        proc_boot\<lparr>p_state := RUNNABLE, p_pid := 3, p_pgdir := 0x80402000\<rparr>] 4 (Some 0) 0x80300000)"

lemmas procst_ex_defs = procst_ex_def lockst.defs procst.defs boot_defs proc_boot_def

lemma procst_ex_ok: "lk_free l procst_ex" "cli_ok procst_ex" "runs 1 procst_ex"
  by (simp_all add: runs_def lk_defs procst_ex_defs)


text \<open>
  \<open>kill\<close> returns 0 when a process has the pid and -1 otherwise; it marks the first such
  process, which does not sleep afterwards, and changes no other entry.
\<close>

theorem kill_effect:
  assumes "lk_free Lptable s" and "cli_ok s"
  shows "\<exists>r t. kill n s = Ret r t \<and> lk_free Lptable t \<and> length (ptable t) = length (ptable s) \<and>
    (r = 0 \<longleftrightarrow> n \<in> p_pid ` set (ptable s)) \<and> (r = 0 \<or> r = -1 \<and> ptable t = ptable s) \<and>
    (r = 0 \<longrightarrow> (\<exists>i < length (ptable s). p_pid (ptable t ! i) = n \<and> p_killed (ptable t ! i) \<and>
        p_state (ptable t ! i) \<noteq> SLEEPING \<and> (\<forall>j. j \<noteq> i \<longrightarrow> ptable t ! j = ptable s ! j)))"
proof (cases "find_idx (\<lambda>p. p_pid p = n) (ptable s)")
  case None
  with assms find_idx_None_iff[THEN iffD1, OF None] show ?thesis by (auto simp: kill_Ret)
next
  case (Some i)
  from find_idx_SomeD[OF this] have "i < length (ptable s)" "p_pid (ptable s ! i) = n" by auto
  then have "n \<in> p_pid ` set (ptable s)" by (metis image_eqI nth_mem)
  with \<open>i < length (ptable s)\<close> \<open>p_pid (ptable s ! i) = n\<close> show ?thesis using assms Some
    by (auto simp: kill_Ret kill_proc_def Let_def intro!: exI[of _ i])
qed

theorem kill_effect_witness:
  "lk_free Lptable procst_ex \<and> (\<exists>t. kill 1 procst_ex = Ret 0 t \<and> lk_free Lptable t)"
proof -
  obtain r t where "kill 1 procst_ex = Ret r t" "lk_free Lptable t"
    "r = 0 \<longleftrightarrow> 1 \<in> p_pid ` set (ptable procst_ex)"
    using kill_effect[OF procst_ex_ok(1,2), of 1] by blast
  then show ?thesis using procst_ex_ok(1)[of Lptable] by (auto simp: procst_ex_defs)
qed

lemma sleep_Swt:
  assumes "cpu_proc (the_cpu s) = Some p" "p < length (ptable s)" "lk_held l s" "l \<noteq> Lptable"
    "lk_free Lptable s" "ncli (the_cpu s) = 1"
  shows "sleep ch (Some l) s = Swt ((rel l (acq Lptable s))\<lparr>ptable :=
      (ptable s)[p := (ptable s ! p)\<lparr>p_chan := ch, p_state := SLEEPING\<rparr>]\<rparr>)"
proof -
  have "cli_ok s" using assms(3) by (simp add: lk_defs)
  then show ?thesis using assms by (simp add: sleep_def sched_def mon_defs acquire_free release_held eflags_if_rel)
qed


lemma procst_ex_fields: "ncli (the_cpu procst_ex) = 0" "cpu_proc (the_cpu procst_ex) = Some 1"
  "length (ptable procst_ex) = 3"
  by (simp_all add: procst_ex_defs the_cpu_def)

lemma procst_ex_held: "lk_held Llog (acq Llog procst_ex)" "lk_free Lptable (acq Llog procst_ex)"
  "ncli (the_cpu (acq Llog procst_ex)) = 1" "cpu_proc (the_cpu (acq Llog procst_ex)) = Some 1"
  "1 < length (ptable (acq Llog procst_ex))"
  using procst_ex_ok(1,2) by (simp_all add: procst_ex_fields)


end
