(* ===== verification/Kthread.thy ===== *)
theory Kthread
  imports Proc
begin

text \<open>
  The synchronisation objects of the kernel threads (\<^verbatim>\<open>proc.c\<close>, from \<open>mutex_init\<close> to
  \<open>condvar_broadcast\<close>, and \<open>modified_sleep\<close>): every process carries \<open>NMUTX\<close> mutexes
  and \<open>NCONDVAR\<close> condition variables, and its threads use those of their parent.
\<close>

section \<open>Access to the objects of a process\<close>

definition upd_mutex :: "nat \<Rightarrow> (kthread_mutex \<Rightarrow> kthread_mutex) \<Rightarrow> proc \<Rightarrow> proc" where
  "upd_mutex m f p = p\<lparr>p_mutexlist := (p_mutexlist p)[m := f (p_mutexlist p ! m)]\<rparr>"

definition upd_condvar :: "nat \<Rightarrow> (kthread_condvar \<Rightarrow> kthread_condvar) \<Rightarrow> proc \<Rightarrow> proc" where
  "upd_condvar c f p = p\<lparr>p_condvarlist := (p_condvarlist p)[c := f (p_condvarlist p ! c)]\<rparr>"

definition set_waiting :: "nat \<Rightarrow> nat \<Rightarrow> int \<Rightarrow> proc \<Rightarrow> proc" where
  "set_waiting c i v = upd_condvar c (\<lambda>cv. cv\<lparr>waitingthreadlist := (waitingthreadlist cv)[i := v]\<rparr>)"

text \<open>The \<open>locked\<close> word of mutex \<open>m\<close> of a process; an index past the array is undefined.\<close>

definition get_mutex :: "nat \<Rightarrow> nat \<Rightarrow> (kthread_mutex, 'z procst_scheme) kmon" where
  "get_mutex p m = bnd (getp p) (\<lambda>q. if m < length (p_mutexlist q) then ret (p_mutexlist q ! m) else undefd)"

definition get_condvar :: "nat \<Rightarrow> nat \<Rightarrow> (kthread_condvar, 'z procst_scheme) kmon" where
  "get_condvar p c = bnd (getp p) (\<lambda>q. if c < length (p_condvarlist q) then ret (p_condvarlist q ! c) else undefd)"

definition set_locked :: "nat \<Rightarrow> nat \<Rightarrow> u32 \<Rightarrow> (unit, 'z procst_scheme) kmon" where
  "set_locked p m v = updp p (upd_mutex m (\<lambda>x. x\<lparr>mx_lock := (mx_lock x)\<lparr>locked := v\<rparr>\<rparr>))"

text \<open>One \<open>while(xchg(&lk->locked, 1) != 0);\<close> on a mutex.\<close>

definition spin_xchg :: "nat \<Rightarrow> nat \<Rightarrow> (unit, 'z procst_scheme) kmon" where
  "spin_xchg p m =
     bnd (get_mutex p m) (\<lambda>x.
       let (old, new) = xchg (locked (mx_lock x)) 1
       in if old \<noteq> 0 then (\<lambda>s. Spn) else set_locked p m new)"

section \<open>Mutexes\<close>

definition mutex_free :: "kthread_mutex \<Rightarrow> bool" where
  "mutex_free x \<longleftrightarrow> lk_id (mx_lock x) = -1"

definition init_mutex :: "nat \<Rightarrow> kthread_mutex \<Rightarrow> kthread_mutex" where
  "init_mutex i x =
     x\<lparr>mx_lock := initlock (LkPtr (int i + 1)) ((mx_lock x)\<lparr>lk_id := of_nat i + 1\<rparr>),
       lockingthread := 0\<rparr>"

definition mutex_init :: "(int, 'z procst_scheme) kmon" where
  "mutex_init =
     thn (acquire Lptable)
     (bnd myproc (\<lambda>p. bnd (getp p) (\<lambda>q.
       case find_idx mutex_free (take NMUTX (p_mutexlist q)) of
         Some i \<Rightarrow> thn (updp p (upd_mutex i (init_mutex i)))
                   (thn (release Lptable) (ret (int i + 1)))
       | None \<Rightarrow> thn (release Lptable) (ret (-1)))))"

definition destroy_mutex :: "kthread_mutex \<Rightarrow> kthread_mutex" where
  "destroy_mutex x =
     x\<lparr>mx_lock := initlock (LkPtr (-1)) ((mx_lock x)\<lparr>lk_id := -1\<rparr>), lockingthread := -1\<rparr>"

text \<open>The range check of a mutex number and the index it stands for.\<close>

definition in_range :: "nat \<Rightarrow> int \<Rightarrow> bool" where
  "in_range n k \<longleftrightarrow> 0 < k \<and> k \<le> int n"

definition mutex_destroy :: "int \<Rightarrow> (int, 'z procst_scheme) kmon" where
  "mutex_destroy mutex =
     thn (acquire Lptable)
     (bnd myproc (\<lambda>p.
      bnd (if in_range NMUTX mutex
           then bnd (get_mutex p (nat (mutex - 1))) (\<lambda>x. ret (lk_id (mx_lock x) = of_int mutex))
           else ret False) (\<lambda>ok.
      if ok then thn (updp p (upd_mutex (nat (mutex - 1)) destroy_mutex))
                 (thn (release Lptable) (ret mutex))
      else thn (release Lptable) (ret (-1)))))"

text \<open>
  The guard that \<open>mutex_lock\<close> and \<open>mutex_unlock\<close> share: a thread, a number in range,
  and an initialised mutex of the parent. The value is the parent's index.
\<close>

definition mutex_guard :: "int \<Rightarrow> (nat option, 'z procst_scheme) kmon" where
  "mutex_guard mutex =
     bnd myproc (\<lambda>p. bnd (getp p) (\<lambda>q.
       if p_type q \<noteq> 0 \<and> in_range NMUTX mutex
       then bnd (deref (p_parent q)) (\<lambda>pa.
            bnd (get_mutex pa (nat (mutex - 1))) (\<lambda>x.
            ret (if lk_id (mx_lock x) = of_int mutex then Some pa else None)))
       else ret None))"

definition mutex_lock :: "int \<Rightarrow> (int, 'z procst_scheme) kmon" where
  "mutex_lock mutex =
     bnd (mutex_guard mutex) (\<lambda>g. case g of
       None \<Rightarrow> ret (-1)
     | Some pa \<Rightarrow>
         bnd (get_mutex pa (nat (mutex - 1))) (\<lambda>x.
         if locked (mx_lock x) \<noteq> 0 then (\<lambda>s. Spn)
         else thn (acquire Lptable)
             (thn (spin_xchg pa (nat (mutex - 1)))
             (thn (updp pa (upd_mutex (nat (mutex - 1)) (\<lambda>y. y\<lparr>lockingthread := mutex\<rparr>)))
             (thn (release Lptable)
             (ret mutex))))))"

definition mutex_unlock :: "int \<Rightarrow> (int, 'z procst_scheme) kmon" where
  "mutex_unlock mutex =
     bnd (mutex_guard mutex) (\<lambda>g. case g of
       None \<Rightarrow> ret (-1)
     | Some pa \<Rightarrow>
         thn (acquire Lptable)
         (thn (set_locked pa (nat (mutex - 1)) 0)
         (thn (updp pa (upd_mutex (nat (mutex - 1)) (\<lambda>y. y\<lparr>lockingthread := 0\<rparr>)))
         (thn (release Lptable)
         (ret mutex)))))"

section \<open>Condition variables\<close>

definition condvar_free :: "kthread_condvar \<Rightarrow> bool" where
  "condvar_free c \<longleftrightarrow> cv_id c = -1"

definition condvar_init :: "(int, 'z procst_scheme) kmon" where
  "condvar_init =
     thn (acquire Lptable)
     (bnd myproc (\<lambda>p. bnd (getp p) (\<lambda>q.
       case find_idx condvar_free (take NCONDVAR (p_condvarlist q)) of
         Some i \<Rightarrow>
           thn (updp p (upd_condvar i (\<lambda>c. c\<lparr>cv_id := int i + 1,
                  waitingthreadlist := replicate MAXTHRDS 0\<rparr>)))
           (thn (release Lptable) (ret (int i + 1)))
       | None \<Rightarrow> thn (release Lptable) (ret (-1)))))"

definition condvar_destroy :: "int \<Rightarrow> (int, 'z procst_scheme) kmon" where
  "condvar_destroy condvar =
     thn (acquire Lptable)
     (bnd myproc (\<lambda>p.
      bnd (if in_range NCONDVAR condvar
           then bnd (get_condvar p (nat (condvar - 1))) (\<lambda>c. ret (cv_id c = condvar))
           else ret False) (\<lambda>ok.
      if ok then thn (updp p (upd_condvar (nat (condvar - 1)) (\<lambda>c. c\<lparr>cv_id := -1,
                       waitingthreadlist := replicate MAXTHRDS (-1)\<rparr>)))
                 (thn (release Lptable) (ret condvar))
      else thn (release Lptable) (ret (-1)))))"

text \<open>
  \<open>modified_sleep\<close> takes the address of mutex \<open>m\<close> of process \<open>pa\<close> and drops it by
  writing its word, whoever holds it.
\<close>

definition modified_sleep :: "chan \<Rightarrow> nat \<Rightarrow> nat \<Rightarrow> (unit, 'z procst_scheme) kmon" where
  "modified_sleep ch pa m s =
     (if cpu_proc (the_cpu s) = None then Pnc ''sleep''
      else
        thn (acquire Lptable)
        (bnd (get_mutex pa m) (\<lambda>x.
         thn (set_locked pa m (snd (xchg (locked (mx_lock x)) 0)))
         (bnd myproc (\<lambda>p.
          thn (updp p (\<lambda>q. q\<lparr>p_chan := ch, p_state := SLEEPING\<rparr>)) sched)))) s)"

definition modified_sleep_return :: "bool \<Rightarrow> nat \<Rightarrow> nat \<Rightarrow> (unit, 'z procst_scheme) kmon" where
  "modified_sleep_return b pa m =
     thn (sched_return b)
     (bnd myproc (\<lambda>p.
      thn (updp p (\<lambda>q. q\<lparr>p_chan := ChNull\<rparr>))
      (thn (release Lptable) (spin_xchg pa m))))"

text \<open>
  \<open>condvar_wait\<close> up to the switch; \<open>condvar_wait_return\<close> is the rest of it, after the
  thread has been woken. The guard is the code's: it bounds \<open>condvar\<close> twice and
  \<open>mutex\<close> only from below.
\<close>

definition condvar_wait :: "int \<Rightarrow> int \<Rightarrow> (int, 'z procst_scheme) kmon" where
  "condvar_wait condvar mutex =
     (if 0 < condvar \<and> condvar \<le> int NMUTX \<and> 0 < mutex \<and> condvar \<le> int NCONDVAR
      then bnd myproc (\<lambda>p. bnd (getp p) (\<lambda>q.
           bnd (deref (p_parent q)) (\<lambda>pa.
           bnd (get_condvar pa (nat (condvar - 1))) (\<lambda>c.
           case find_idx (\<lambda>w. w = 0) (take MAXTHRDS (waitingthreadlist c)) of
             None \<Rightarrow> ret (-1)
           | Some i \<Rightarrow>
               thn (acquire Lptable)
               (thn (updp pa (set_waiting (nat (condvar - 1)) i (p_pid q)))
               (thn (release Lptable)
               (thn (modified_sleep (chan_of_pid (p_pid q)) pa (nat (mutex - 1)))
               (ret 0))))))))
      else ret (-1))"

definition condvar_wait_return :: "bool \<Rightarrow> nat \<Rightarrow> int \<Rightarrow> (int, 'z procst_scheme) kmon" where
  "condvar_wait_return b pa mutex =
     thn (modified_sleep_return b pa (nat (mutex - 1))) (ret 0)"

text \<open>The process whose condition variables a caller signals: a thread uses its parent's.\<close>

definition cv_owner :: "(nat, 'z procst_scheme) kmon" where
  "cv_owner = bnd myproc (\<lambda>p. bnd (getp p) (\<lambda>q. if p_type q \<noteq> 0 then deref (p_parent q) else ret p))"

text \<open>Wake the thread in slot \<open>i\<close> and clear the slot.\<close>

definition wake_slot :: "nat \<Rightarrow> nat \<Rightarrow> nat \<Rightarrow> int \<Rightarrow> (unit, 'z procst_scheme) kmon" where
  "wake_slot pa c i w =
     thn (wakeup (chan_of_pid w))
     (thn (acquire Lptable)
     (thn (updp pa (set_waiting c i 0))
     (release Lptable)))"

definition condvar_signal :: "int \<Rightarrow> (int, 'z procst_scheme) kmon" where
  "condvar_signal condvar =
     (if condvar < 1 \<or> condvar > int NCONDVAR then ret (-1)
      else bnd cv_owner (\<lambda>pa.
           bnd (get_condvar pa (nat (condvar - 1))) (\<lambda>c.
           case find_idx (\<lambda>w. w > 0) (take MAXTHRDS (waitingthreadlist c)) of
             None \<Rightarrow> ret 0
           | Some i \<Rightarrow> thn (wake_slot pa (nat (condvar - 1)) i (waitingthreadlist c ! i)) (ret 0))))"

definition condvar_broadcast :: "int \<Rightarrow> (int, 'z procst_scheme) kmon" where
  "condvar_broadcast condvar =
     (if condvar < 1 \<or> condvar > int NCONDVAR then ret (-1)
      else thn (forM [0..<MAXTHRDS] (\<lambda>i.
             bnd cv_owner (\<lambda>pa.
             bnd (get_condvar pa (nat (condvar - 1))) (\<lambda>c.
             let w = waitingthreadlist c ! i in
             if w > 0 then wake_slot pa (nat (condvar - 1)) i w else skip))))
           (ret 0))"

section \<open>Well-formed processes\<close>

text \<open>The arrays of a process have their declared lengths.\<close>

definition wf_proc :: "proc \<Rightarrow> bool" where
  "wf_proc q \<longleftrightarrow> length (p_mutexlist q) = NMUTX \<and> length (p_condvarlist q) = NCONDVAR \<and>
     (\<forall>c \<in> set (p_condvarlist q). length (waitingthreadlist c) = MAXTHRDS) \<and>
     length (p_ofile q) = NOFILE \<and> length (p_name q) = 16"

definition wf_ptable :: "proc list \<Rightarrow> bool" where
  "wf_ptable ps \<longleftrightarrow> (\<forall>q \<in> set ps. wf_proc q)"

lemma wf_ptableD: "wf_ptable ps \<Longrightarrow> i < length ps \<Longrightarrow> wf_proc (ps ! i)"
  by (simp add: wf_ptable_def)

lemma wf_ptable_update:
  "wf_ptable ps \<Longrightarrow> (i < length ps \<Longrightarrow> wf_proc q) \<Longrightarrow> wf_ptable (ps[i := q])"
  unfolding wf_ptable_def all_set_conv_all_nth
  by (cases "i < length ps") (auto simp: nth_list_update)

lemma length_upd_mutex [simp]: "length (p_mutexlist (upd_mutex m f q)) = length (p_mutexlist q)"
  by (simp add: upd_mutex_def)

lemma nth_upd_mutex [simp]:
  "m < length (p_mutexlist q) \<Longrightarrow> p_mutexlist (upd_mutex m f q) ! i =
     (if i = m then f (p_mutexlist q ! m) else p_mutexlist q ! i)"
  by (simp add: upd_mutex_def)

lemma upd_mutex_fields [simp]:
  "p_type (upd_mutex m f q) = p_type q" "p_parent (upd_mutex m f q) = p_parent q"
  "p_pid (upd_mutex m f q) = p_pid q" "p_state (upd_mutex m f q) = p_state q"
  "p_condvarlist (upd_mutex m f q) = p_condvarlist q" "p_ofile (upd_mutex m f q) = p_ofile q"
  "p_name (upd_mutex m f q) = p_name q" "p_chan (upd_mutex m f q) = p_chan q"
  by (simp_all add: upd_mutex_def)

lemma upd_mutex_upd_mutex [simp]: "m < length (p_mutexlist q) \<Longrightarrow>
    upd_mutex m f (upd_mutex m g q) = upd_mutex m (\<lambda>x. f (g x)) q"
  by (simp add: upd_mutex_def)

lemma wf_upd_mutex [simp]: "wf_proc (upd_mutex m f q) = wf_proc q"
  by (simp add: wf_proc_def)

section \<open>Mutexes: properties\<close>

lemma get_mutex_Ret [simp]:
  "p < length (ptable s) \<Longrightarrow> m < length (p_mutexlist (ptable s ! p)) \<Longrightarrow>
   get_mutex p m s = Ret (p_mutexlist (ptable s ! p) ! m) s"
  by (simp add: get_mutex_def mon_defs)

text \<open>
  C32. \<open>mutex_init\<close> hands out the least free mutex of the process: the number returned is the
  first whose slot was free, the slot is then an unlocked mutex with that number, every other
  mutex and process is untouched, and the result is -1 with nothing changed when all are in use.
\<close>

theorem mutex_init_least_free:
  assumes "runs p s" and "wf_ptable (ptable s)"
  shows "\<exists>r t. mutex_init s = Ret r t \<and> runs p t \<and> wf_ptable (ptable t) \<and>
    (r = -1 \<and> ptable t = ptable s \<and> (\<forall>x \<in> set (p_mutexlist (ptable s ! p)). \<not> mutex_free x) \<or>
     (\<exists>i < NMUTX. r = int i + 1 \<and> mutex_free (p_mutexlist (ptable s ! p) ! i) \<and>
        (\<forall>j < i. \<not> mutex_free (p_mutexlist (ptable s ! p) ! j)) \<and>
        lk_id (mx_lock (p_mutexlist (ptable t ! p) ! i)) = of_int r \<and>
        locked (mx_lock (p_mutexlist (ptable t ! p) ! i)) = 0 \<and>
        (\<forall>j. j \<noteq> i \<longrightarrow> p_mutexlist (ptable t ! p) ! j = p_mutexlist (ptable s ! p) ! j) \<and>
        (\<forall>q. q \<noteq> p \<longrightarrow> ptable t ! q = ptable s ! q)))"
proof -
  let ?q = "ptable s ! p" and ?u = "rel Lptable (acq Lptable s)"
  note runsD[OF assms(1)]
  note wf = wf_ptableD[OF assms(2) this(2)]
  then have len: "length (p_mutexlist ?q) = NMUTX" by (simp add: wf_proc_def)
  have "runs p ?u" using assms(1) by (simp add: runs_def)
  show ?thesis
  proof (cases "find_idx mutex_free (p_mutexlist ?q)")
    case None
    then have "mutex_init s = Ret (-1) ?u"
      using assms(1) len by (simp add: runs_def mutex_init_def mon_defs acquire_free release_held)
    moreover have "\<forall>x \<in> set (p_mutexlist ?q). \<not> mutex_free x"
      using None by (simp add: find_idx_None_iff)
    ultimately show ?thesis using \<open>runs p ?u\<close> assms(2) by (intro exI[of _ "-1"] exI[of _ ?u]) auto
  next
    case (Some i)
    from find_idx_SomeD[OF this] len have i: "i < NMUTX" "mutex_free (p_mutexlist ?q ! i)"
      "\<forall>j < i. \<not> mutex_free (p_mutexlist ?q ! j)" by auto
    let ?t = "?u\<lparr>ptable := (ptable s)[p := upd_mutex i (init_mutex i) ?q]\<rparr>"
    have "mutex_init s = Ret (int i + 1) ?t"
      using assms(1) len Some
      by (simp add: runs_def mutex_init_def mon_defs acquire_free release_held)
    moreover have "runs p ?t" using \<open>runs p ?u\<close> by (simp add: runs_def)
    moreover have "wf_ptable (ptable ?t)" using wf assms(2) by (simp add: wf_ptable_update)
    moreover have "p_mutexlist (ptable ?t ! p) ! j = (if j = i then init_mutex i (p_mutexlist ?q ! i)
        else p_mutexlist ?q ! j)" for j
      using runsD(2)[OF assms(1)] i(1) len by simp
    ultimately show ?thesis using i
      by (intro exI[of _ "int i + 1"] exI[of _ ?t]) (auto simp: init_mutex_def initlock_def)
  qed
qed

definition may_use :: "nat \<Rightarrow> nat \<Rightarrow> int \<Rightarrow> 'z procst_scheme \<Rightarrow> bool" where
  "may_use p pa mutex s \<longleftrightarrow> p_type (ptable s ! p) \<noteq> 0 \<and> p_parent (ptable s ! p) = Some pa \<and>
     pa < length (ptable s) \<and> in_range NMUTX mutex \<and>
     lk_id (mx_lock (p_mutexlist (ptable s ! pa) ! nat (mutex - 1))) = of_int mutex"

text \<open>The \<open>locked\<close> word of a mutex number.\<close>

definition mword :: "nat \<Rightarrow> int \<Rightarrow> 'z procst_scheme \<Rightarrow> u32" where
  "mword pa mutex s = locked (mx_lock (p_mutexlist (ptable s ! pa) ! nat (mutex - 1)))"

lemma mutex_guard_use:
  "runs p s \<Longrightarrow> wf_ptable (ptable s) \<Longrightarrow> may_use p pa mutex s \<Longrightarrow> mutex_guard mutex s = Ret (Some pa) s"
  using wf_ptableD[of "ptable s" pa]
  by (auto simp: runs_def may_use_def mutex_guard_def mon_defs deref_def in_range_def wf_proc_def)

definition set_mutex :: "nat \<Rightarrow> int \<Rightarrow> u32 \<Rightarrow> int \<Rightarrow> proc list \<Rightarrow> proc list" where
  "set_mutex pa mutex v o' ps = ps[pa := upd_mutex (nat (mutex - 1))
     (\<lambda>x. x\<lparr>mx_lock := (mx_lock x)\<lparr>locked := v\<rparr>, lockingthread := o'\<rparr>) (ps ! pa)]"

lemma mutex_lock_free:
  assumes "runs p s" "wf_ptable (ptable s)" "may_use p pa mutex s" "mword pa mutex s = 0"
  shows "mutex_lock mutex s = Ret mutex
    ((rel Lptable (acq Lptable s))\<lparr>ptable := set_mutex pa mutex 1 mutex (ptable s)\<rparr>)"
  using assms mutex_guard_use[OF assms(1-3)] wf_ptableD[OF assms(2), of pa]
  by (auto simp: runs_def may_use_def mword_def mutex_lock_def mon_defs spin_xchg_def xchg_def
      acquire_free release_held set_locked_def set_mutex_def in_range_def wf_proc_def)

lemma mutex_lock_taken:
  assumes "runs p s" "wf_ptable (ptable s)" "may_use p pa mutex s" "mword pa mutex s \<noteq> 0"
  shows "mutex_lock mutex s = Spn"
  using assms mutex_guard_use[OF assms(1-3)] wf_ptableD[OF assms(2), of pa]
  by (auto simp: runs_def may_use_def mword_def mutex_lock_def mon_defs in_range_def wf_proc_def)

lemma mutex_unlock_use:
  assumes "runs p s" "wf_ptable (ptable s)" "may_use p pa mutex s"
  shows "mutex_unlock mutex s = Ret mutex
    ((rel Lptable (acq Lptable s))\<lparr>ptable := set_mutex pa mutex 0 0 (ptable s)\<rparr>)"
  using assms mutex_guard_use[OF assms(1-3)] wf_ptableD[OF assms(2), of pa]
  by (auto simp: runs_def may_use_def mutex_unlock_def mon_defs acquire_free release_held
      set_locked_def set_mutex_def in_range_def wf_proc_def)

lemma set_mutex_type: "p_type (set_mutex pa mutex v w ps ! q) = p_type (ps ! q)"
  by (cases "pa < length ps"; cases "q = pa"; simp add: set_mutex_def list_update_beyond)

lemma set_mutex_parent: "p_parent (set_mutex pa mutex v w ps ! q) = p_parent (ps ! q)"
  by (cases "pa < length ps"; cases "q = pa"; simp add: set_mutex_def list_update_beyond)

lemma set_mutex_length: "length (set_mutex pa mutex v w ps) = length ps"
  by (simp add: set_mutex_def)

lemmas set_mutex_same = set_mutex_type set_mutex_parent set_mutex_length

lemma set_mutex_at:
  assumes "wf_ptable ps" "pa < length ps" "in_range NMUTX mutex"
  shows "wf_ptable (set_mutex pa mutex v w ps)"
    "p_mutexlist (set_mutex pa mutex v w ps ! pa) ! nat (mutex - 1) =
       (let x = p_mutexlist (ps ! pa) ! nat (mutex - 1)
        in x\<lparr>mx_lock := (mx_lock x)\<lparr>locked := v\<rparr>, lockingthread := w\<rparr>)"
    "set_mutex pa mutex v w (set_mutex pa mutex v' w' ps) = set_mutex pa mutex v w ps"
proof -
  have m: "nat (mutex - 1) < length (p_mutexlist (ps ! pa))" and wf: "wf_proc (ps ! pa)"
    using assms wf_ptableD[OF assms(1,2)] by (auto simp: in_range_def wf_proc_def)
  from wf show "wf_ptable (set_mutex pa mutex v w ps)"
    using assms by (simp add: set_mutex_def wf_ptable_update)
  from m show "p_mutexlist (set_mutex pa mutex v w ps ! pa) ! nat (mutex - 1) =
       (let x = p_mutexlist (ps ! pa) ! nat (mutex - 1)
        in x\<lparr>mx_lock := (mx_lock x)\<lparr>locked := v\<rparr>, lockingthread := w\<rparr>)"
    using assms(2) by (simp add: set_mutex_def Let_def)
  from m show "set_mutex pa mutex v w (set_mutex pa mutex v' w' ps) = set_mutex pa mutex v w ps"
    using assms(2) by (simp add: set_mutex_def)
qed

text \<open>
  An example: a process whose mutex 1 is initialised, with two threads that run on CPUs 0 and 1.
\<close>

definition free_mutex :: kthread_mutex where
  "free_mutex = destroy_mutex mutex_boot"

definition thread_ex :: "int \<Rightarrow> proc" where
  "thread_ex n = proc_boot\<lparr>p_state := RUNNING, p_pid := n, p_type := 1, p_parent := Some 0,
     p_mutexlist := replicate NMUTX free_mutex\<rparr>"

definition parent_ex :: proc where
  "parent_ex = proc_boot\<lparr>p_state := RUNNABLE, p_pid := 1,
     p_mutexlist := init_mutex 0 free_mutex # replicate (NMUTX - 1) free_mutex\<rparr>"

definition kmutex_ex :: procst where
  "kmutex_ex = lockst.extend (lockst_boot\<lparr>cpus := (\<lambda>_. cpu_boot)
       (0 := cpu_boot\<lparr>cpu_proc := Some 1\<rparr>, 1 := cpu_boot\<lparr>cpu_proc := Some 2\<rparr>)\<rparr>)
     (procst.fields [parent_ex, thread_ex 2, thread_ex 3] 4 (Some 0) 0x80300000)"

lemma wf_ex: "wf_proc parent_ex" "wf_proc (thread_ex n)"
  by (simp_all add: parent_ex_def thread_ex_def wf_proc_def proc_boot_def condvar_boot_def)

lemma thread_ex_simps [simp]:
  "p_type (thread_ex n) = 1" "p_parent (thread_ex n) = Some 0" "p_pid (thread_ex n) = n"
  "p_mutexlist (thread_ex n) = replicate NMUTX free_mutex"
  "p_mutexlist parent_ex = init_mutex 0 free_mutex # replicate (NMUTX - 1) free_mutex"
  "lk_id (mx_lock (init_mutex 0 free_mutex)) = 1" "locked (mx_lock (init_mutex 0 free_mutex)) = 0"
  "mutex_free free_mutex" "p_type parent_ex = 0"
  by (simp_all add: thread_ex_def parent_ex_def init_mutex_def initlock_def free_mutex_def
      destroy_mutex_def mutex_free_def proc_boot_def)

lemma kmutex_ex_simps [simp]:
  "ptable kmutex_ex = [parent_ex, thread_ex 2, thread_ex 3]" "mycpu kmutex_ex = 0"
  "locks kmutex_ex l = spinlock_boot" "cpus kmutex_ex 0 = cpu_boot\<lparr>cpu_proc := Some 1\<rparr>"
  "cpus kmutex_ex (Suc 0) = cpu_boot\<lparr>cpu_proc := Some 2\<rparr>"
  "1 < c \<Longrightarrow> cpus kmutex_ex c = cpu_boot"
  by (simp_all add: kmutex_ex_def lockst.defs procst.defs lockst_boot_def)

lemma kmutex_ex_ok:
  "runs 1 kmutex_ex" "wf_ptable (ptable kmutex_ex)" "may_use 1 0 1 kmutex_ex" "mword 0 1 kmutex_ex = 0"
  by (simp_all add: runs_def lk_defs boot_defs wf_ptable_def wf_ex may_use_def mword_def in_range_def)

theorem mutex_init_least_free_witness:
  "runs 1 kmutex_ex \<and> (\<exists>t. mutex_init kmutex_ex = Ret 1 t)"
proof -
  obtain r t where t: "mutex_init kmutex_ex = Ret r t" and
    d: "(\<forall>x \<in> set (p_mutexlist (ptable kmutex_ex ! 1)). \<not> mutex_free x) \<or>
     (\<exists>i < NMUTX. r = int i + 1 \<and> (\<forall>j < i. \<not> mutex_free (p_mutexlist (ptable kmutex_ex ! 1) ! j)))"
    using mutex_init_least_free[OF kmutex_ex_ok(1,2)] by blast
  have free: "mutex_free (p_mutexlist (ptable kmutex_ex ! 1) ! 0)"
    "p_mutexlist (ptable kmutex_ex ! 1) ! 0 \<in> set (p_mutexlist (ptable kmutex_ex ! 1))" by simp_all
  with d obtain i where "r = int i + 1" "\<forall>j < i. \<not> mutex_free (p_mutexlist (ptable kmutex_ex ! 1) ! j)"
    by blast
  with free(1) have "r = 1" by (cases i) (auto simp del: kmutex_ex_simps)
  with t show ?thesis using kmutex_ex_ok(1) by simp
qed

text \<open>
  C27. Locking and unlocking through the system calls: a thread whose parent's mutex is
  initialised and unlocked gets it, a second \<open>mutex_lock\<close> spins while it is locked, and
  \<open>mutex_unlock\<close> makes it free again; nothing else in the table changes.
\<close>

theorem mutex_lock_unlock:
  assumes "runs p s" and "wf_ptable (ptable s)" and "may_use p pa mutex s" and "mword pa mutex s = 0"
  shows "\<exists>t u. mutex_lock mutex s = Ret mutex t \<and> mword pa mutex t = 1 \<and> runs p t \<and>
    mutex_lock mutex t = Spn \<and> mutex_unlock mutex t = Ret mutex u \<and> mword pa mutex u = 0 \<and>
    runs p u \<and> ptable u = set_mutex pa mutex 0 0 (ptable s)"
proof -
  let ?t = "(rel Lptable (acq Lptable s))\<lparr>ptable := set_mutex pa mutex 1 mutex (ptable s)\<rparr>"
  have pa: "pa < length (ptable s)" "in_range NMUTX mutex" using assms(3) by (auto simp: may_use_def)
  note props = set_mutex_at[OF assms(2) pa] set_mutex_same
  have t: "runs p ?t" "wf_ptable (ptable ?t)" "may_use p pa mutex ?t" "mword pa mutex ?t = 1"
    using assms props by (simp_all add: runs_def may_use_def mword_def Let_def)
  show ?thesis
    using mutex_lock_free[OF assms] t mutex_lock_taken[OF t(1-3)] mutex_unlock_use[OF t(1-3)]
      assms(1) props
    by (auto simp: mword_def runs_def Let_def)
qed

theorem mutex_lock_unlock_witness:
  "mword 0 1 kmutex_ex = 0 \<and> (\<exists>t u. mutex_lock 1 kmutex_ex = Ret 1 t \<and> mutex_lock 1 t = Spn \<and>
     mutex_unlock 1 t = Ret 1 u)"
  using mutex_lock_unlock[OF kmutex_ex_ok] kmutex_ex_ok(4) by blast

text \<open>
  C40. \<open>mutex_lock\<close> and \<open>mutex_unlock\<close> refuse what they cannot use: a caller that is not a
  thread, a number outside 1..NMUTX or a mutex that was never initialised gives -1 and leaves
  the state as it was.
\<close>

theorem mutex_use_refused:
  assumes "runs p s" and "wf_ptable (ptable s)"
    and "p_type (ptable s ! p) \<noteq> 0 \<Longrightarrow> p_parent (ptable s ! p) = Some pa \<and> pa < length (ptable s)"
    and "\<not> may_use p pa mutex s"
  shows "mutex_lock mutex s = Ret (-1) s \<and> mutex_unlock mutex s = Ret (-1) s"
proof -
  have "mutex_guard mutex s = Ret None s"
    using assms wf_ptableD[OF assms(2), of pa]
    by (auto simp: runs_def may_use_def mutex_guard_def mon_defs deref_def in_range_def wf_proc_def)
  then show ?thesis by (simp add: mutex_lock_def mutex_unlock_def mon_defs)
qed

theorem mutex_use_refused_witness:
  "\<not> may_use 1 0 2 kmutex_ex \<and> mutex_lock 2 kmutex_ex = Ret (-1) kmutex_ex"
proof -
  have n: "\<not> may_use 1 0 2 kmutex_ex"
    by (simp add: may_use_def free_mutex_def destroy_mutex_def initlock_def)
  then show ?thesis using mutex_use_refused[OF kmutex_ex_ok(1,2) _ n] by simp
qed

text \<open>
  C33. \<open>mutex_unlock\<close> does not check who locked the mutex: any thread of the process unlocks
  it, whatever \<open>lockingthread\<close> says, and the next \<open>mutex_lock\<close> of the caller succeeds.
\<close>

theorem mutex_unlock_by_any_thread:
  assumes "runs p s" and "wf_ptable (ptable s)" and "may_use p pa mutex s" and "mword pa mutex s = 1"
  shows "\<exists>t u. mutex_unlock mutex s = Ret mutex t \<and> mword pa mutex t = 0 \<and> mutex_lock mutex t = Ret mutex u"
proof -
  let ?t = "(rel Lptable (acq Lptable s))\<lparr>ptable := set_mutex pa mutex 0 0 (ptable s)\<rparr>"
  have pa: "pa < length (ptable s)" "in_range NMUTX mutex" using assms(3) by (auto simp: may_use_def)
  note props = set_mutex_at[OF assms(2) pa] set_mutex_same
  have t: "runs p ?t" "wf_ptable (ptable ?t)" "may_use p pa mutex ?t" "mword pa mutex ?t = 0"
    using assms props by (simp_all add: runs_def may_use_def mword_def Let_def)
  show ?thesis using mutex_unlock_use[OF assms(1-3)] mutex_lock_free[OF t] t(4) by auto
qed

theorem mutex_unlock_by_any_thread_witness:
  "\<exists>s :: procst. mword 0 1 s = 1 \<and> (\<exists>t u. mutex_unlock 1 s = Ret 1 t \<and> mutex_lock 1 t = Ret 1 u)"
proof -
  let ?s = "kmutex_ex\<lparr>ptable := set_mutex 0 1 1 1 (ptable kmutex_ex)\<rparr>"
  have pa: "0 < length (ptable kmutex_ex)" "in_range NMUTX 1" by (simp_all add: in_range_def)
  note props = set_mutex_at[OF kmutex_ex_ok(2) pa] set_mutex_same
  have "runs 1 ?s" "wf_ptable (ptable ?s)" "may_use 1 0 1 ?s" "mword 0 1 ?s = 1"
    using kmutex_ex_ok props by (simp_all add: runs_def may_use_def mword_def Let_def)
  from mutex_unlock_by_any_thread[OF this] this(4) show ?thesis by blast
qed

end
