(* ===== verification/Kmutex.thy ===== *)
theory Kmutex
  imports Kthread
begin

text \<open>
  The mutex calls under concurrency. Every CPU runs one thread of the process \<open>pa\<close>, and the
  threads interleave at the atomic accesses of \<open>mutex_lock\<close> and \<open>mutex_unlock\<close>: the read of
  the spin loop, the exchange that takes \<open>ptable.lock\<close>, the exchange on the mutex and the
  releases. A step runs the operation of the kernel model on the CPU that moves.
\<close>

section \<open>Steps\<close>

text \<open>
  The program points of a thread: outside, at the spin loop of line 754, before and after the
  \<open>acquire\<close> of line 755, after the exchange of line 756, in its critical section, and the three
  points of \<open>mutex_unlock\<close>.
\<close>

datatype mpc = Idle | Spin | WantPt | Xchg | Got | Crit | UWant | UClr | URel

record msys =
  kst :: procst
  mpcs :: "nat \<Rightarrow> mpc"

definition on_cpu :: "nat \<Rightarrow> 'z lockst_scheme \<Rightarrow> 'z lockst_scheme" where
  "on_cpu c s = s\<lparr>mycpu := c\<rparr>"

definition goto :: "nat \<Rightarrow> mpc \<Rightarrow> procst \<Rightarrow> msys \<Rightarrow> msys" where
  "goto c l t S = S\<lparr>kst := t, mpcs := (mpcs S)(c := l)\<rparr>"

definition set_owner :: "nat \<Rightarrow> int \<Rightarrow> int \<Rightarrow> (unit, 'z procst_scheme) kmon" where
  "set_owner pa m w = updp pa (upd_mutex (nat (m - 1)) (\<lambda>y. y\<lparr>lockingthread := w\<rparr>))"

inductive mstep :: "nat \<Rightarrow> int \<Rightarrow> msys \<Rightarrow> msys \<Rightarrow> bool" for pa :: nat and m :: int where
  enter: "mpcs S c = Idle \<Longrightarrow> mutex_guard m (on_cpu c (kst S)) = Ret (Some pa) t \<Longrightarrow>
    mstep pa m S (goto c Spin t S)"
| seen_free: "mpcs S c = Spin \<Longrightarrow> mword pa m (kst S) = 0 \<Longrightarrow> mstep pa m S (goto c WantPt (kst S) S)"
| take_pt: "mpcs S c = WantPt \<Longrightarrow> acquire Lptable (on_cpu c (kst S)) = Ret () t \<Longrightarrow>
    mstep pa m S (goto c Xchg t S)"
| take_mx: "mpcs S c = Xchg \<Longrightarrow> spin_xchg pa (nat (m - 1)) (on_cpu c (kst S)) = Ret () t \<Longrightarrow>
    mstep pa m S (goto c Got t S)"
| drop_pt: "mpcs S c = Got \<Longrightarrow> thn (set_owner pa m m) (release Lptable) (on_cpu c (kst S)) = Ret () t \<Longrightarrow>
    mstep pa m S (goto c Crit t S)"
| leave: "mpcs S c = Crit \<Longrightarrow> mutex_guard m (on_cpu c (kst S)) = Ret (Some pa) t \<Longrightarrow>
    mstep pa m S (goto c UWant t S)"
| utake_pt: "mpcs S c = UWant \<Longrightarrow> acquire Lptable (on_cpu c (kst S)) = Ret () t \<Longrightarrow>
    mstep pa m S (goto c UClr t S)"
| uclear: "mpcs S c = UClr \<Longrightarrow>
    thn (set_locked pa (nat (m - 1)) 0) (set_owner pa m 0) (on_cpu c (kst S)) = Ret () t \<Longrightarrow>
    mstep pa m S (goto c URel t S)"
| udrop_pt: "mpcs S c = URel \<Longrightarrow> release Lptable (on_cpu c (kst S)) = Ret () t \<Longrightarrow>
    mstep pa m S (goto c Idle t S)"

inductive mreach :: "nat \<Rightarrow> int \<Rightarrow> procst \<Rightarrow> msys \<Rightarrow> bool" for pa :: nat and m :: int and s0 :: procst where
  start: "mreach pa m s0 \<lparr>kst = s0, mpcs = (\<lambda>_. Idle)\<rparr>"
| step: "mreach pa m s0 S \<Longrightarrow> mstep pa m S T \<Longrightarrow> mreach pa m s0 T"

section \<open>What the operations do to the two lock words\<close>

lemma acquire_RetD: "acquire l s = Ret a t \<Longrightarrow> lk_free l s \<and> t = acq l s"
  using acquire_free[of l s] acquire_holding[of l s] acquire_other[of s l]
  by (cases "locked (locks s l) = 0"; cases "lk_cpu (locks s l) = Some (mycpu s)")
    (auto simp: lk_free_def holding_def)

lemma release_RetD:
  "release l s = Ret a t \<Longrightarrow> holding l s \<and> lk_free l t \<and> lockst.more t = lockst.more s \<and>
     (\<forall>l'. l' \<noteq> l \<longrightarrow> locks t l' = locks s l')"
  by (auto simp: release_def popcli_def cpu_defs Let_def lk_free_def xchg_def split: if_splits)

definition at_pt :: "mpc \<Rightarrow> bool" where
  "at_pt l \<longleftrightarrow> l \<in> {Xchg, Got, UClr, URel}"

definition at_mx :: "mpc \<Rightarrow> bool" where
  "at_mx l \<longleftrightarrow> l \<in> {Got, Crit, UWant, UClr}"

lemma at_simps [simp]:
  "at_pt Xchg" "at_pt Got" "at_pt UClr" "at_pt URel"
  "\<not> at_pt Idle" "\<not> at_pt Spin" "\<not> at_pt WantPt" "\<not> at_pt Crit" "\<not> at_pt UWant"
  "at_mx Got" "at_mx Crit" "at_mx UWant" "at_mx UClr"
  "\<not> at_mx Idle" "\<not> at_mx Spin" "\<not> at_mx WantPt" "\<not> at_mx Xchg" "\<not> at_mx URel"
  by (simp_all add: at_pt_def at_mx_def)

text \<open>
  The invariant: the holder of \<open>ptable.lock\<close> is the thread between the exchange that took
  it and its release; the mutex word is set exactly while some thread is between its exchange
  and the clearing in \<open>mutex_unlock\<close>, and there is only one such thread.
\<close>

definition pt_holder :: "procst \<Rightarrow> nat option" where
  "pt_holder s = (if locked (locks s Lptable) = 0 then None else lk_cpu (locks s Lptable))"

definition minv :: "nat \<Rightarrow> int \<Rightarrow> nat option \<Rightarrow> msys \<Rightarrow> bool" where
  "minv pa m owner S \<longleftrightarrow>
     (\<forall>c. at_pt (mpcs S c) \<longleftrightarrow> pt_holder (kst S) = Some c) \<and>
     (\<forall>c. at_mx (mpcs S c) \<longleftrightarrow> owner = Some c) \<and> (mword pa m (kst S) \<noteq> 0 \<longleftrightarrow> owner \<noteq> None) \<and>
     pa < length (ptable (kst S)) \<and> nat (m - 1) < length (p_mutexlist (ptable (kst S) ! pa))"

lemma minvD:
  "minv pa m w S \<Longrightarrow> at_pt (mpcs S c) \<longleftrightarrow> pt_holder (kst S) = Some c"
  "minv pa m w S \<Longrightarrow> at_mx (mpcs S c) \<longleftrightarrow> w = Some c"
  "minv pa m w S \<Longrightarrow> mword pa m (kst S) \<noteq> 0 \<longleftrightarrow> w \<noteq> None"
  by (simp_all add: minv_def)

lemma minv_goto:
  assumes "minv pa m w S"
    and "\<And>d. d \<noteq> c \<Longrightarrow> pt_holder t = Some d \<longleftrightarrow> pt_holder (kst S) = Some d"
    and "at_pt l \<longleftrightarrow> pt_holder t = Some c"
    and "\<And>d. d \<noteq> c \<Longrightarrow> w' = Some d \<longleftrightarrow> w = Some d" and "at_mx l \<longleftrightarrow> w' = Some c"
    and "mword pa m t \<noteq> 0 \<longleftrightarrow> w' \<noteq> None" and "length (ptable t) = length (ptable (kst S))"
    and "length (p_mutexlist (ptable t ! pa)) = length (p_mutexlist (ptable (kst S) ! pa))"
  shows "minv pa m w' (S\<lparr>kst := t, mpcs := (mpcs S)(c := l)\<rparr>)"
  using assms by (simp add: minv_def)

lemma goto_simps [simp]:
  "kst (goto c l t S) = t" "mpcs (goto c l t S) d = (if d = c then l else mpcs S d)"
  by (simp_all add: goto_def)

lemma on_cpu_simps [simp]:
  "ptable (on_cpu c s) = ptable s" "locks (on_cpu c s) = locks s" "mycpu (on_cpu c s) = c"
  "mword pa m (on_cpu c s) = mword pa m s"
  by (simp_all add: on_cpu_def mword_def)

lemma mutex_guard_same: "mutex_guard m s = Ret r t \<Longrightarrow> t = s"
  by (auto simp: mutex_guard_def bnd_Ret_iff myproc_def getp_def deref_def get_mutex_def mon_defs
      split: option.splits if_splits)

lemma set_owner_RetD:
  "set_owner pa m w s = Ret a t \<Longrightarrow> locks t = locks s \<and> mycpu t = mycpu s \<and>
     length (ptable t) = length (ptable s) \<and> pa < length (ptable s) \<and>
     length (p_mutexlist (ptable t ! pa)) = length (p_mutexlist (ptable s ! pa)) \<and>
     (nat (m - 1) < length (p_mutexlist (ptable s ! pa)) \<longrightarrow> mword pa m t = mword pa m s)"
  by (auto simp: set_owner_def updp_def mword_def split: if_splits)

lemma set_locked_RetD:
  "set_locked pa (nat (m - 1)) v s = Ret a t \<Longrightarrow> locks t = locks s \<and> mycpu t = mycpu s \<and>
     length (ptable t) = length (ptable s) \<and> pa < length (ptable s) \<and>
     length (p_mutexlist (ptable t ! pa)) = length (p_mutexlist (ptable s ! pa)) \<and>
     (nat (m - 1) < length (p_mutexlist (ptable s ! pa)) \<longrightarrow> mword pa m t = v)"
  by (auto simp: set_locked_def updp_def mword_def split: if_splits)

lemma spin_xchg_RetD:
  "spin_xchg pa (nat (m - 1)) s = Ret a t \<Longrightarrow> mword pa m s = 0 \<and>
     set_locked pa (nat (m - 1)) 1 s = Ret () t"
  by (auto simp: spin_xchg_def get_mutex_def getp_def bnd_Ret_iff xchg_def mword_def mon_defs
      split: if_splits)

lemma mword_more: "lockst.more t = lockst.more s \<Longrightarrow> mword pa m t = mword pa m (s :: procst) \<and> ptable t = ptable s"
  by (cases t; cases s) (simp add: mword_def)

lemma acq_words:
  "mword pa m (acq l s) = mword pa m s" "locked (locks (acq l s) l) = 1"
  "lk_cpu (locks (acq l s) l) = Some (mycpu s)"
  by (simp_all add: mword_def acq_def)

section \<open>Mutual exclusion\<close>

lemma pt_holder_simps [simp]:
  "pt_holder (on_cpu c s) = pt_holder s" "lk_free Lptable s \<Longrightarrow> pt_holder s = None"
  "pt_holder (acq Lptable s) = Some (mycpu s)"
  by (simp_all add: pt_holder_def lk_free_def acq_words)

lemma pt_holder_cong: "locks t = locks s \<Longrightarrow> pt_holder t = pt_holder s"
  by (simp add: pt_holder_def)

lemma holding_pt_holder: "holding Lptable s \<Longrightarrow> pt_holder s = Some (mycpu s)"
  by (simp add: pt_holder_def holding_def)

lemma minv_start:
  "lk_free Lptable s0 \<Longrightarrow> mword pa m s0 = 0 \<Longrightarrow> pa < length (ptable s0) \<Longrightarrow>
   nat (m - 1) < length (p_mutexlist (ptable s0 ! pa)) \<Longrightarrow>
   minv pa m None \<lparr>kst = s0, mpcs = (\<lambda>_. Idle)\<rparr>"
  by (simp add: minv_def)

lemma minv_step: "mstep pa m S T \<Longrightarrow> minv pa m w S \<Longrightarrow> \<exists>w'. minv pa m w' T"
proof (induction rule: mstep.induct)
  case (enter S c t)
  then have "t = on_cpu c (kst S)" by (auto dest: mutex_guard_same)
  with enter minvD(1,2)[OF enter(3), of c] minvD(3)[OF enter(3)] show ?case
    unfolding goto_def by (intro exI[of _ w] minv_goto[OF enter(3)]) (auto dest: minvD(3))
next
  case (seen_free S c)
  with minvD(1,2)[OF seen_free(3), of c] minvD(3)[OF seen_free(3)] show ?case
    unfolding goto_def by (intro exI[of _ w] minv_goto[OF seen_free(3)]) (auto dest: minvD(3))
next
  case (take_pt S c t)
  then have t: "lk_free Lptable (on_cpu c (kst S))" "t = acq Lptable (on_cpu c (kst S))"
    by (auto dest: acquire_RetD)
  with minvD(1,2)[OF take_pt(3), of c] minvD(3)[OF take_pt(3)] take_pt(1) pt_holder_simps(2)[OF t(1)] show ?case
    unfolding goto_def by (intro exI[of _ w] minv_goto[OF take_pt(3)]) (auto simp: acq_words)
next
  case (take_mx S c t)
  then have t: "mword pa m (kst S) = 0" "set_locked pa (nat (m - 1)) 1 (on_cpu c (kst S)) = Ret () t"
    using spin_xchg_RetD[OF take_mx(2)] by auto
  have "nat (m - 1) < length (p_mutexlist (ptable (kst S) ! pa))" using take_mx(3) by (simp add: minv_def)
  with minvD(1,2)[OF take_mx(3), of c] minvD(3)[OF take_mx(3)] take_mx(1) t(1) set_locked_RetD[OF t(2)] show ?case
    unfolding goto_def by (intro exI[of _ "Some c"] minv_goto[OF take_mx(3)]) (auto simp: pt_holder_def)
next
  case (drop_pt S c t)
  then obtain u where u: "set_owner pa m m (on_cpu c (kst S)) = Ret () u" "release Lptable u = Ret () t"
    by (auto simp: thn_Ret_iff)
  have "nat (m - 1) < length (p_mutexlist (ptable (kst S) ! pa))" using drop_pt(3) by (simp add: minv_def)
  with minvD(1,2)[OF drop_pt(3), of c] minvD(3)[OF drop_pt(3)] drop_pt(1) set_owner_RetD[OF u(1)] release_RetD[OF u(2)]
    mword_more[of t u pa m] show ?case
    unfolding goto_def by (intro exI[of _ w] minv_goto[OF drop_pt(3)]) auto
next
  case (leave S c t)
  then have "t = on_cpu c (kst S)" by (auto dest: mutex_guard_same)
  with leave minvD(1,2)[OF leave(3), of c] minvD(3)[OF leave(3)] show ?case
    unfolding goto_def by (intro exI[of _ w] minv_goto[OF leave(3)]) (auto dest: minvD(3))
next
  case (utake_pt S c t)
  then have t: "lk_free Lptable (on_cpu c (kst S))" "t = acq Lptable (on_cpu c (kst S))"
    by (auto dest: acquire_RetD)
  with minvD(1,2)[OF utake_pt(3), of c] minvD(3)[OF utake_pt(3)] utake_pt(1) pt_holder_simps(2)[OF t(1)] show ?case
    unfolding goto_def by (intro exI[of _ w] minv_goto[OF utake_pt(3)]) (auto simp: acq_words)
next
  case (uclear S c t)
  then obtain u where u: "set_locked pa (nat (m - 1)) 0 (on_cpu c (kst S)) = Ret () u"
    "set_owner pa m 0 u = Ret () t" by (auto simp: thn_Ret_iff)
  have "nat (m - 1) < length (p_mutexlist (ptable (kst S) ! pa))" using uclear(3) by (simp add: minv_def)
  with minvD(1,2)[OF uclear(3), of c] minvD(3)[OF uclear(3)] uclear(1) set_locked_RetD[OF u(1)] set_owner_RetD[OF u(2)] show ?case
    unfolding goto_def by (intro exI[of _ None] minv_goto[OF uclear(3)]) (auto simp: pt_holder_def)
next
  case (udrop_pt S c t)
  with minvD(1,2)[OF udrop_pt(3), of c] minvD(3)[OF udrop_pt(3)] release_RetD[OF udrop_pt(2)]
    mword_more[of t "on_cpu c (kst S)" pa m] show ?case
    unfolding goto_def by (intro exI[of _ w] minv_goto[OF udrop_pt(3)]) auto
qed

lemma minv_reach:
  "mreach pa m s0 S \<Longrightarrow> minv pa m None \<lparr>kst = s0, mpcs = (\<lambda>_. Idle)\<rparr> \<Longrightarrow> \<exists>w. minv pa m w S"
proof (induction rule: mreach.induct)
  case (step S T)
  then show ?case using minv_step by blast
qed blast


section \<open>A whole call is one of the interleavings\<close>

lemma on_cpu_idem [simp]: "on_cpu c (on_cpu d s) = on_cpu c s" "mycpu s = c \<Longrightarrow> on_cpu c s = s"
  by (simp_all add: on_cpu_def)

lemma goto_goto [simp]: "goto c l t (goto c l' t' S) = goto c l t S"
  by (simp add: goto_def)

lemma mstep_goto:
  "mstep pa m (goto c l t S) (goto c l' t' S) \<Longrightarrow> (mstep pa m)\<^sup>*\<^sup>* S (goto c l t S) \<Longrightarrow>
   (mstep pa m)\<^sup>*\<^sup>* S (goto c l' t' S)"
  by (rule rtranclp.rtrancl_into_rtrancl)

lemma mutex_lock_RetD:
  assumes "mutex_lock m s = Ret r t" "mutex_guard m s = Ret (Some pa) u"
  shows "\<exists>t1 t2. mword pa m s = 0 \<and> acquire Lptable s = Ret () t1 \<and>
    spin_xchg pa (nat (m - 1)) t1 = Ret () t2 \<and> thn (set_owner pa m m) (release Lptable) t2 = Ret () t"
proof -
  have "u = s" using assms(2) by (rule mutex_guard_same)
  with assms show ?thesis
    by (auto simp: mutex_lock_def set_owner_def get_mutex_def getp_def mword_def mon_defs
        split: if_splits outcome.splits)
qed

lemma mycpu_steps:
  "acquire l s = Ret a t \<Longrightarrow> mycpu t = mycpu s"
  "spin_xchg pa (nat (m - 1)) s = Ret a t \<Longrightarrow> mycpu t = mycpu s"
  by (auto dest!: acquire_RetD spin_xchg_RetD set_locked_RetD)

lemma mutex_lock_run:
  assumes "mutex_lock m (on_cpu c (kst S)) = Ret r t"
    and "mutex_guard m (on_cpu c (kst S)) = Ret (Some pa) u" and "mpcs S c = Idle"
  shows "(mstep pa m)\<^sup>*\<^sup>* S (goto c Crit t S)"
proof -
  let ?s = "on_cpu c (kst S)"
  obtain t1 t2 where w: "mword pa m ?s = 0" and t1: "acquire Lptable ?s = Ret () t1"
    and t2: "spin_xchg pa (nat (m - 1)) t1 = Ret () t2"
    and t: "thn (set_owner pa m m) (release Lptable) t2 = Ret () t"
    using mutex_lock_RetD[OF assms(1,2)] by blast
  have c: "on_cpu c t1 = t1" "on_cpu c t2 = t2" using mycpu_steps(1)[OF t1] mycpu_steps(2)[OF t2] by simp_all
  have "u = ?s" using assms(2) by (rule mutex_guard_same)
  then have "(mstep pa m)\<^sup>*\<^sup>* S (goto c Spin ?s S)" using assms(2,3) by (blast intro: mstep.enter)
  moreover have "mstep pa m (goto c Spin ?s S) (goto c WantPt ?s S)"
    using mstep.seen_free[of "goto c Spin ?s S" c pa m] w by simp
  moreover have "mstep pa m (goto c WantPt ?s S) (goto c Xchg t1 S)"
    using mstep.take_pt[of "goto c WantPt ?s S" c t1 pa m] t1 by simp
  moreover have "mstep pa m (goto c Xchg t1 S) (goto c Got t2 S)"
    using mstep.take_mx[of "goto c Xchg t1 S" c pa m t2] t2 c by simp
  moreover have "mstep pa m (goto c Got t2 S) (goto c Crit t S)"
    using mstep.drop_pt[of "goto c Got t2 S" c pa m t] t c by simp
  ultimately show ?thesis by (blast intro: mstep_goto)
qed

lemma mutex_unlock_RetD:
  assumes "mutex_unlock m s = Ret r t" "mutex_guard m s = Ret (Some pa) u"
  shows "\<exists>t1 t2. acquire Lptable s = Ret () t1 \<and>
    thn (set_locked pa (nat (m - 1)) 0) (set_owner pa m 0) t1 = Ret () t2 \<and> release Lptable t2 = Ret () t"
proof -
  have "u = s" using assms(2) by (rule mutex_guard_same)
  with assms show ?thesis
    by (auto simp: mutex_unlock_def set_owner_def mon_defs split: if_splits outcome.splits)
qed

lemma mycpu_clear: "thn (set_locked pa k v) (set_owner pa m w) s = Ret a t \<Longrightarrow> mycpu t = mycpu s"
  by (auto simp: set_owner_def set_locked_def updp_def mon_defs split: if_splits)

lemma mutex_unlock_run:
  assumes "mutex_unlock m (on_cpu c (kst S)) = Ret r t"
    and "mutex_guard m (on_cpu c (kst S)) = Ret (Some pa) u" and "mpcs S c = Crit"
  shows "(mstep pa m)\<^sup>*\<^sup>* S (goto c Idle t S)"
proof -
  let ?s = "on_cpu c (kst S)"
  obtain t1 t2 where t1: "acquire Lptable ?s = Ret () t1"
    and t2: "thn (set_locked pa (nat (m - 1)) 0) (set_owner pa m 0) t1 = Ret () t2"
    and t: "release Lptable t2 = Ret () t"
    using mutex_unlock_RetD[OF assms(1,2)] by blast
  have c: "on_cpu c t1 = t1" "on_cpu c t2 = t2" using mycpu_steps(1)[OF t1] mycpu_clear[OF t2] by simp_all
  have "u = ?s" using assms(2) by (rule mutex_guard_same)
  then have "(mstep pa m)\<^sup>*\<^sup>* S (goto c UWant ?s S)" using assms(2,3) by (blast intro: mstep.leave)
  moreover have "mstep pa m (goto c UWant ?s S) (goto c UClr t1 S)"
    using mstep.utake_pt[of "goto c UWant ?s S" c t1 pa m] t1 by simp
  moreover have "mstep pa m (goto c UClr t1 S) (goto c URel t2 S)"
    using mstep.uclear[of "goto c UClr t1 S" c pa m t2] t2 c by simp
  moreover have "mstep pa m (goto c URel t2 S) (goto c Idle t S)"
    using mstep.udrop_pt[of "goto c URel t2 S" c t pa m] t c by simp
  ultimately show ?thesis by (blast intro: mstep_goto)
qed

text \<open>
  C3. The steps are those of the calls: \<open>mutex_lock\<close>, when it returns, is a run of steps from
  the state of the call to the state it returns with the caller in its critical section, and
  \<open>mutex_unlock\<close> from there is a run back outside.
\<close>

theorem mutex_calls_are_runs:
  assumes "mpcs S c = Idle" and "mutex_guard m (on_cpu c (kst S)) = Ret (Some pa) u"
    and "mutex_lock m (on_cpu c (kst S)) = Ret r t"
    and "mutex_guard m (on_cpu c t) = Ret (Some pa) u'" and "mutex_unlock m (on_cpu c t) = Ret r' v"
  shows "(mstep pa m)\<^sup>*\<^sup>* S (goto c Crit t S) \<and> (mstep pa m)\<^sup>*\<^sup>* (goto c Crit t S) (goto c Idle v S)"
  using mutex_lock_run[OF assms(3,2,1)] mutex_unlock_run[of m c "goto c Crit t S" r' v pa u'] assms(4,5)
  by simp

lemma mreach_steps: "(mstep pa m)\<^sup>*\<^sup>* S T \<Longrightarrow> mreach pa m s0 S \<Longrightarrow> mreach pa m s0 T"
  by (induction rule: rtranclp_induct) (auto intro: mreach.step)

section \<open>The deadlock\<close>

definition msys_ex :: msys where
  "msys_ex = \<lparr>kst = kmutex_ex, mpcs = (\<lambda>_. Idle)\<rparr>"

lemma msys_ex_simps [simp]: "kst msys_ex = kmutex_ex" "mpcs msys_ex c = Idle"
  by (simp_all add: msys_ex_def)

definition taken_ex :: procst where
  "taken_ex = (rel Lptable (acq Lptable kmutex_ex))\<lparr>ptable := set_mutex 0 1 1 1 (ptable kmutex_ex)\<rparr>"

lemma taken_ex_lock: "mutex_lock 1 kmutex_ex = Ret 1 taken_ex"
  using mutex_lock_free[OF kmutex_ex_ok] by (simp only: taken_ex_def)

lemma taken_ex_ok: "runs 1 taken_ex" "wf_ptable (ptable taken_ex)" "may_use 1 0 1 taken_ex"
  "mword 0 1 taken_ex = 1" "lk_free Lptable taken_ex" "mycpu taken_ex = 0"
proof -
  have pa: "0 < length (ptable kmutex_ex)" "in_range NMUTX 1" by (simp_all add: in_range_def)
  note props = set_mutex_at[OF kmutex_ex_ok(2) pa] set_mutex_same
  show "runs 1 taken_ex" "wf_ptable (ptable taken_ex)" "may_use 1 0 1 taken_ex"
    "mword 0 1 taken_ex = 1" "lk_free Lptable taken_ex" "mycpu taken_ex = 0"
    using kmutex_ex_ok props by (simp_all add: taken_ex_def runs_def may_use_def mword_def Let_def)
qed

lemma kmutex_ex_cpu [simp]: "on_cpu 0 kmutex_ex = kmutex_ex" "on_cpu 0 taken_ex = taken_ex"
  by (simp_all add: taken_ex_ok)

lemma kmutex_ex_guard: "mutex_guard 1 kmutex_ex = Ret (Some 0) kmutex_ex"
  "mutex_guard 1 taken_ex = Ret (Some 0) taken_ex"
  using mutex_guard_use kmutex_ex_ok taken_ex_ok by blast+

theorem mutex_calls_are_runs_witness:
  "\<exists>v. mutex_unlock 1 taken_ex = Ret 1 v \<and> (mstep 0 1)\<^sup>*\<^sup>* (goto 0 Crit taken_ex msys_ex) (goto 0 Idle v msys_ex)"
  using mutex_calls_are_runs[of msys_ex 0 1 0 kmutex_ex 1 taken_ex taken_ex 1]
    kmutex_ex_guard taken_ex_lock mutex_unlock_use[OF taken_ex_ok(1-3)] by simp


text \<open>
  The interleaving that stops: CPU 1 leaves its spin loop, CPU 0 takes and enters the critical
  section and calls \<open>mutex_unlock\<close>, CPU 1 takes \<open>ptable.lock\<close> and exchanges on the mutex.
\<close>

definition stuck_ex :: msys where
  "stuck_ex = goto 1 Xchg (acq Lptable (on_cpu 1 taken_ex))
     (goto 0 UWant taken_ex (goto 1 WantPt (on_cpu 1 kmutex_ex) msys_ex))"

lemma stuck_ex_reached: "mreach 0 1 kmutex_ex stuck_ex"
proof -
  let ?k1 = "on_cpu 1 kmutex_ex"
  let ?A = "goto 1 Spin ?k1 msys_ex" and ?B = "goto 1 WantPt ?k1 msys_ex"
  have "runs 2 ?k1" "may_use 2 0 1 ?k1" "wf_ptable (ptable ?k1)"
    using kmutex_ex_ok by (simp_all add: on_cpu_def runs_def lk_defs boot_defs may_use_def)
  from mutex_guard_use[OF this(1,3,2)] have "mreach 0 1 kmutex_ex ?A"
    using mreach.step[OF mreach.start[of 0 1 kmutex_ex, folded msys_ex_def] mstep.enter[of msys_ex 1]]
    by simp
  moreover have "mword 0 1 ?k1 = 0" using kmutex_ex_ok(4) by (simp add: mword_def on_cpu_def)
  then have "mstep 0 1 ?A ?B" using mstep.seen_free[of ?A 1 0 1] by simp
  ultimately have B: "mreach 0 1 kmutex_ex ?B" by (rule mreach.step)
  have "(mstep 0 1)\<^sup>*\<^sup>* ?B (goto 0 Crit taken_ex ?B)"
    using mutex_lock_run[of 1 0 ?B 1 taken_ex 0 kmutex_ex] kmutex_ex_guard taken_ex_lock by simp
  moreover have "mstep 0 1 (goto 0 Crit taken_ex ?B) (goto 0 UWant taken_ex ?B)"
    using mstep.leave[of "goto 0 Crit taken_ex ?B" 0 1 0 taken_ex] kmutex_ex_guard by simp
  moreover have "mstep 0 1 (goto 0 UWant taken_ex ?B) stuck_ex"
    using mstep.take_pt[of "goto 0 UWant taken_ex ?B" 1] acquire_free[of Lptable "on_cpu 1 taken_ex"]
      taken_ex_ok(5) by (simp add: stuck_ex_def lk_free_def on_cpu_def)
  ultimately show ?thesis using mreach_steps[OF _ B] by (metis mreach.step)
qed

lemma stuck_ex_pcs: "mpcs stuck_ex c = (if c = 0 then UWant else if c = 1 then Xchg else Idle)"
  by (simp add: stuck_ex_def goto_def)

lemma stuck_ex_ops:
  "1 < c \<Longrightarrow> mutex_guard 1 (on_cpu c (kst stuck_ex)) = Ub"
  "spin_xchg 0 0 (on_cpu 1 (kst stuck_ex)) = Spn"
  "acquire Lptable (on_cpu 0 (kst stuck_ex)) = Spn"
proof -
  let ?t = "acq Lptable (on_cpu 1 taken_ex)"
  have k: "kst stuck_ex = ?t" by (simp add: stuck_ex_def goto_def)
  have "cpu_proc (cpus ?t c) = cpu_proc (cpus kmutex_ex c)" for c
    by (simp add: taken_ex_def on_cpu_def)
  then show "1 < c \<Longrightarrow> mutex_guard 1 (on_cpu c (kst stuck_ex)) = Ub"
    unfolding k by (simp add: mutex_guard_def myproc_def the_cpu_def mon_defs on_cpu_def cpu_boot_def)
  have "0 < length (ptable taken_ex)" "0 < length (p_mutexlist (ptable taken_ex ! 0))"
    "locked (mx_lock (p_mutexlist (ptable taken_ex ! 0) ! 0)) \<noteq> 0"
    using taken_ex_ok(4) wf_ptableD[OF taken_ex_ok(2), of 0] taken_ex_ok(3)
    by (auto simp: mword_def wf_proc_def may_use_def)
  then show "spin_xchg 0 0 (on_cpu 1 (kst stuck_ex)) = Spn"
    unfolding k by (simp add: spin_xchg_def get_mutex_def getp_def xchg_def mon_defs on_cpu_def)
  show "acquire Lptable (on_cpu 0 (kst stuck_ex)) = Spn"
    unfolding k by (rule acquire_other) (simp_all add: acq_def on_cpu_def)
qed

text \<open>
  C2. The mutexes can deadlock their process: two threads that only call \<open>mutex_lock\<close> and
  \<open>mutex_unlock\<close> reach a state in which no thread can move. One holds the mutex and waits for
  \<open>ptable.lock\<close> to release it; the other holds \<open>ptable.lock\<close>, interrupts off, and spins on
  the mutex.
\<close>

theorem mutex_deadlock_reachable:
  "\<exists>S. mreach 0 1 kmutex_ex S \<and> mpcs S 0 = UWant \<and> mpcs S 1 = Xchg \<and> (\<forall>T. \<not> mstep 0 1 S T)"
proof -
  have "\<not> mstep 0 1 stuck_ex T" for T
    by (rule notI, erule mstep.cases) (auto simp: stuck_ex_pcs stuck_ex_ops[unfolded One_nat_def] split: if_splits)
  then show ?thesis using stuck_ex_reached stuck_ex_pcs by auto
qed

end
