(* ===== verification/Kcondvar.thy ===== *)
theory Kcondvar
  imports Kthread
begin

text \<open>
  What the condition variables of \<^verbatim>\<open>proc.c\<close> do for the threads of a process: the slots of
  \<open>waitingthreadlist\<close>, the effect of a signal and a broadcast on the slots and on the process
  table, and the pairing of \<open>condvar_wait\<close> with a later \<open>condvar_broadcast\<close>.
\<close>

section \<open>The slots of a condition variable\<close>

definition slots :: "nat \<Rightarrow> nat \<Rightarrow> proc list \<Rightarrow> int list" where
  "slots pa c ps = waitingthreadlist (p_condvarlist (ps ! pa) ! c)"

text \<open>The table after the thread in slot \<open>i\<close>, numbered \<open>w\<close>, has been woken and the slot cleared.\<close>

definition wake_tab :: "nat \<Rightarrow> nat \<Rightarrow> nat \<Rightarrow> int \<Rightarrow> proc list \<Rightarrow> proc list" where
  "wake_tab pa c i w ps =
     (map (wakeup_proc (chan_of_pid w)) ps)[pa := set_waiting c i 0 (wakeup_proc (chan_of_pid w) (ps ! pa))]"

lemma wakeup_proc_fields [simp]:
  "p_condvarlist (wakeup_proc ch q) = p_condvarlist q" "p_mutexlist (wakeup_proc ch q) = p_mutexlist q"
  "p_type (wakeup_proc ch q) = p_type q" "p_parent (wakeup_proc ch q) = p_parent q"
  "p_pid (wakeup_proc ch q) = p_pid q" "p_chan (wakeup_proc ch q) = p_chan q"
  "p_ofile (wakeup_proc ch q) = p_ofile q" "p_name (wakeup_proc ch q) = p_name q"
  by (simp_all add: wakeup_proc_def)

lemma set_waiting_fields [simp]:
  "p_mutexlist (set_waiting c i v q) = p_mutexlist q" "p_type (set_waiting c i v q) = p_type q"
  "p_parent (set_waiting c i v q) = p_parent q" "p_pid (set_waiting c i v q) = p_pid q"
  "p_chan (set_waiting c i v q) = p_chan q" "p_state (set_waiting c i v q) = p_state q"
  "p_ofile (set_waiting c i v q) = p_ofile q" "p_name (set_waiting c i v q) = p_name q"
  by (simp_all add: set_waiting_def upd_condvar_def)

lemma p_condvarlist_set_waiting:
  "c < length (p_condvarlist q) \<Longrightarrow> p_condvarlist (set_waiting c i v q) =
     (p_condvarlist q)[c := (p_condvarlist q ! c)\<lparr>waitingthreadlist :=
        (waitingthreadlist (p_condvarlist q ! c))[i := v]\<rparr>]"
  by (simp add: set_waiting_def upd_condvar_def)

lemma wf_wakeup_proc [simp]: "wf_proc (wakeup_proc ch q) = wf_proc q"
  by (simp add: wf_proc_def)

lemma wf_set_waiting: "wf_proc q \<Longrightarrow> c < NCONDVAR \<Longrightarrow> wf_proc (set_waiting c i v q)"
  by (auto simp: wf_proc_def p_condvarlist_set_waiting dest!: set_update_subset_insert[THEN subsetD])

lemma length_slots: "wf_ptable ps \<Longrightarrow> pa < length ps \<Longrightarrow> c < NCONDVAR \<Longrightarrow> length (slots pa c ps) = MAXTHRDS"
  using wf_ptableD[of ps pa] by (auto simp: slots_def wf_proc_def)

lemma wake_tab_entry:
  assumes "pa < length ps" "q < length ps"
  shows "p_state (wake_tab pa c i w ps ! q) = p_state (wakeup_proc (chan_of_pid w) (ps ! q))"
    "p_chan (wake_tab pa c i w ps ! q) = p_chan (ps ! q)" "p_pid (wake_tab pa c i w ps ! q) = p_pid (ps ! q)"
    "p_type (wake_tab pa c i w ps ! q) = p_type (ps ! q)"
    "p_parent (wake_tab pa c i w ps ! q) = p_parent (ps ! q)"
    "p_mutexlist (wake_tab pa c i w ps ! q) = p_mutexlist (ps ! q)"
  using assms by (cases "q = pa"; simp add: wake_tab_def)+

lemma length_wake_tab [simp]: "length (wake_tab pa c i w ps) = length ps"
  by (simp add: wake_tab_def)

lemma wf_wake_tab:
  "wf_ptable ps \<Longrightarrow> c < NCONDVAR \<Longrightarrow> pa < length ps \<Longrightarrow> wf_ptable (wake_tab pa c i w ps)"
  unfolding wake_tab_def by (rule wf_ptable_update) (auto simp: wf_ptable_def wf_set_waiting)

lemma slots_wake_tab:
  "wf_ptable ps \<Longrightarrow> c < NCONDVAR \<Longrightarrow> pa < length ps \<Longrightarrow>
   slots pa c (wake_tab pa c i w ps) = (slots pa c ps)[i := 0]"
  using wf_ptableD[of ps pa] by (auto simp: slots_def wake_tab_def p_condvarlist_set_waiting wf_proc_def)

section \<open>Signal and broadcast\<close>

text \<open>The process \<open>pa\<close> whose condition variables the running process \<open>p\<close> signals.\<close>

definition owns :: "nat \<Rightarrow> nat \<Rightarrow> 'z procst_scheme \<Rightarrow> bool" where
  "owns p pa s \<longleftrightarrow> pa < length (ptable s) \<and>
     (if p_type (ptable s ! p) \<noteq> 0 then p_parent (ptable s ! p) = Some pa else pa = p)"

lemma cv_owner_Ret: "runs p s \<Longrightarrow> owns p pa s \<Longrightarrow> cv_owner s = Ret pa s"
  by (auto simp: runs_def owns_def cv_owner_def deref_def mon_defs split: if_splits)

lemma get_condvar_Ret [simp]:
  "pa < length (ptable s) \<Longrightarrow> c < length (p_condvarlist (ptable s ! pa)) \<Longrightarrow>
   get_condvar pa c s = Ret (p_condvarlist (ptable s ! pa) ! c) s"
  by (simp add: get_condvar_def mon_defs)

lemma wake_slot_Ret:
  assumes "runs p s" "pa < length (ptable s)"
  shows "\<exists>t. wake_slot pa c i w s = Ret () t \<and> runs p t \<and> ptable t = wake_tab pa c i w (ptable s)"
  using assms by (simp add: runs_def wake_slot_def wakeup_Ret mon_defs acquire_free release_held wake_tab_def)

text \<open>
  The entry of the table after the threads \<open>ws\<close> have been woken: it runs again exactly when
  it slept on the number of one of them.
\<close>

definition woken :: "int list \<Rightarrow> proc \<Rightarrow> procstate" where
  "woken ws q = (if p_state q = SLEEPING \<and> (\<exists>w \<in> set ws. w > 0 \<and> p_chan q = ChNum w)
     then RUNNABLE else p_state q)"

lemma wake_tab_owns: "owns p pa s \<Longrightarrow> p < length (ptable s) \<Longrightarrow> ptable t = wake_tab pa c i w (ptable s) \<Longrightarrow>
    owns p pa t"
  by (auto simp: owns_def wake_tab_entry)

text \<open>An example: thread 3 of the process of \<open>kmutex_ex\<close> waits in the first slot of variable 1.\<close>

definition kcv_ex :: procst where
  "kcv_ex = kmutex_ex\<lparr>ptable := [set_waiting 0 0 3 parent_ex, thread_ex 2,
     (thread_ex 3)\<lparr>p_state := SLEEPING, p_chan := ChNum 3\<rparr>]\<rparr>"

lemma kcv_ex_ok: "runs 1 kcv_ex" "wf_ptable (ptable kcv_ex)" "owns 1 0 kcv_ex" "in_range NCONDVAR 1"
proof -
  have "wf_proc ((thread_ex 3)\<lparr>p_state := SLEEPING, p_chan := ChNum 3\<rparr>)"
    using wf_ex(2)[of 3] by (simp add: wf_proc_def)
  then show "wf_ptable (ptable kcv_ex)" by (simp add: kcv_ex_def wf_ptable_def wf_ex wf_set_waiting)
  show "runs 1 kcv_ex" "owns 1 0 kcv_ex" "in_range NCONDVAR 1"
    using kmutex_ex_ok(1) by (simp_all add: kcv_ex_def runs_def owns_def in_range_def)
qed

lemma kcv_ex_slots: "slots 0 0 (ptable kcv_ex) = 3 # replicate 31 0" "length (ptable kcv_ex) = 3"
  "ptable kcv_ex ! 2 = (thread_ex 3)\<lparr>p_state := SLEEPING, p_chan := ChNum 3\<rparr>"
  by (simp_all add: kcv_ex_def slots_def p_condvarlist_set_waiting parent_ex_def proc_boot_def
      condvar_boot_def numeral_eq_Suc)

text \<open>
  C26. \<open>condvar_signal\<close> wakes one waiting thread: when some slot of the condition variable is
  occupied, the thread in the first such slot is made runnable and the slot cleared, and no other
  process and no other slot changes; when none is, the state is as it was.
\<close>

theorem condvar_signal_one:
  assumes "runs p s" and "wf_ptable (ptable s)" and "owns p pa s" and "in_range NCONDVAR cv"
  shows "(\<forall>w \<in> set (slots pa (nat (cv - 1)) (ptable s)). w \<le> 0) \<and> condvar_signal cv s = Ret 0 s \<or>
    (\<exists>i t. i < MAXTHRDS \<and> slots pa (nat (cv - 1)) (ptable s) ! i > 0 \<and>
       (\<forall>j < i. slots pa (nat (cv - 1)) (ptable s) ! j \<le> 0) \<and> condvar_signal cv s = Ret 0 t \<and>
       slots pa (nat (cv - 1)) (ptable t) = (slots pa (nat (cv - 1)) (ptable s))[i := 0] \<and>
       (\<forall>q < length (ptable s). p_state (ptable t ! q) =
          woken [slots pa (nat (cv - 1)) (ptable s) ! i] (ptable s ! q)))"
proof -
  let ?c = "nat (cv - 1)"
  let ?ws = "slots pa ?c (ptable s)"
  have c: "?c < NCONDVAR" "1 \<le> cv" "cv \<le> int NCONDVAR" and pa: "pa < length (ptable s)"
    using assms(3,4) by (auto simp: in_range_def owns_def)
  note len = length_slots[OF assms(2) pa c(1)]
  have sig: "condvar_signal cv s = (case find_idx (\<lambda>w. w > 0) ?ws of None \<Rightarrow> Ret 0 s
      | Some i \<Rightarrow> thn (wake_slot pa ?c i (?ws ! i)) (ret 0) s)"
    using c wf_ptableD[OF assms(2) pa] len cv_owner_Ret[OF assms(1,3)] pa
    by (auto simp: condvar_signal_def mon_defs slots_def wf_proc_def split: option.splits)
  show ?thesis
  proof (cases "find_idx (\<lambda>w. w > 0) ?ws")
    case None
    with sig find_idx_None_iff[THEN iffD1, OF None] show ?thesis by (auto simp: not_less)
  next
    case (Some i)
    note i = find_idx_SomeD[OF Some]
    obtain t where t: "wake_slot pa ?c i (?ws ! i) s = Ret () t" "ptable t = wake_tab pa ?c i (?ws ! i) (ptable s)"
      using wake_slot_Ret[OF assms(1) pa] by blast
    then have "condvar_signal cv s = Ret 0 t" using sig Some by (simp add: mon_defs)
    moreover have "p_state (ptable t ! q) = woken [?ws ! i] (ptable s ! q)" if "q < length (ptable s)" for q
      using that i pa by (auto simp: t wake_tab_entry woken_def wakeup_proc_def chan_of_pid_def)
    ultimately show ?thesis using i len slots_wake_tab[OF assms(2) c(1) pa]
      by (intro disjI2 exI[of _ i] exI[of _ t]) (auto simp: t(2) not_less)
  qed
qed

theorem condvar_signal_one_witness:
  "in_range NCONDVAR 1 \<and> (\<exists>t. condvar_signal 1 kcv_ex = Ret 0 t \<and> slots 0 0 (ptable t) = replicate 32 0)"
proof -
  have ws: "slots 0 (nat (1 - 1)) (ptable kcv_ex) = 3 # replicate 31 0" using kcv_ex_slots by simp
  obtain i t where i: "(3 # replicate 31 0) ! i > (0 :: int)" "i < MAXTHRDS" "condvar_signal 1 kcv_ex = Ret 0 t"
    "slots 0 (nat (1 - 1)) (ptable t) = (3 # replicate 31 0)[i := 0]"
    using condvar_signal_one[OF kcv_ex_ok] unfolding ws by auto
  then have "i = 0" by (cases i) auto
  with i kcv_ex_ok(4) show ?thesis by (simp add: numeral_eq_Suc)
qed

text \<open>
  The state of a broadcast from the state \<open>s\<close> after the slots below \<open>n\<close>: they are cleared
  and their threads woken.
\<close>

definition bcast_upto :: "nat \<Rightarrow> nat \<Rightarrow> nat \<Rightarrow> nat \<Rightarrow> 'z procst_scheme \<Rightarrow> 'z procst_scheme \<Rightarrow> bool" where
  "bcast_upto n p pa c s t \<longleftrightarrow> runs p t \<and> wf_ptable (ptable t) \<and> owns p pa t \<and>
     length (ptable t) = length (ptable s) \<and>
     slots pa c (ptable t) = map (min 0) (take n (slots pa c (ptable s))) @ drop n (slots pa c (ptable s)) \<and>
     (\<forall>q < length (ptable s). p_state (ptable t ! q) = woken (take n (slots pa c (ptable s))) (ptable s ! q) \<and>
        p_chan (ptable t ! q) = p_chan (ptable s ! q) \<and> p_pid (ptable t ! q) = p_pid (ptable s ! q) \<and>
        p_mutexlist (ptable t ! q) = p_mutexlist (ptable s ! q))"

definition bcast_step :: "nat \<Rightarrow> nat \<Rightarrow> (unit, 'z procst_scheme) kmon" where
  "bcast_step c i = bnd cv_owner (\<lambda>pa. bnd (get_condvar pa c) (\<lambda>cv.
     let w = waitingthreadlist cv ! i in if w > 0 then wake_slot pa c i w else skip))"

lemma forM_snoc: "forM (xs @ [i]) f s = thn (forM xs f) (f i) s"
  by (induction xs arbitrary: s) (auto simp: mon_defs split: outcome.splits)

lemma list_step:
  "n < length xs \<Longrightarrow> (map f (take n xs) @ drop n xs)[n := f (xs ! n)] = map f (take (Suc n) xs) @ drop (Suc n) xs"
  by (rule nth_equalityI) (auto simp: nth_append nth_list_update less_Suc_eq)

lemma bcast_step_upto:
  assumes "bcast_upto n p pa c s t" "c < NCONDVAR" "n < length (slots pa c (ptable s))"
  shows "\<exists>u. bcast_step c n t = Ret () u \<and> bcast_upto (Suc n) p pa c s u"
proof -
  let ?ws = "slots pa c (ptable s)"
  note t = assms(1)[unfolded bcast_upto_def]
  from t have pa: "pa < length (ptable t)" "p < length (ptable t)" by (auto simp: owns_def)
  have c: "c < length (p_condvarlist (ptable t ! pa))"
    using wf_ptableD[of "ptable t" pa] t pa assms(2) by (auto simp: wf_proc_def)
  have w: "waitingthreadlist (p_condvarlist (ptable t ! pa) ! c) ! n = ?ws ! n"
    using t assms(3) by (simp add: slots_def nth_append flip: slots_def)
  have step: "bcast_step c n t = (if ?ws ! n > 0 then wake_slot pa c n (?ws ! n) t else Ret () t)"
    using t pa c w cv_owner_Ret[of p t pa] by (simp add: bcast_step_def mon_defs)
  show ?thesis
  proof (cases "?ws ! n > 0")
    case True
    obtain u where u: "wake_slot pa c n (?ws ! n) t = Ret () u" "runs p u"
      "ptable u = wake_tab pa c n (?ws ! n) (ptable t)" using wake_slot_Ret t pa by metis
    have "bcast_upto (Suc n) p pa c s u"
      unfolding bcast_upto_def using t u pa True wake_tab_owns[OF _ pa(2) u(3)] assms(2,3)
        list_step[OF assms(3), of "min 0"]
      by (auto simp: wf_wake_tab slots_wake_tab wake_tab_entry take_Suc_conv_app_nth woken_def
          wakeup_proc_def chan_of_pid_def)
    with step u True show ?thesis by auto
  next
    case False
    then have "bcast_upto (Suc n) p pa c s t"
      unfolding bcast_upto_def using t assms(3) Cons_nth_drop_Suc[OF assms(3)]
      by (auto simp: take_Suc_conv_app_nth woken_def min_def)
    with step False show ?thesis by auto
  qed
qed

lemma bcast_loop:
  assumes "runs p s" "wf_ptable (ptable s)" "owns p pa s" "c < NCONDVAR" "n \<le> length (slots pa c (ptable s))"
  shows "\<exists>t. forM [0..<n] (bcast_step c) s = Ret () t \<and> bcast_upto n p pa c s t"
  using assms(5)
proof (induction n)
  case 0
  then show ?case using assms by (auto simp: bcast_upto_def woken_def mon_defs)
next
  case (Suc n)
  then obtain t where t: "forM [0..<n] (bcast_step c) s = Ret () t" "bcast_upto n p pa c s t" by auto
  from bcast_step_upto[OF t(2) assms(4)] Suc.prems obtain u where
    "bcast_step c n t = Ret () u" "bcast_upto (Suc n) p pa c s u" by auto
  with t(1) show ?case by (simp add: forM_snoc thn_Ret_iff)
qed

lemma condvar_broadcast_upto:
  assumes "runs p s" "wf_ptable (ptable s)" "owns p pa s" "in_range NCONDVAR cv"
  shows "\<exists>t. condvar_broadcast cv s = Ret 0 t \<and> bcast_upto MAXTHRDS p pa (nat (cv - 1)) s t"
proof -
  have c: "nat (cv - 1) < NCONDVAR" and pa: "pa < length (ptable s)"
    using assms(3,4) by (auto simp: in_range_def owns_def)
  from bcast_loop[OF assms(1-3) c] length_slots[OF assms(2) pa c] obtain t where
    "forM [0..<MAXTHRDS] (bcast_step (nat (cv - 1))) s = Ret () t" "bcast_upto MAXTHRDS p pa (nat (cv - 1)) s t"
    by auto
  moreover have "condvar_broadcast cv s = thn (forM [0..<MAXTHRDS] (bcast_step (nat (cv - 1)))) (ret 0) s"
    using assms(4) by (simp add: condvar_broadcast_def in_range_def bcast_step_def[abs_def])
  ultimately show ?thesis by (auto simp: mon_defs)
qed



section \<open>Waiting\<close>

text \<open>The table when the thread \<open>p\<close> of \<open>pa\<close> has gone to sleep in slot \<open>i\<close>, the mutex dropped.\<close>

definition wait_tab :: "nat \<Rightarrow> nat \<Rightarrow> nat \<Rightarrow> nat \<Rightarrow> int \<Rightarrow> proc list \<Rightarrow> proc list" where
  "wait_tab p pa c i m ps = ps[
     pa := upd_mutex (nat (m - 1)) (\<lambda>x. x\<lparr>mx_lock := (mx_lock x)\<lparr>locked := 0\<rparr>\<rparr>)
             (set_waiting c i (p_pid (ps ! p)) (ps ! pa)),
     p := (ps ! p)\<lparr>p_chan := chan_of_pid (p_pid (ps ! p)), p_state := SLEEPING\<rparr>]"

definition may_wait :: "nat \<Rightarrow> nat \<Rightarrow> int \<Rightarrow> int \<Rightarrow> 'z procst_scheme \<Rightarrow> bool" where
  "may_wait p pa cv m s \<longleftrightarrow> runs p s \<and> ncli (the_cpu s) = 0 \<and> wf_ptable (ptable s) \<and>
     p_parent (ptable s ! p) = Some pa \<and> pa < length (ptable s) \<and> pa \<noteq> p \<and> 0 < p_pid (ptable s ! p) \<and>
     in_range NCONDVAR cv \<and> in_range NMUTX m"

lemma condvar_wait_Swt:
  assumes "may_wait p pa cv m s" "find_idx (\<lambda>w. w = 0) (slots pa (nat (cv - 1)) (ptable s)) = Some i"
  shows "\<exists>t. condvar_wait cv m s = Swt t \<and> holding Lptable t \<and>
    ptable t = wait_tab p pa (nat (cv - 1)) i m (ptable s)"
proof -
  note w = assms(1)[unfolded may_wait_def]
  let ?c = "nat (cv - 1)"
  have len: "length (slots pa ?c (ptable s)) = MAXTHRDS" "nat (m - 1) < NMUTX" "?c < NCONDVAR"
    using w length_slots[of "ptable s" pa ?c] by (auto simp: in_range_def)
  have pa: "length (p_mutexlist (ptable s ! pa)) = NMUTX" "length (p_condvarlist (ptable s ! pa)) = NCONDVAR"
    using wf_ptableD[of "ptable s" pa] w by (auto simp: wf_proc_def)
  show ?thesis
    using w len pa assms(2)
    by (simp add: condvar_wait_def in_range_def runs_def mon_defs deref_def modified_sleep_def sched_def
        slots_def acquire_free release_held set_locked_def xchg_def crit_cpu wait_tab_def list_update_swap)
qed

lemma wait_tab_facts:
  assumes "may_wait p pa cv m s" "i < MAXTHRDS"
  shows "wf_ptable (wait_tab p pa (nat (cv - 1)) i m (ptable s))"
    "slots pa (nat (cv - 1)) (wait_tab p pa (nat (cv - 1)) i m (ptable s)) =
       (slots pa (nat (cv - 1)) (ptable s))[i := p_pid (ptable s ! p)]"
    "locked (mx_lock (p_mutexlist (wait_tab p pa (nat (cv - 1)) i m (ptable s) ! pa) ! nat (m - 1))) = 0"
    "p_state (wait_tab p pa (nat (cv - 1)) i m (ptable s) ! p) = SLEEPING"
    "p_chan (wait_tab p pa (nat (cv - 1)) i m (ptable s) ! p) = ChNum (p_pid (ptable s ! p))"
proof -
  note w = assms(1)[unfolded may_wait_def]
  let ?c = "nat (cv - 1)" and ?q = "ptable s ! pa"
  have pl: "p < length (ptable s)" using w by auto
  have wf: "wf_proc ?q" "wf_proc (ptable s ! p)" using wf_ptableD w pl by auto
  have c: "?c < NCONDVAR" "nat (m - 1) < NMUTX" using w by (auto simp: in_range_def)
  have "wf_proc ((ptable s ! p)\<lparr>p_chan := ch, p_state := st\<rparr>)" for ch st
    using wf(2) by (simp add: wf_proc_def)
  then show "wf_ptable (wait_tab p pa ?c i m (ptable s))"
    unfolding wait_tab_def using w wf c by (intro wf_ptable_update) (auto simp: wf_set_waiting)
  show "slots pa ?c (wait_tab p pa ?c i m (ptable s)) = (slots pa ?c (ptable s))[i := p_pid (ptable s ! p)]"
    using w c wf(1) by (simp add: slots_def wait_tab_def p_condvarlist_set_waiting wf_proc_def)
  show "locked (mx_lock (p_mutexlist (wait_tab p pa ?c i m (ptable s) ! pa) ! nat (m - 1))) = 0"
    using w c wf(1) by (simp add: wait_tab_def wf_proc_def)
  show "p_state (wait_tab p pa ?c i m (ptable s) ! p) = SLEEPING"
    "p_chan (wait_tab p pa ?c i m (ptable s) ! p) = ChNum (p_pid (ptable s ! p))"
    using w pl by (simp_all add: wait_tab_def chan_of_pid_def)
qed


lemma kcv_ex_wait: "may_wait 1 0 1 1 kcv_ex" "0 \<in> set (slots 0 (nat (1 - 1)) (ptable kcv_ex))"
  using kcv_ex_ok kcv_ex_slots
  by (simp_all add: may_wait_def in_range_def) (simp_all add: kcv_ex_def the_cpu_def cpu_boot_def)


end
