(* ===== verification/Strings.thy ===== *)
theory Strings
  imports Params
begin

text \<open>
  \<^verbatim>\<open>string.c\<close>, with \<open>stosb\<close> and \<open>stosl\<close> of \<^verbatim>\<open>x86.h\<close>. What writes through a pointer that may
  alias its source works on the byte memory; what only reads takes each pointer as the function
  from offsets to the bytes behind it, so that it applies to memory and to byte arrays.
\<close>

section \<open>Memory operations\<close>

fun stosb :: "memory \<Rightarrow> u32 \<Rightarrow> u8 \<Rightarrow> nat \<Rightarrow> memory" where
  "stosb m addr data 0 = m"
| "stosb m addr data (Suc cnt) = stosb (m(addr := data)) (addr + 1) data cnt"

fun stosl :: "memory \<Rightarrow> u32 \<Rightarrow> u32 \<Rightarrow> nat \<Rightarrow> memory" where
  "stosl m addr data 0 = m"
| "stosl m addr data (Suc cnt) = stosl (mwr32 m addr data) (addr + 4) data cnt"

definition memset :: "memory \<Rightarrow> u32 \<Rightarrow> u32 \<Rightarrow> u32 \<Rightarrow> memory" where
  "memset m dst c n =
     (if dst mod 4 = 0 \<and> n mod 4 = 0
      then let c = c AND 0xFF
           in stosl m dst (push_bit 24 c OR push_bit 16 c OR push_bit 8 c OR c) (unat (n div 4))
      else stosb m dst (ucast c) (unat n))"

fun memcmp_loop :: "(nat \<Rightarrow> u8) \<Rightarrow> (nat \<Rightarrow> u8) \<Rightarrow> nat \<Rightarrow> nat \<Rightarrow> int" where
  "memcmp_loop s1 s2 i 0 = 0"
| "memcmp_loop s1 s2 i (Suc n) =
     (if s1 i \<noteq> s2 i then uint (s1 i) - uint (s2 i) else memcmp_loop s1 s2 (Suc i) n)"

definition memcmp :: "(nat \<Rightarrow> u8) \<Rightarrow> (nat \<Rightarrow> u8) \<Rightarrow> u32 \<Rightarrow> int" where
  "memcmp v1 v2 n = memcmp_loop v1 v2 0 (unat n)"

fun copy_fwd :: "memory \<Rightarrow> u32 \<Rightarrow> u32 \<Rightarrow> nat \<Rightarrow> memory" where
  "copy_fwd m d s 0 = m"
| "copy_fwd m d s (Suc n) = copy_fwd (m(d := m s)) (d + 1) (s + 1) n"

fun copy_bwd :: "memory \<Rightarrow> u32 \<Rightarrow> u32 \<Rightarrow> nat \<Rightarrow> memory" where
  "copy_bwd m d s 0 = m"
| "copy_bwd m d s (Suc n) = copy_bwd (m(d - 1 := m (s - 1))) (d - 1) (s - 1) n"

definition memmove :: "memory \<Rightarrow> u32 \<Rightarrow> u32 \<Rightarrow> u32 \<Rightarrow> memory" where
  "memmove m dst src n =
     (if src < dst \<and> src + n > dst then copy_bwd m (dst + n) (src + n) (unat n)
      else copy_fwd m dst src (unat n))"

definition memcpy :: "memory \<Rightarrow> u32 \<Rightarrow> u32 \<Rightarrow> u32 \<Rightarrow> memory" where
  "memcpy m dst src n = memmove m dst src n"

section \<open>Strings\<close>

text \<open>The bytes behind a pointer into memory, and behind a byte array.\<close>

definition ptr_at :: "memory \<Rightarrow> u32 \<Rightarrow> nat \<Rightarrow> u8" where
  "ptr_at m a i = m (a + of_nat i)"

definition arr :: "u8 list \<Rightarrow> nat \<Rightarrow> u8" where
  "arr bs i = (if i < length bs then bs ! i else 0)"

fun strncmp_loop :: "(nat \<Rightarrow> u8) \<Rightarrow> (nat \<Rightarrow> u8) \<Rightarrow> nat \<Rightarrow> nat \<Rightarrow> int" where
  "strncmp_loop p q i 0 = 0"
| "strncmp_loop p q i (Suc n) =
     (if p i \<noteq> 0 \<and> p i = q i then strncmp_loop p q (Suc i) n else uint (p i) - uint (q i))"

definition strncmp :: "(nat \<Rightarrow> u8) \<Rightarrow> (nat \<Rightarrow> u8) \<Rightarrow> u32 \<Rightarrow> int" where
  "strncmp p q n = strncmp_loop p q 0 (unat n)"

text \<open>The bytes that \<open>strncpy\<close> and \<open>safestrcpy\<close> write, in order from the destination on.\<close>

fun strncpy_loop :: "(nat \<Rightarrow> u8) \<Rightarrow> nat \<Rightarrow> nat \<Rightarrow> u8 list" where
  "strncpy_loop t i 0 = []"
| "strncpy_loop t i (Suc n) = t i # (if t i \<noteq> 0 then strncpy_loop t (Suc i) n else replicate n 0)"

definition strncpy :: "(nat \<Rightarrow> u8) \<Rightarrow> int \<Rightarrow> u8 list" where
  "strncpy t n = strncpy_loop t 0 (nat n)"

fun safestrcpy_loop :: "(nat \<Rightarrow> u8) \<Rightarrow> nat \<Rightarrow> nat \<Rightarrow> u8 list" where
  "safestrcpy_loop t i 0 = [0]"
| "safestrcpy_loop t i (Suc n) = t i # (if t i \<noteq> 0 then safestrcpy_loop t (Suc i) n else [0])"

definition safestrcpy :: "(nat \<Rightarrow> u8) \<Rightarrow> int \<Rightarrow> u8 list" where
  "safestrcpy t n = (if n \<le> 0 then [] else safestrcpy_loop t 0 (nat (n - 1)))"

text \<open>\<open>strlen\<close> does not return on a pointer with no zero byte behind it.\<close>

partial_function (option) strlen_loop :: "(nat \<Rightarrow> u8) \<Rightarrow> nat \<Rightarrow> nat option" where
  "strlen_loop s n = (if s n \<noteq> 0 then strlen_loop s (Suc n) else Some n)"

definition strlen :: "(nat \<Rightarrow> u8) \<Rightarrow> nat option" where
  "strlen s = strlen_loop s 0"

section \<open>Fill and copy\<close>

lemma stosb_mwr: "stosb m a d n = mwr m a (replicate n d)"
  by (induction n arbitrary: m a) (auto simp del: fun_upd_apply)

lemma mwr_append: "mwr m a (xs @ ys) = mwr (mwr m a xs) (a + of_nat (length xs)) ys"
  by (induction xs arbitrary: m a) (auto simp: algebra_simps simp del: fun_upd_apply)

lemma stosl_mwr: "stosl m a d n = mwr m a (concat (replicate n (le32 d)))"
  by (induction n arbitrary: m a) (auto simp: mwr32_def mwr_append)

lemma fill_word:
  "le32 (push_bit 24 c OR push_bit 16 c OR push_bit 8 c OR c) = replicate 4 (ucast b)"
  if "c = b AND 0xFF" for b c :: u32
proof -
  have c: "c = take_bit 8 b" unfolding that by (simp add: take_bit_eq_mask mask_eq_exp_minus_1)
  have four: "replicate 4 x = [x, x, x, x]" for x :: u8 by (simp add: numeral_eq_Suc)
  show ?thesis unfolding c le32_def four
    by (auto simp: bit_simps intro!: bit_word_eqI)
qed

lemma concat_replicate4: "concat (replicate n (replicate 4 x)) = replicate (4 * n) x"
  by (induction n) (auto simp: replicate_add)

lemma memset_mwr: "memset m dst c n = mwr m dst (replicate (unat n) (ucast c))"
proof (cases "dst mod 4 = 0 \<and> n mod 4 = 0")
  case True
  then have "unat (n mod 4) = 0" by simp
  then have "unat n mod 4 = 0" by (simp add: unat_mod)
  then have "4 * unat (n div 4) = unat n" by (simp add: unat_div) presburger
  with True show ?thesis
    unfolding memset_def Let_def stosl_mwr fill_word[OF refl] concat_replicate4 by simp
qed (auto simp: memset_def stosb_mwr)

text \<open>
  \<open>memset\<close> fills the \<open>n\<close> bytes from \<open>dst\<close> on with the low byte of \<open>c\<close> and changes no
  other byte, whether it stores words or bytes.
\<close>

theorem memset_fills:
  "memset m dst c n a = (if unat (a - dst) < unat n then ucast c else m a)"
proof -
  have "unat n \<le> 4294967296" using unat_lt32[of n] by simp
  then show ?thesis by (simp add: memset_mwr mwr_at)
qed

lemma mrd_Suc: "mrd m a (Suc n) = m a # mrd m (a + 1) n"
proof -
  have "[0..<Suc n] = 0 # map Suc [0..<n]" by (simp add: upt_conv_Cons map_Suc_upt del: upt_Suc)
  then show ?thesis by (simp add: mrd_def algebra_simps o_def del: upt_Suc)
qed

lemma mrd_snoc: "mrd m a (Suc n) = mrd m a n @ [m (a + of_nat n)]"
  by (simp add: mrd_def)

lemma copy_fwd_mwr:
  "(\<And>i j. i < j \<Longrightarrow> j < n \<Longrightarrow> d + of_nat i \<noteq> s + of_nat j) \<Longrightarrow> copy_fwd m d s n = mwr m d (mrd m s n)"
proof (induction n arbitrary: m d s)
  case (Suc n)
  have "(d + 1) + of_nat i \<noteq> (s + 1) + of_nat j" if "i < j" "j < n" for i j
    using Suc.prems[of "Suc i" "Suc j"] that by (simp add: algebra_simps)
  then have "copy_fwd m d s (Suc n) = mwr (m(d := m s)) (d + 1) (mrd (m(d := m s)) (s + 1) n)"
    using Suc.IH by (simp del: fun_upd_apply)
  moreover have "s + 1 + of_nat j \<noteq> d" if "j < n" for j
    using Suc.prems[of 0 "Suc j"] that by (simp add: algebra_simps)
  then have "mrd (m(d := m s)) (s + 1) n = mrd m (s + 1) n" by (intro mrd_cong) simp
  ultimately show ?case by (simp add: mrd_Suc)
qed (simp add: mrd_def)

lemma copy_bwd_mwr:
  "(\<And>i j. j < i \<Longrightarrow> i < n \<Longrightarrow> d + of_nat i \<noteq> s + of_nat j) \<Longrightarrow> n \<le> 4294967296 \<Longrightarrow>
   copy_bwd m (d + of_nat n) (s + of_nat n) n = mwr m d (mrd m s n)"
proof (induction n arbitrary: m)
  case (Suc n)
  let ?m = "m(d + of_nat n := m (s + of_nat n))"
  have "copy_bwd m (d + of_nat (Suc n)) (s + of_nat (Suc n)) (Suc n) = mwr ?m d (mrd ?m s n)"
    using Suc.IH[of ?m] Suc.prems by (simp add: algebra_simps del: fun_upd_apply)
  also have "mrd ?m s n = mrd m s n"
    by (rule mrd_cong) (use Suc.prems(1)[of _ n] in \<open>auto dest: sym\<close>)
  also have "mwr ?m d (mrd m s n) = (mwr m d (mrd m s n))(d + of_nat n := m (s + of_nat n))"
    using Suc.prems(2) by (auto simp: fun_eq_iff mwr_at unat_of_nat32)
  finally show ?case by (simp add: mrd_snoc mwr_append)
qed (simp add: mrd_def)

lemma word_order: "x < y \<longleftrightarrow> unat x < unat (y :: u32)" "x \<le> y \<longleftrightarrow> unat x \<le> unat y"
  by (simp_all add: word_less_nat_alt word_le_nat_alt)

lemma unat_plus: "unat (a :: u32) + n < 4294967296 \<Longrightarrow> unat (a + of_nat n) = unat a + n"
  by (simp add: unat_word_ariths unat_of_nat take_bit_nat_eq_self)

text \<open>
  C37. \<open>memmove\<close> copies correctly however its ranges overlap: after it the \<open>n\<close> bytes from
  \<open>dst\<close> on are those that were at \<open>src\<close> before, and no other byte has changed, for ranges that
  do not run past the end of the address space.
\<close>

theorem memmove_overlap:
  assumes "unat src + unat n < 4294967296" and "unat dst + unat n < 4294967296"
  shows "memmove m dst src n = mwr m dst (mrd m src (unat n))"
proof -
  have at: "unat (src + of_nat i) = unat src + i" "unat (dst + of_nat i) = unat dst + i" if "i \<le> unat n" for i
    using assms that by (simp_all add: unat_plus)
  then have ne: "dst + of_nat i \<noteq> src + of_nat j" if "unat dst + i \<noteq> unat src + j" "i \<le> unat n" "j \<le> unat n" for i j
    using that by metis
  have sn: "unat (src + n) = unat src + unat n" using at(1)[of "unat n"] by simp
  show ?thesis
  proof (cases "src < dst \<and> src + n > dst")
    case True
    have "copy_bwd m (dst + of_nat (unat n)) (src + of_nat (unat n)) (unat n) = mwr m dst (mrd m src (unat n))"
      using True assms by (intro copy_bwd_mwr ne) (auto simp: word_order)
    with True show ?thesis by (simp add: memmove_def)
  next
    case False
    have "copy_fwd m dst src (unat n) = mwr m dst (mrd m src (unat n))"
      using False by (intro copy_fwd_mwr ne) (auto simp: word_order sn)
    with False show ?thesis by (auto simp: memmove_def)
  qed
qed

theorem memmove_overlap_witness:
  "memmove (\<lambda>a. ucast a) 2 0 4 = mwr (\<lambda>a. ucast a) 2 [0, 1, 2, 3]"
  using memmove_overlap[of 0 4 2 "\<lambda>a. ucast a"] by (simp add: mrd_def upt_rec)

section \<open>Comparing and copying strings\<close>

text \<open>The string of at most \<open>n\<close> bytes behind a pointer.\<close>

definition cut :: "(nat \<Rightarrow> u8) \<Rightarrow> nat \<Rightarrow> u8 list" where
  "cut p n = takeWhile (\<lambda>b. b \<noteq> 0) (map p [0..<n])"

lemma uint_diff_0: "uint a - uint b = 0 \<longleftrightarrow> a = (b :: u8)"
  by (simp add: word_uint_eq_iff)

lemma upt_Suc_left: "[i..<i + Suc n] = i # [Suc i..<Suc i + n]"
  by (simp add: upt_conv_Cons del: upt_Suc)

lemma strncmp_loop_0:
  "strncmp_loop p q i n = 0 \<longleftrightarrow>
     takeWhile (\<lambda>b. b \<noteq> 0) (map p [i..<i + n]) = takeWhile (\<lambda>b. b \<noteq> 0) (map q [i..<i + n])"
proof (induction n arbitrary: i)
  case (Suc n)
  show ?case using Suc.IH[of "Suc i"] unfolding upt_Suc_left
    by (auto simp: word_uint_eq_iff simp del: upt_Suc)
qed simp

lemma strncmp_cut: "strncmp p q n = 0 \<longleftrightarrow> cut p (unat n) = cut q (unat n)"
  using strncmp_loop_0[of p q 0 "unat n"] by (simp add: strncmp_def cut_def)

lemma length_strncpy_loop [simp]: "length (strncpy_loop t i n) = n"
  by (induction t i n rule: strncpy_loop.induct) auto

lemma length_strncpy [simp]: "length (strncpy t n) = nat n"
  by (simp add: strncpy_def)

lemma strncpy_loop_cut:
  "takeWhile (\<lambda>b. b \<noteq> 0) (strncpy_loop t i n) = takeWhile (\<lambda>b. b \<noteq> 0) (map t [i..<i + n])"
proof (induction n arbitrary: i)
  case (Suc n)
  show ?case using Suc.IH[of "Suc i"] unfolding upt_Suc_left by (simp del: upt_Suc)
qed simp

lemma map_arr: "length bs = n \<Longrightarrow> map (arr bs) [0..<n] = bs"
  by (rule nth_equalityI) (auto simp: arr_def)

lemma cut_strncpy: "cut (arr (strncpy t (int n))) n = cut t n"
  using strncpy_loop_cut[of t 0 n] map_arr[of "strncpy t (int n)" n] by (simp add: cut_def strncpy_def)

text \<open>
  A name copied with \<open>strncpy\<close> compares like the name: for every bound and every string,
  \<open>strncmp\<close> of the copy with another string is zero exactly when \<open>strncmp\<close> of the original is,
  so a directory entry written with one is found again with the other.
\<close>

theorem strncpy_strncmp:
  "strncmp (arr (strncpy t (uint n))) u n = 0 \<longleftrightarrow> strncmp t u n = 0"
  using cut_strncpy[of t "unat n"] by (simp add: strncmp_cut)

lemma strlen_loop_Some: "strlen_loop s i = Some k \<Longrightarrow> i \<le> k \<and> s k = 0 \<and> (\<forall>j. i \<le> j \<longrightarrow> j < k \<longrightarrow> s j \<noteq> 0)"
proof (induction rule: strlen_loop.raw_induct[rotated 1, consumes 1])
  case (1 f s i k)
  show ?case
  proof (cases "s i = 0")
    case False
    with 1 have "Suc i \<le> k" "s k = 0" "\<forall>j. Suc i \<le> j \<longrightarrow> j < k \<longrightarrow> s j \<noteq> 0" by auto
    moreover have "s j \<noteq> 0" if "i \<le> j" "j < k" for j
      using calculation(3) False that by (cases "j = i") auto
    ultimately show ?thesis by simp
  qed (use 1 in simp)
qed

lemma strlen_loop_run: "s k = 0 \<Longrightarrow> i \<le> k \<Longrightarrow> (\<forall>j. i \<le> j \<longrightarrow> j < k \<longrightarrow> s j \<noteq> 0) \<Longrightarrow> strlen_loop s i = Some k"
proof (induction "k - i" arbitrary: i)
  case 0
  then show ?case by (simp add: strlen_loop.simps)
next
  case (Suc d)
  then have "s i \<noteq> 0" "strlen_loop s (Suc i) = Some k" by simp_all
  then show ?case by (simp add: strlen_loop.simps[of s i])
qed

lemma strlen_iff: "strlen s = Some k \<longleftrightarrow> s k = 0 \<and> (\<forall>j < k. s j \<noteq> 0)"
  unfolding strlen_def using strlen_loop_Some[of s 0 k] strlen_loop_run[of s k 0] by blast

lemma safestrcpy_loop_facts:
  "length (safestrcpy_loop t i n) \<le> Suc n \<and> 0 \<in> set (safestrcpy_loop t i n) \<and>
   takeWhile (\<lambda>b. b \<noteq> 0) (safestrcpy_loop t i n) = takeWhile (\<lambda>b. b \<noteq> 0) (map t [i..<i + n])"
proof (induction n arbitrary: i)
  case (Suc n)
  show ?case using Suc.IH[of "Suc i"] unfolding upt_Suc_left by (simp del: upt_Suc)
qed simp

text \<open>
  \<open>safestrcpy\<close> always leaves a terminated string inside its \<open>n\<close> bytes, which is the source
  cut to \<open>n - 1\<close> bytes.
\<close>

theorem safestrcpy_terminated:
  assumes "0 < n"
  shows "length (safestrcpy t n) \<le> nat n \<and> 0 \<in> set (safestrcpy t n) \<and>
    takeWhile (\<lambda>b. b \<noteq> 0) (safestrcpy t n) = cut t (nat (n - 1))"
  using safestrcpy_loop_facts[of t 0 "nat (n - 1)"] assms by (auto simp: safestrcpy_def cut_def)

theorem safestrcpy_terminated_witness:
  "(0 :: int) < 3 \<and> length (safestrcpy (\<lambda>_. 65) 3) \<le> 3 \<and> 0 \<in> set (safestrcpy (\<lambda>_. 65) 3)"
  using safestrcpy_terminated[of 3 "\<lambda>_. 65"] by simp

end
