(* ===== verification/Kalloc.thy ===== *)
theory Kalloc
  imports Proc Strings
begin

text \<open>
  \<^verbatim>\<open>kalloc.c\<close>: the allocator of 4096-byte pages. Its free list is threaded through the free
  pages themselves, the first word of each holding the address of the next; the model keeps it
  there, in the byte memory \<open>mem\<close> of the machine, and relates it to a list of pages.
\<close>

section \<open>State and operations\<close>

text \<open>
  \<open>kend\<close> and \<open>kdata\<close> are the linker's symbols \<open>end\<close>, the first address after the loaded
  kernel, and \<open>data\<close>, the start of its data segment.
\<close>

record memst = procst +
  mem :: memory
  freelist :: u32
  use_lock :: bool
  kend :: u32
  kdata :: u32

definition upd_mem :: "(memory \<Rightarrow> memory) \<Rightarrow> (unit, 'z memst_scheme) kmon" where
  "upd_mem f = modify (\<lambda>s. s\<lparr>mem := f (mem s)\<rparr>)"

definition kmem_lock :: "(unit, 'z memst_scheme) kmon" where
  "kmem_lock s = (if use_lock s then acquire Lkmem s else Ret () s)"

definition kmem_unlock :: "(unit, 'z memst_scheme) kmon" where
  "kmem_unlock s = (if use_lock s then release Lkmem s else Ret () s)"

definition kfree :: "u32 \<Rightarrow> (unit, 'z memst_scheme) kmon" where
  "kfree v =
     thn (assert_or ''kfree'' (\<lambda>s. \<not> (v mod PGSIZE \<noteq> 0 \<or> v < kend s \<or> v2p v \<ge> PHYSTOP)))
     (thn (upd_mem (\<lambda>m. memset m v 1 PGSIZE))
     (thn kmem_lock
     (thn (modify (\<lambda>s. s\<lparr>mem := mwr32 (mem s) v (freelist s)\<rparr>))
     (thn (modify (\<lambda>s. s\<lparr>freelist := v\<rparr>))
     kmem_unlock))))"

definition kalloc :: "(u32, 'z memst_scheme) kmon" where
  "kalloc =
     thn kmem_lock
     (bnd (gets freelist) (\<lambda>r.
      thn (if r \<noteq> 0 then modify (\<lambda>s. s\<lparr>freelist := mrd32 (mem s) r\<rparr>) else skip)
     (thn kmem_unlock
     (ret r))))"

text \<open>
  \<open>freerange\<close> steps \<open>p\<close> by a page while \<open>p + PGSIZE \<le> vend\<close>; the number of steps is
  bounded by the number of pages between the two addresses, so the loop is a list of pages.
\<close>

fun range_pages :: "nat \<Rightarrow> u32 \<Rightarrow> u32 \<Rightarrow> u32 list" where
  "range_pages 0 p vend = []"
| "range_pages (Suc n) p vend =
     (if p + PGSIZE \<le> vend then p # range_pages n (p + PGSIZE) vend else [])"

definition freerange :: "u32 \<Rightarrow> u32 \<Rightarrow> (unit, 'z memst_scheme) kmon" where
  "freerange vstart vend = forM (range_pages 1048576 (PGROUNDUP vstart) vend) kfree"

definition kinit1 :: "u32 \<Rightarrow> u32 \<Rightarrow> (unit, 'z memst_scheme) kmon" where
  "kinit1 vstart vend =
     thn (modify (upd_lock Lkmem (initlock (LkStr ''kmem''))))
     (thn (modify (\<lambda>s. s\<lparr>use_lock := False\<rparr>))
     (freerange vstart vend))"

definition kinit2 :: "u32 \<Rightarrow> u32 \<Rightarrow> (unit, 'z memst_scheme) kmon" where
  "kinit2 vstart vend =
     thn (freerange vstart vend)
     (modify (\<lambda>s. s\<lparr>use_lock := True\<rparr>))"

section \<open>Memory fields and locks\<close>

lemma memst_acq [simp]:
  "mem (acq l s) = mem s" "freelist (acq l s) = freelist s" "use_lock (acq l s) = use_lock s"
  "kend (acq l s) = kend s" "mem (rel l s) = mem s" "freelist (rel l s) = freelist s"
  "use_lock (rel l s) = use_lock s" "kend (rel l s) = kend s" "kdata (acq l s) = kdata s" "kdata (rel l s) = kdata s"
  by (simp_all add: acq_def rel_def)

lemma memst_upd_locks [simp]:
  "lk_free l (s\<lparr>mem := x\<rparr>) = lk_free l s" "lk_held l (s\<lparr>mem := x\<rparr>) = lk_held l s"
  "holding l (s\<lparr>mem := x\<rparr>) = holding l s" "cli_ok (s\<lparr>mem := x\<rparr>) = cli_ok s"
  "the_cpu (s\<lparr>mem := x\<rparr>) = the_cpu s"
  "lk_free l (s\<lparr>freelist := n\<rparr>) = lk_free l s" "lk_held l (s\<lparr>freelist := n\<rparr>) = lk_held l s"
  "holding l (s\<lparr>freelist := n\<rparr>) = holding l s" "cli_ok (s\<lparr>freelist := n\<rparr>) = cli_ok s"
  "the_cpu (s\<lparr>freelist := n\<rparr>) = the_cpu s"
  by (simp_all add: lk_defs)

lemma memst_upd_acq [simp]:
  "acq l (s\<lparr>mem := x\<rparr>) = (acq l s)\<lparr>mem := x\<rparr>" "rel l (s\<lparr>mem := x\<rparr>) = (rel l s)\<lparr>mem := x\<rparr>"
  "acq l (s\<lparr>freelist := n\<rparr>) = (acq l s)\<lparr>freelist := n\<rparr>"
  "rel l (s\<lparr>freelist := n\<rparr>) = (rel l s)\<lparr>freelist := n\<rparr>"
  by (simp_all add: acq_def rel_def)

section \<open>The free list\<close>

fun flist :: "memory \<Rightarrow> u32 \<Rightarrow> u32 list \<Rightarrow> bool" where
  "flist m r [] \<longleftrightarrow> r = 0"
| "flist m r (x # xs) \<longleftrightarrow> r = x \<and> x \<noteq> 0 \<and> flist m (mrd32 m x) xs"

text \<open>The pages the allocator may hold, and the disjointness of two of them.\<close>

definition is_page :: "u32 \<Rightarrow> 'z memst_scheme \<Rightarrow> bool" where
  "is_page v s \<longleftrightarrow> page_aligned v \<and> kend s \<le> v \<and> v2p v < PHYSTOP \<and> v \<noteq> 0"

lemma page_off:
  assumes "page_aligned a" "i < 4096"
  shows "unat (a + of_nat i :: u32) = unat a + i" "unat (a + of_nat i) div 4096 = unat a div 4096"
proof -
  have "4096 dvd unat a" using assms(1) by (simp add: page_aligned_iff mod_eq_0_iff_dvd)
  then obtain q where q: "unat a = 4096 * q" ..
  then have "q < 1048576" using unat_lt32[of a] by simp
  then have "unat a + i < 4294967296" using q assms(2) by simp
  then show "unat (a + of_nat i) = unat a + i" by (rule unat_plus)
  with q assms(2) show "unat (a + of_nat i) div 4096 = unat a div 4096" by simp
qed

lemma pages_apart:
  assumes "page_aligned a" "page_aligned b" "a \<noteq> b"
  shows "apart a 4096 b 4096"
proof -
  have "unat a div 4096 \<noteq> unat b div 4096"
  proof
    assume "unat a div 4096 = unat b div 4096"
    moreover have "unat a mod 4096 = 0" "unat b mod 4096 = 0" using assms by (simp_all add: page_aligned_iff)
    ultimately have "unat a = unat b" by (metis div_mult_mod_eq)
    with assms(3) show False by (simp add: word_unat_eq_iff)
  qed
  then show ?thesis unfolding apart_def using page_off(2)[OF assms(1)] page_off(2)[OF assms(2)] by metis
qed

lemma flist_cong: "flist m r xs \<Longrightarrow> (\<And>x. x \<in> set xs \<Longrightarrow> mrd32 m' x = mrd32 m x) \<Longrightarrow> flist m' r xs"
  by (induction m r xs rule: flist.induct) auto

text \<open>
  The state of the allocator: the list in memory is \<open>xs\<close>, of distinct pages, and the lock can
  be taken.
\<close>

definition kmem_ok :: "u32 list \<Rightarrow> 'z memst_scheme \<Rightarrow> bool" where
  "kmem_ok xs s \<longleftrightarrow> flist (mem s) (freelist s) xs \<and> distinct xs \<and> (\<forall>x \<in> set xs. is_page x s) \<and>
     (use_lock s \<longrightarrow> lk_free Lkmem s) \<and> cli_ok s"

text \<open>The state after the lock has been taken and dropped once.\<close>

definition crit_kmem :: "'z memst_scheme \<Rightarrow> 'z memst_scheme" where
  "crit_kmem s = (if use_lock s then rel Lkmem (acq Lkmem s) else s)"

lemma crit_kmem_fields [simp]:
  "mem (crit_kmem s) = mem s" "freelist (crit_kmem s) = freelist s" "use_lock (crit_kmem s) = use_lock s"
  "kend (crit_kmem s) = kend s" "kdata (crit_kmem s) = kdata s" "ptable (crit_kmem s) = ptable s"
  "cli_ok s \<Longrightarrow> cli_ok (crit_kmem s)" "l \<noteq> Lkmem \<Longrightarrow> lk_free l (crit_kmem s) = lk_free l s"
  "(use_lock s \<Longrightarrow> lk_free Lkmem s) \<Longrightarrow> use_lock s \<longrightarrow> lk_free Lkmem (crit_kmem s)"
  "cpu_proc (the_cpu (crit_kmem s)) = cpu_proc (the_cpu s)" "mycpu (crit_kmem s) = mycpu s"
  by (simp_all add: crit_kmem_def)

lemma kfree_Ret:
  assumes "is_page v s" "use_lock s \<longrightarrow> lk_free Lkmem s" "cli_ok s"
  shows "kfree v s = Ret () ((crit_kmem s)\<lparr>mem := mwr32 (memset (mem s) v 1 PGSIZE) v (freelist s),
     freelist := v\<rparr>)"
  using assms
  by (auto simp: kfree_def kmem_lock_def kmem_unlock_def upd_mem_def mon_defs is_page_def page_aligned_def
      not_less not_le acquire_free release_held crit_kmem_def)

lemma kalloc_Ret:
  assumes "use_lock s \<longrightarrow> lk_free Lkmem s" "cli_ok s"
  shows "kalloc s = Ret (freelist s) (if freelist s = 0 then crit_kmem s
     else (crit_kmem s)\<lparr>freelist := mrd32 (mem s) (freelist s)\<rparr>)"
  using assms
  by (auto simp: kalloc_def kmem_lock_def kmem_unlock_def mon_defs acquire_free release_held crit_kmem_def)

lemma kfree_keeps_page:
  assumes "page_aligned v" "page_aligned x" "x \<noteq> v"
  shows "mrd (mwr32 (memset m v 1 PGSIZE) v w) x 4096 = mrd m x 4096"
proof -
  have "apart x 4096 v 4096" using assms by (intro pages_apart)
  then have "apart x 4096 v 4" by (rule apart_mono) auto
  with \<open>apart x 4096 v 4096\<close> show ?thesis by (simp add: mwr32_def memset_mwr mrd_mwr_apart)
qed

lemma mrd_prefix: "mrd m a n = mrd m' a n \<Longrightarrow> k \<le> n \<Longrightarrow> mrd m a k = mrd m' a k"
  by (auto simp: mrd_def map_eq_conv)

lemma mrd32_page: "mrd m a 4096 = mrd m' a 4096 \<Longrightarrow> mrd32 m a = mrd32 m' a"
  unfolding mrd32_def using mrd_prefix[of m a 4096 m' 4] by simp

lemma kfree_ok:
  assumes "kmem_ok xs s" "is_page v s" "v \<notin> set xs"
  shows "\<exists>t. kfree v s = Ret () t \<and> kmem_ok (v # xs) t \<and> (\<forall>x. is_page x t = is_page x s) \<and>
    (\<forall>x. page_aligned x \<longrightarrow> x \<noteq> v \<longrightarrow> mrd (mem t) x 4096 = mrd (mem s) x 4096)"
proof -
  let ?m = "mwr32 (memset (mem s) v 1 PGSIZE) v (freelist s)"
  let ?t = "(crit_kmem s)\<lparr>mem := ?m, freelist := v\<rparr>"
  have other: "mrd ?m x 4096 = mrd (mem s) x 4096" if "page_aligned x" "x \<noteq> v" for x
    using that assms(2) by (intro kfree_keeps_page) (auto simp: is_page_def)
  have "flist ?m (freelist s) xs"
    by (rule flist_cong[of "mem s"])
      (use assms other in \<open>auto simp: kmem_ok_def is_page_def intro!: mrd32_page\<close>)
  moreover have "is_page x ?t = is_page x s" for x by (simp add: is_page_def)
  ultimately have "kmem_ok (v # xs) ?t" using assms
    by (auto simp: kmem_ok_def is_page_def)
  with assms other show ?thesis by (auto simp: kmem_ok_def kfree_Ret is_page_def)
qed

lemma kalloc_ok:
  assumes "kmem_ok xs s"
  shows "\<exists>t. kalloc s = Ret (case xs of [] \<Rightarrow> 0 | x # _ \<Rightarrow> x) t \<and> kmem_ok (tl xs) t \<and> mem t = mem s \<and>
    (\<forall>x. is_page x t = is_page x s)"
  using assms by (cases xs) (auto simp: kmem_ok_def kalloc_Ret is_page_def)

section \<open>The interface of the allocator\<close>

text \<open>
  What a client of the allocator relies on: \<open>pages\<close> are the free pages of a state, \<open>valid\<close> the
  addresses that may be freed, and \<open>peek\<close> the contents of a page.
\<close>

locale page_allocator =
  fixes alloc :: "(u32, 's) kmon" and free :: "u32 \<Rightarrow> (unit, 's) kmon"
    and ok :: "'s \<Rightarrow> bool" and pages :: "'s \<Rightarrow> u32 set" and valid :: "u32 \<Rightarrow> 's \<Rightarrow> bool"
    and peek :: "'s \<Rightarrow> u32 \<Rightarrow> u8 list"
  assumes alloc_some: "ok s \<Longrightarrow> pages s \<noteq> {} \<Longrightarrow>
      \<exists>r t. alloc s = Ret r t \<and> ok t \<and> r \<in> pages s \<and> pages t = pages s - {r} \<and>
        (\<forall>x. valid x t = valid x s) \<and> peek t = peek s"
    and alloc_none: "ok s \<Longrightarrow> pages s = {} \<Longrightarrow> \<exists>t. alloc s = Ret 0 t \<and> ok t \<and> pages t = {}"
    and free_page: "ok s \<Longrightarrow> valid v s \<Longrightarrow> v \<notin> pages s \<Longrightarrow>
      \<exists>t. free v s = Ret () t \<and> ok t \<and> pages t = insert v (pages s) \<and> (\<forall>x. valid x t = valid x s) \<and>
        (\<forall>x. valid x s \<longrightarrow> x \<noteq> v \<longrightarrow> peek t x = peek s x)"
    and pages_valid: "ok s \<Longrightarrow> x \<in> pages s \<Longrightarrow> valid x s \<and> x \<noteq> 0"
begin

lemma alloc_fresh:
  assumes "ok s" "alloc s = Ret a t" "a \<noteq> 0" "alloc t = Ret b u" "b \<noteq> 0"
  shows "a \<noteq> b"
proof -
  have "pages s \<noteq> {}" using assms(1-3) alloc_none by fastforce
  with assms(1,2) alloc_some have t: "ok t" "pages t = pages s - {a}" by fastforce+
  then have "pages t \<noteq> {}" using assms(4,5) alloc_none by fastforce
  with t assms(4) alloc_some have "b \<in> pages t" by fastforce
  with t show ?thesis by auto
qed

lemma alloc_free:
  assumes "ok s" "alloc s = Ret a t" "a \<noteq> 0"
  shows "\<exists>u. free a t = Ret () u \<and> ok u \<and> pages u = pages s"
proof -
  have "pages s \<noteq> {}" using assms alloc_none by fastforce
  with assms(1,2) alloc_some have t: "ok t" "a \<in> pages s" "pages t = pages s - {a}" "valid a t"
    using pages_valid by fastforce+
  with free_page[of t a] show ?thesis by auto
qed

lemma free_all:
  assumes "ok s" "distinct vs" "\<And>v. v \<in> set vs \<Longrightarrow> valid v s \<and> v \<notin> pages s"
  shows "\<exists>t. forM vs free s = Ret () t \<and> ok t \<and> pages t = pages s \<union> set vs \<and> (\<forall>x. valid x t = valid x s) \<and>
    (\<forall>x. valid x s \<longrightarrow> x \<notin> set vs \<longrightarrow> peek t x = peek s x)"
  using assms
proof (induction vs arbitrary: s)
  case (Cons v vs)
  then obtain t where t: "free v s = Ret () t" "ok t" "pages t = insert v (pages s)"
    "\<forall>x. valid x t = valid x s" "\<forall>x. valid x s \<longrightarrow> x \<noteq> v \<longrightarrow> peek t x = peek s x"
    using free_page[of s v] by auto
  have "valid w t \<and> w \<notin> pages t" if "w \<in> set vs" for w using Cons.prems t that by auto
  with Cons.prems Cons.IH[of t] t obtain u where "forM vs free t = Ret () u" "ok u"
    "pages u = pages t \<union> set vs" "\<forall>x. valid x u = valid x t"
    "\<forall>x. valid x t \<longrightarrow> x \<notin> set vs \<longrightarrow> peek u x = peek t x" by auto
  with t show ?case by (intro exI[of _ u]) (auto simp: mon_defs)
qed (simp add: mon_defs)

end

definition free_pages :: "'z memst_scheme \<Rightarrow> u32 set" where
  "free_pages s = {x. \<exists>xs. flist (mem s) (freelist s) xs \<and> x \<in> set xs}"

definition alloc_ok :: "'z memst_scheme \<Rightarrow> bool" where
  "alloc_ok s \<longleftrightarrow> (\<exists>xs. kmem_ok xs s)"

definition page_bytes :: "'z memst_scheme \<Rightarrow> u32 \<Rightarrow> u8 list" where
  "page_bytes s x = mrd (mem s) x 4096"

lemma flist_unique: "flist m r xs \<Longrightarrow> flist m r ys \<Longrightarrow> xs = ys"
proof (induction m r xs arbitrary: ys rule: flist.induct)
  case (1 m r)
  then show ?case by (cases ys) auto
next
  case (2 m r x xs)
  then show ?case by (cases ys) auto
qed

lemma free_pages_list: "kmem_ok xs s \<Longrightarrow> free_pages s = set xs"
  by (auto simp: free_pages_def kmem_ok_def dest: flist_unique)

interpretation ka: page_allocator kalloc kfree alloc_ok free_pages is_page page_bytes
proof
  fix s :: "'a memst_scheme" and v x
  show "\<exists>r t. kalloc s = Ret r t \<and> alloc_ok t \<and> r \<in> free_pages s \<and> free_pages t = free_pages s - {r} \<and>
      (\<forall>x. is_page x t = is_page x s) \<and> page_bytes t = page_bytes s"
    if ok: "alloc_ok s" and ne: "free_pages s \<noteq> {}"
  proof -
    from ok obtain xs where xs: "kmem_ok xs s" by (auto simp: alloc_ok_def)
    with ne obtain y ys where "xs = y # ys" using free_pages_list[OF xs] by (cases xs) auto
    with kalloc_ok[OF xs] obtain t where t: "kalloc s = Ret y t" "kmem_ok ys t" "mem t = mem s"
      "\<forall>x. is_page x t = is_page x s" by auto
    moreover have "y \<notin> set ys" using xs \<open>xs = y # ys\<close> by (simp add: kmem_ok_def)
    ultimately show ?thesis using free_pages_list[OF xs] free_pages_list[OF t(2)] \<open>xs = y # ys\<close>
      by (auto simp: alloc_ok_def page_bytes_def)
  qed
  show "\<exists>t. kalloc s = Ret 0 t \<and> alloc_ok t \<and> free_pages t = {}" if "alloc_ok s" "free_pages s = {}"
    using that kalloc_ok[of "[]" s] free_pages_list by (fastforce simp: alloc_ok_def)
  show "\<exists>t. kfree v s = Ret () t \<and> alloc_ok t \<and> free_pages t = insert v (free_pages s) \<and>
      (\<forall>x. is_page x t = is_page x s) \<and> (\<forall>x. is_page x s \<longrightarrow> x \<noteq> v \<longrightarrow> page_bytes t x = page_bytes s x)"
    if ok: "alloc_ok s" and v: "is_page v s" "v \<notin> free_pages s"
  proof -
    from ok obtain xs where xs: "kmem_ok xs s" by (auto simp: alloc_ok_def)
    have "v \<notin> set xs" using v(2) free_pages_list[OF xs] by simp
    from kfree_ok[OF xs v(1) this] obtain t where "kfree v s = Ret () t" "kmem_ok (v # xs) t"
      "\<forall>x. is_page x t = is_page x s"
      "\<forall>x. page_aligned x \<longrightarrow> x \<noteq> v \<longrightarrow> mrd (mem t) x 4096 = mrd (mem s) x 4096" by blast
    with free_pages_list[OF xs] free_pages_list[of "v # xs" t] show ?thesis
      by (auto simp: alloc_ok_def page_bytes_def is_page_def)
  qed
  show "is_page x s \<and> x \<noteq> 0" if "alloc_ok s" "x \<in> free_pages s"
    using that free_pages_list by (fastforce simp: alloc_ok_def kmem_ok_def is_page_def)
qed

section \<open>Properties\<close>

text \<open>
  C5. The list threaded through the free pages behaves as a stack of pages: \<open>kalloc\<close> takes its
  head and leaves all memory as it was, or returns 0 when it is empty; \<open>kfree\<close> of a page that is
  not on it pushes the page and changes the contents of no other page.
\<close>

theorem kalloc_kfree_refine:
  assumes "kmem_ok xs s"
  shows "(\<exists>t. kalloc s = Ret (case xs of [] \<Rightarrow> 0 | x # _ \<Rightarrow> x) t \<and> kmem_ok (tl xs) t \<and> mem t = mem s) \<and>
    (\<forall>v. is_page v s \<longrightarrow> v \<notin> set xs \<longrightarrow> (\<exists>t. kfree v s = Ret () t \<and> kmem_ok (v # xs) t \<and>
       (\<forall>x. page_aligned x \<longrightarrow> x \<noteq> v \<longrightarrow> mrd (mem t) x 4096 = mrd (mem s) x 4096)))"
  using kalloc_ok[OF assms] kfree_ok[OF assms] by blast

lemma PGROUNDUP_facts:
  assumes "unat a < 4294963200"
  shows "page_aligned (PGROUNDUP a)" "unat (PGROUNDUP a) = 4096 * ((unat a + 4095) div 4096)"
proof -
  have r: "PGROUNDUP a = PTE_ADDR (a + 0xFFF)" by (simp add: PGROUNDUP_def PTE_ADDR_def algebra_simps)
  have "unat (a + 0xFFF) = unat a + 4095" using unat_plus[of a 4095] assms by simp
  then show u: "unat (PGROUNDUP a) = 4096 * ((unat a + 4095) div 4096)" by (simp add: r unat_PTE_ADDR)
  then show "page_aligned (PGROUNDUP a)" by (simp add: page_aligned_iff)
qed

lemma unat_v2p: "0x80000000 \<le> unat v \<Longrightarrow> unat (v2p v) = unat v - 0x80000000"
  using unat_sub[of KERNBASE v] by (simp add: v2p_def word_le_nat_alt)

lemma unat_add_page: "unat p + 4096 < 4294967296 \<Longrightarrow> unat (p + PGSIZE) = unat p + 4096"
  using unat_plus[of p 4096] by simp

lemma set_range_pages:
  assumes "page_aligned p" "unat vend + 8192 < 4294967296" "unat vend \<le> unat p + 4096 * n"
    "unat p \<le> unat vend + 4096"
  shows "set (range_pages n p vend) = {q. page_aligned q \<and> unat p \<le> unat q \<and> unat q + 4096 \<le> unat vend} \<and>
    distinct (range_pages n p vend)"
  using assms
proof (induction n arbitrary: p)
  case (Suc n)
  show ?case
  proof (cases "unat p + 4096 \<le> unat vend")
    case True
    have up: "unat (p + PGSIZE) = unat p + 4096" using True Suc.prems by (intro unat_add_page) simp
    have al: "page_aligned (p + PGSIZE)" using Suc.prems(1) up by (simp add: page_aligned_iff)
    have IH: "set (range_pages n (p + PGSIZE) vend) = {q. page_aligned q \<and> unat (p + PGSIZE) \<le> unat q \<and>
        unat q + 4096 \<le> unat vend}" "distinct (range_pages n (p + PGSIZE) vend)"
      using Suc.IH[OF al] Suc.prems up True by simp_all
    have "unat p + 4096 \<le> unat q" if "page_aligned q" "unat p \<le> unat q" "q \<noteq> p" for q
    proof -
      from that Suc.prems(1) obtain a b where ab: "unat p = 4096 * a" "unat q = 4096 * b"
        unfolding page_aligned_iff by (metis mod_0_imp_dvd dvdE)
      with that have "a < b" by (metis le_less mult_le_cancel1 not_le word_unat_eq_iff zero_less_numeral)
      with ab show ?thesis by simp
    qed
    with True IH up Suc.prems(1) show ?thesis
      by (auto simp: word_le_nat_alt)
  next
    case False
    moreover have "\<not> p + PGSIZE \<le> vend"
      using False Suc.prems unat_add_page[of p] unat_lt32[of "p + PGSIZE"] by (auto simp: word_le_nat_alt)
    ultimately show ?thesis by auto
  qed
qed auto

text \<open>
  C39. Handing a range of memory to the allocator: \<open>freerange\<close> ends and makes exactly the whole
  pages between its two addresses free, besides those that were, and every other page keeps its
  contents.
\<close>

theorem freerange_frees:
  assumes "alloc_ok s" and "kend s \<le> vstart" and "KERNBASE \<le> kend s" and "vstart \<le> vend" and "vend \<le> p2v PHYSTOP"
    and "\<And>x. x \<in> free_pages s \<Longrightarrow> x < vstart \<or> vend \<le> x"
  shows "\<exists>t. freerange vstart vend s = Ret () t \<and> alloc_ok t \<and>
    free_pages t = free_pages s \<union> {q. page_aligned q \<and> vstart \<le> q \<and> unat q + 4096 \<le> unat vend} \<and>
    (\<forall>x. is_page x s \<longrightarrow> x < vstart \<or> vend \<le> x \<longrightarrow> page_bytes t x = page_bytes s x)"
proof -
  let ?p = "PGROUNDUP vstart" and ?qs = "range_pages 1048576 (PGROUNDUP vstart) vend"
  have b: "unat vend \<le> 0x8E000000" "unat vstart \<le> unat vend" "0x80000000 \<le> unat (kend s)"
    "unat (kend s) \<le> unat vstart" using assms(2-5) by (simp_all add: word_le_nat_alt p2v_def)
  note up = PGROUNDUP_facts[of vstart]
  have ge: "unat ?p \<le> unat q \<longleftrightarrow> unat vstart \<le> unat q" if "page_aligned q" for q
    using that b up(2) by (auto simp: page_aligned_iff)
  have qs: "set ?qs = {q. page_aligned q \<and> vstart \<le> q \<and> unat q + 4096 \<le> unat vend}" "distinct ?qs"
    using set_range_pages[of ?p vend 1048576] up b ge by (auto simp: word_le_nat_alt)
  have "is_page v s \<and> v \<notin> free_pages s" if "v \<in> set ?qs" for v
    using that qs(1) b assms(6)[of v]
    by (auto simp: is_page_def word_le_nat_alt word_less_nat_alt unat_v2p)
  from ka.free_all[OF assms(1) qs(2) this] obtain t where t: "forM ?qs kfree s = Ret () t" "alloc_ok t"
    "free_pages t = free_pages s \<union> set ?qs" "\<forall>x. is_page x s \<longrightarrow> x \<notin> set ?qs \<longrightarrow> page_bytes t x = page_bytes s x"
    by blast
  moreover have "x \<notin> set ?qs" if "x < vstart \<or> vend \<le> x" for x
    using that qs(1) by (auto simp: word_le_nat_alt word_less_nat_alt)
  ultimately show ?thesis using qs by (auto simp: freerange_def)
qed

text \<open>An example: the process table of \<open>procst_ex\<close> with two free pages above a small kernel.\<close>

definition memst_ex :: memst where
  "memst_ex = procst.extend procst_ex (memst.fields
     (mwr32 (mwr32 (\<lambda>_. 0) 0x80202000 0x80201000) 0x80201000 0) 0x80202000 True 0x80200000 0x80108000)"

lemma memst_ex_simps [simp]: "use_lock memst_ex" "kend memst_ex = 0x80200000" "freelist memst_ex = 0x80202000"
  "ptable memst_ex = ptable procst_ex" "lk_free l memst_ex = lk_free l procst_ex"
  "cli_ok memst_ex = cli_ok procst_ex" "runs p memst_ex = runs p procst_ex" "the_cpu memst_ex = the_cpu procst_ex"
  by (simp_all add: memst_ex_def memst.defs procst.defs lk_defs runs_def)

lemma memst_ex_links: "mrd32 (mem memst_ex) 0x80202000 = 0x80201000" "mrd32 (mem memst_ex) 0x80201000 = 0"
proof -
  have "apart 0x80202000 4096 0x80201000 4096" by (rule pages_apart) (simp_all add: page_aligned_def)
  then have "apart 0x80202000 4 0x80201000 4" by (rule apart_mono) auto
  then show "mrd32 (mem memst_ex) 0x80202000 = 0x80201000" "mrd32 (mem memst_ex) 0x80201000 = 0"
    by (simp_all add: memst_ex_def memst.defs procst.defs mrd32_mwr32_apart)
qed

lemma memst_ex_ok: "kmem_ok [0x80202000, 0x80201000] memst_ex"
  using procst_ex_ok memst_ex_links
  by (simp add: kmem_ok_def is_page_def page_aligned_def v2p_def)

theorem kalloc_kfree_refine_witness:
  "kmem_ok [0x80202000, 0x80201000] memst_ex \<and>
   (\<exists>t. kalloc memst_ex = Ret 0x80202000 t \<and> kmem_ok [0x80201000] t)"
  using kalloc_kfree_refine[OF memst_ex_ok] memst_ex_ok by auto

theorem freerange_frees_witness:
  "alloc_ok memst_ex \<and> (\<exists>t. freerange 0x80300001 0x80302000 memst_ex = Ret () t \<and> 0x80301000 \<in> free_pages t)"
proof -
  have ok: "alloc_ok memst_ex" using memst_ex_ok by (auto simp: alloc_ok_def)
  have fp: "free_pages memst_ex = {0x80202000, 0x80201000}" using free_pages_list[OF memst_ex_ok] by simp
  have "x < 0x80300001 \<or> 0x80302000 \<le> x" if "x \<in> free_pages memst_ex" for x using that fp by auto
  from freerange_frees[OF ok _ _ _ _ this] obtain t where
    "freerange 0x80300001 0x80302000 memst_ex = Ret () t"
    "free_pages t = free_pages memst_ex \<union> {q. page_aligned q \<and> 0x80300001 \<le> q \<and> unat q + 4096 \<le> unat (0x80302000 :: u32)}"
    by (auto simp: p2v_def)
  then show ?thesis using ok by (auto simp: page_aligned_def)
qed

end
