(* ===== verification/Vm.thy ===== *)
theory Vm
  imports Kalloc
begin

text \<open>
  \<^verbatim>\<open>vm.c\<close>: two-level page tables, kept in the byte memory as the hardware reads them. A pointer
  to an entry is its address, 0 the null pointer. \<open>loaduvm\<close>, which reads a file, is in the
  theory of \<^verbatim>\<open>exec.c\<close>.
\<close>

section \<open>Walking and extending a page table\<close>

definition rd32 :: "u32 \<Rightarrow> (u32, 'z memst_scheme) kmon" where
  "rd32 a = gets (\<lambda>s. mrd32 (mem s) a)"

definition wr32 :: "u32 \<Rightarrow> u32 \<Rightarrow> (unit, 'z memst_scheme) kmon" where
  "wr32 a v = upd_mem (\<lambda>m. mwr32 m a v)"

definition clear_page :: "u32 \<Rightarrow> (unit, 'z memst_scheme) kmon" where
  "clear_page v = upd_mem (\<lambda>m. memset m v 0 PGSIZE)"

definition walkpgdir :: "u32 \<Rightarrow> u32 \<Rightarrow> bool \<Rightarrow> (u32, 'z memst_scheme) kmon" where
  "walkpgdir pgdir va alloc =
     (let pde = pgdir + 4 * PDX va in
      bnd (rd32 pde) (\<lambda>e.
        if e AND PTE_P \<noteq> 0 then ret (p2v (PTE_ADDR e) + 4 * PTX va)
        else if \<not> alloc then ret 0
        else bnd kalloc (\<lambda>pgtab.
          if pgtab = 0 then ret 0
          else thn (clear_page pgtab)
              (thn (wr32 pde (v2p pgtab OR PTE_P OR PTE_W OR PTE_U))
              (ret (pgtab + 4 * PTX va))))))"

text \<open>
  The loop of \<open>mappages\<close> from page \<open>a\<close> to page \<open>lastp\<close>. Both are page-aligned, so that it
  takes at most \<open>2 ^ 20\<close> steps, which is the fuel; a loop that ran longer would not end.
\<close>

fun mappages_loop :: "u32 \<Rightarrow> nat \<Rightarrow> u32 \<Rightarrow> u32 \<Rightarrow> u32 \<Rightarrow> u32 \<Rightarrow> (int, 'z memst_scheme) kmon" where
  "mappages_loop pgdir 0 a lastp pa kperm = (\<lambda>s. Spn)"
| "mappages_loop pgdir (Suc fuel) a lastp pa perm =
     bnd (walkpgdir pgdir a True) (\<lambda>pte.
       if pte = 0 then ret (-1)
       else bnd (rd32 pte) (\<lambda>e.
         if e AND PTE_P \<noteq> 0 then panic ''remap''
         else thn (wr32 pte (pa OR perm OR PTE_P))
             (if a = lastp then ret 0
              else mappages_loop pgdir fuel (a + PGSIZE) lastp (pa + PGSIZE) perm)))"

abbreviation (input) PAGES :: nat where "PAGES \<equiv> 1048576"

definition mappages :: "u32 \<Rightarrow> u32 \<Rightarrow> u32 \<Rightarrow> u32 \<Rightarrow> u32 \<Rightarrow> (int, 'z memst_scheme) kmon" where
  "mappages pgdir va sz pa perm =
     mappages_loop pgdir PAGES (PGROUNDDOWN va) (PGROUNDDOWN (va + sz - 1)) pa perm"

text \<open>The rows of the table \<open>kmap\<close>: virtual start, physical start and end, permissions.\<close>

record kmap_row =
  virt :: u32
  phys_start :: u32
  phys_end :: u32
  kperm :: u32

definition kmap :: "u32 \<Rightarrow> kmap_row list" where
  "kmap data =
     [\<lparr>virt = KERNBASE, phys_start = 0, phys_end = EXTMEM, kperm = PTE_W\<rparr>,
      \<lparr>virt = KERNLINK, phys_start = v2p KERNLINK, phys_end = v2p data, kperm = 0\<rparr>,
      \<lparr>virt = data, phys_start = v2p data, phys_end = PHYSTOP, kperm = PTE_W\<rparr>,
      \<lparr>virt = DEVSPACE, phys_start = DEVSPACE, phys_end = 0, kperm = PTE_W\<rparr>]"

fun map_rows :: "u32 \<Rightarrow> kmap_row list \<Rightarrow> (u32, 'z memst_scheme) kmon" where
  "map_rows pgdir [] = ret pgdir"
| "map_rows pgdir (k # ks) =
     bnd (mappages pgdir (virt k) (phys_end k - phys_start k) (phys_start k) (kperm k)) (\<lambda>r.
       if r < 0 then ret 0 else map_rows pgdir ks)"

definition setupkvm :: "(u32, 'z memst_scheme) kmon" where
  "setupkvm =
     bnd kalloc (\<lambda>pgdir.
       if pgdir = 0 then ret 0
       else thn (clear_page pgdir)
           (if p2v PHYSTOP > DEVSPACE then panic ''PHYSTOP too high''
            else bnd (gets kdata) (\<lambda>d. map_rows pgdir (kmap d))))"

definition kvmalloc :: "(unit, 'z memst_scheme) kmon" where
  "kvmalloc =
     bnd setupkvm (\<lambda>d.
     thn (modify (\<lambda>s. s\<lparr>kpgdir := d\<rparr>)) switchkvm)"

section \<open>User memory\<close>

text \<open>\<open>init\<close> are the bytes of the first program, which the linker places in the kernel.\<close>

definition inituvm :: "u32 \<Rightarrow> u8 list \<Rightarrow> (unit, 'z memst_scheme) kmon" where
  "inituvm pgdir init =
     (if length init \<ge> 4096 then panic ''inituvm: more than a page''
      else bnd kalloc (\<lambda>m.
           thn (clear_page m)
           (thn (mappages pgdir 0 PGSIZE (v2p m) (PTE_W OR PTE_U))
           (upd_mem (\<lambda>x. mwr x m init)))))"

fun deallocuvm_loop :: "u32 \<Rightarrow> nat \<Rightarrow> u32 \<Rightarrow> u32 \<Rightarrow> (unit, 'z memst_scheme) kmon" where
  "deallocuvm_loop pgdir 0 a oldsz = (\<lambda>s. Spn)"
| "deallocuvm_loop pgdir (Suc fuel) a oldsz =
     (if a < oldsz then
        bnd (walkpgdir pgdir a False) (\<lambda>pte.
          if pte = 0 then deallocuvm_loop pgdir fuel (a + (NPTENTRIES - 1) * PGSIZE + PGSIZE) oldsz
          else bnd (rd32 pte) (\<lambda>e.
            thn (if e AND PTE_P \<noteq> 0 then
                   (if PTE_ADDR e = 0 then panic ''kfree''
                    else thn (kfree (p2v (PTE_ADDR e))) (wr32 pte 0))
                 else skip)
            (deallocuvm_loop pgdir fuel (a + PGSIZE) oldsz)))
      else skip)"

definition deallocuvm :: "u32 \<Rightarrow> u32 \<Rightarrow> u32 \<Rightarrow> (u32, 'z memst_scheme) kmon" where
  "deallocuvm pgdir oldsz newsz =
     (if newsz \<ge> oldsz then ret oldsz
      else thn (deallocuvm_loop pgdir PAGES (PGROUNDUP newsz) oldsz) (ret newsz))"

fun allocuvm_loop :: "u32 \<Rightarrow> nat \<Rightarrow> u32 \<Rightarrow> u32 \<Rightarrow> u32 \<Rightarrow> (u32, 'z memst_scheme) kmon" where
  "allocuvm_loop pgdir 0 a oldsz newsz = (\<lambda>s. Spn)"
| "allocuvm_loop pgdir (Suc fuel) a oldsz newsz =
     (if a < newsz then
        bnd kalloc (\<lambda>m.
          if m = 0 then thn (deallocuvm pgdir newsz oldsz) (ret 0)
          else thn (clear_page m)
              (thn (mappages pgdir a PGSIZE (v2p m) (PTE_W OR PTE_U))
              (allocuvm_loop pgdir fuel (a + PGSIZE) oldsz newsz)))
      else ret newsz)"

definition allocuvm :: "u32 \<Rightarrow> u32 \<Rightarrow> u32 \<Rightarrow> (u32, 'z memst_scheme) kmon" where
  "allocuvm pgdir oldsz newsz =
     (if newsz \<ge> KERNBASE then ret 0
      else if newsz < oldsz then ret oldsz
      else allocuvm_loop pgdir PAGES (PGROUNDUP oldsz) oldsz newsz)"

definition freevm :: "u32 \<Rightarrow> (unit, 'z memst_scheme) kmon" where
  "freevm pgdir =
     (if pgdir = 0 then panic ''freevm: no pgdir''
      else thn (deallocuvm pgdir KERNBASE 0)
          (thn (forM [0..<NPDENTRIES] (\<lambda>i.
                  bnd (rd32 (pgdir + 4 * of_nat i)) (\<lambda>e.
                    if e AND PTE_P \<noteq> 0 then kfree (p2v (PTE_ADDR e)) else skip)))
          (kfree pgdir)))"

definition clearpteu :: "u32 \<Rightarrow> u32 \<Rightarrow> (unit, 'z memst_scheme) kmon" where
  "clearpteu pgdir uva =
     bnd (walkpgdir pgdir uva False) (\<lambda>pte.
       if pte = 0 then panic ''clearpteu''
       else bnd (rd32 pte) (\<lambda>e. wr32 pte (e AND NOT PTE_U)))"

text \<open>
  The loop of \<open>copyuvm\<close>: \<open>False\<close> is the jump to \<open>bad\<close>. \<open>i\<close> may step past the end of the
  address space only for a size above \<open>2 ^ 32 - PGSIZE\<close>.
\<close>

fun copyuvm_loop :: "u32 \<Rightarrow> u32 \<Rightarrow> nat \<Rightarrow> u32 \<Rightarrow> u32 \<Rightarrow> (bool, 'z memst_scheme) kmon" where
  "copyuvm_loop pgdir d 0 i sz = (\<lambda>s. Spn)"
| "copyuvm_loop pgdir d (Suc fuel) i sz =
     (if i < sz then
        bnd (walkpgdir pgdir i False) (\<lambda>pte.
          if pte = 0 then panic ''copyuvm: pte should exist''
          else bnd (rd32 pte) (\<lambda>e.
            if e AND PTE_P = 0 then panic ''copyuvm: page not present''
            else bnd kalloc (\<lambda>m.
              if m = 0 then ret False
              else thn (upd_mem (\<lambda>x. memmove x m (p2v (PTE_ADDR e)) PGSIZE))
                  (bnd (mappages d i PGSIZE (v2p m) (PTE_FLAGS e)) (\<lambda>r.
                    if r < 0 then ret False
                    else copyuvm_loop pgdir d fuel (i + PGSIZE) sz)))))
      else ret True)"

definition copyuvm :: "u32 \<Rightarrow> u32 \<Rightarrow> (u32, 'z memst_scheme) kmon" where
  "copyuvm pgdir sz =
     bnd setupkvm (\<lambda>d.
       if d = 0 then ret 0
       else bnd (copyuvm_loop pgdir d (Suc PAGES) 0 sz) (\<lambda>good.
         if good then ret d else thn (freevm d) (ret 0)))"

text \<open>\<open>uva2ka\<close> reads through the pointer that \<open>walkpgdir\<close> returns without testing it.\<close>

definition uva2ka :: "u32 \<Rightarrow> u32 \<Rightarrow> (u32, 'z memst_scheme) kmon" where
  "uva2ka pgdir uva =
     bnd (walkpgdir pgdir uva False) (\<lambda>pte.
       if pte = 0 then undefd
       else bnd (rd32 pte) (\<lambda>e.
         if e AND PTE_P = 0 then ret 0
         else if e AND PTE_U = 0 then ret 0
         else ret (p2v (PTE_ADDR e))))"

lemma page_offset_lt: "unat (va - PGROUNDDOWN va) < 4096"
proof -
  have "va - PGROUNDDOWN va = va mod PGSIZE" by (simp add: PGROUNDDOWN_PTE_ADDR PTE_ADDR_mod)
  then show ?thesis by (simp add: unat_mod)
qed

text \<open>The source of \<open>copyout\<close> is a buffer of the kernel, given by its bytes.\<close>

function copyout :: "u32 \<Rightarrow> u32 \<Rightarrow> u8 list \<Rightarrow> (int, 'z memst_scheme) kmon" where
  "copyout pgdir va buf =
     (if buf = [] then ret 0
      else let va0 = PGROUNDDOWN va;
               n = min (unat (PGSIZE - (va - va0))) (length buf)
           in bnd (uva2ka pgdir va0) (\<lambda>pa0.
                if pa0 = 0 then ret (-1)
                else thn (upd_mem (\<lambda>m. mwr m (pa0 + (va - va0)) (take n buf)))
                    (copyout pgdir (va0 + PGSIZE) (drop n buf))))"
  by pat_completeness auto
termination
proof (relation "measure (\<lambda>(pgdir, va, buf). length buf)")
  fix pgdir va :: u32 and buf :: "u8 list" and x y
  assume "buf \<noteq> []" "x = PGROUNDDOWN va" "y = min (unat (PGSIZE - (va - x))) (length buf)"
  moreover have "unat (PGSIZE - (va - PGROUNDDOWN va)) = 4096 - unat (va - PGROUNDDOWN va)"
    using page_offset_lt[of va] by (subst unat_sub) (auto simp: word_le_nat_alt)
  ultimately show "((pgdir, x + PGSIZE, drop y buf), pgdir, va, buf) \<in> measure (\<lambda>(pgdir, va, buf). length buf)"
    using page_offset_lt[of va] by simp
qed simp

end
