(* ===== verification/Vmtab.thy ===== *)
theory Vmtab
  imports Vm
begin

text \<open>
  What \<^verbatim>\<open>vm.c\<close> does to an address space: the words of a page, the translation of a virtual
  address by a page table, the invariant that the tables of a directory are separate pages in
  use, and the effect of \<open>walkpgdir\<close>, \<open>mappages\<close> and \<open>allocuvm\<close> on the translation.
\<close>

section \<open>The words of a page\<close>

definition wd :: "memory \<Rightarrow> u32 \<Rightarrow> nat \<Rightarrow> u32" where
  "wd m p i = mrd32 m (p + 4 * of_nat i)"

lemma slot_byte: "p + 4 * of_nat i + of_nat k = (p :: u32) + of_nat (4 * i + k)"
  by simp

lemma slots_apart:
  assumes "page_aligned p" "page_aligned q" "i < 1024" "j < 1024" "\<not> (p = q \<and> i = j)"
  shows "apart (q + 4 * of_nat j) 4 (p + 4 * of_nat i) 4"
  unfolding apart_def
proof (intro allI impI notI)
  fix k l :: nat
  assume kl: "k < 4" "l < 4" and eq: "q + 4 * of_nat j + of_nat k = p + 4 * of_nat i + of_nat l"
  let ?a = "4 * j + k" and ?b = "4 * i + l"
  have ab: "?a < 4096" "?b < 4096" using kl assms by auto
  from eq have e: "q + of_nat ?a = p + of_nat ?b" by (simp only: slot_byte)
  have "q = p"
  proof (rule ccontr)
    assume "q \<noteq> p"
    then have "apart q 4096 p 4096" using pages_apart assms by blast
    with ab e show False unfolding apart_def by blast
  qed
  with e have "unat (p + of_nat ?a) = unat (p + of_nat ?b)" by simp
  then have "?a = ?b" using page_off(1)[OF assms(1) ab(1)] page_off(1)[OF assms(1) ab(2)]
    by (metis add_left_imp_eq)
  then have "j = i" using kl by presburger
  with \<open>q = p\<close> assms(5) show False by simp
qed

lemma wd_mwr:
  assumes "page_aligned p" "page_aligned q" "i < 1024" "j < 1024"
  shows "wd (mwr32 m (p + 4 * of_nat i) v) q j = (if p = q \<and> i = j then v else wd m q j)"
  using slots_apart[OF assms] by (auto simp: wd_def mrd32_mwr32_apart)

lemma apart_slot: "apart q 4096 p n \<Longrightarrow> j < 1024 \<Longrightarrow> apart (q + 4 * of_nat j) 4 p n"
  unfolding apart_def slot_byte
proof (intro allI impI)
  fix i k :: nat
  assume "\<forall>i < 4096. \<forall>k < n. q + of_nat i \<noteq> p + of_nat k" "j < 1024" "i < 4" "k < n"
  moreover from this have "4 * j + i < 4096" by simp
  ultimately show "q + of_nat (4 * j + i) \<noteq> p + of_nat k" by blast
qed

lemma memset_zero: "unat (a - p) < 4096 \<Longrightarrow> memset m p 0 PGSIZE a = 0"
  by (simp add: memset_mwr mwr_at)

lemma wd_memset:
  assumes "page_aligned p" "page_aligned q" "j < 1024"
  shows "wd (memset m p 0 PGSIZE) q j = (if p = q then 0 else wd m q j)"
proof (cases "p = q")
  case True
  have "mrd (memset m p 0 PGSIZE) (q + 4 * of_nat j) 4 = replicate 4 0"
  proof (rule nth_equalityI)
    fix k assume "k < length (mrd (memset m p 0 PGSIZE) (q + 4 * of_nat j) 4)"
    then have k: "k < 4" by simp
    have "unat (of_nat (4 * j + k) :: u32) = 4 * j + k" by (rule unat_of_nat32) (use k assms(3) in simp)
    moreover have "q + 4 * of_nat j + of_nat k - p = of_nat (4 * j + k)" using True by simp
    ultimately have "unat (q + 4 * of_nat j + of_nat k - p) = 4 * j + k" by (simp only:)
    moreover have "4 * j + k < 4096" using k assms(3) by simp
    ultimately have "memset m p 0 PGSIZE (q + 4 * of_nat j + of_nat k) = 0"
      by (intro memset_zero) (simp only:)
    with k show "mrd (memset m p 0 PGSIZE) (q + 4 * of_nat j) 4 ! k = replicate 4 0 ! k"
      by (simp only: nth_mrd nth_replicate)
  qed simp
  then show ?thesis using True by (simp add: wd_def mrd32_def of_le32_def)
next
  case False
  then have "apart q 4096 p 4096" using assms by (intro pages_apart) auto
  then have "apart (q + 4 * of_nat j) 4 p 4096" using assms(3) by (rule apart_slot)
  with False show ?thesis by (simp add: wd_def mrd32_def memset_mwr mrd_mwr_apart)
qed

section \<open>Entries\<close>

lemma PDX_lt: "unat (PDX va) < 1024" and PTX_lt: "unat (PTX va) < 1024"
proof -
  have "unat (take_bit 10 x :: u32) < 1024" for x :: u32
    using take_bit_nat_less_exp[of 10 "unat x"] by (simp add: unsigned_take_bit_eq)
  then show "unat (PDX va) < 1024" "unat (PTX va) < 1024"
    by (simp_all add: PDX_def PTX_def mask10 flip: take_bit_eq_mask)
qed

lemma aligned_bit: "page_aligned x \<longleftrightarrow> (\<forall>n < 12. \<not> bit x n)"
proof -
  have "x mod PGSIZE = take_bit 12 x" by (simp add: take_bit_eq_mod)
  then show ?thesis unfolding page_aligned_def
    by (auto simp: bit_eq_iff bit_take_bit_iff)
qed

lemma PTE_ADDR_OR:
  "page_aligned y \<Longrightarrow> f < 4096 \<Longrightarrow> PTE_ADDR (y OR f) = y" for y f :: u32
proof -
  assume y: "page_aligned y" and f: "f < 4096"
  have "f = take_bit 12 f" using f 
    by (simp add: word_less_nat_alt word_unat_eq_iff unsigned_take_bit_eq take_bit_nat_eq_self)
  then have "\<not> bit f n" if "12 \<le> n" for n using that by (metis bit_take_bit_iff not_le)
  with y show ?thesis unfolding PTE_ADDR_def mask12 aligned_bit
    by (intro bit_word_eqI) (auto simp: bit_and_iff bit_or_iff bit_not_iff bit_mask_iff not_less)
qed

lemma v2p_eq_p2v: "v2p x = p2v x"
proof -
  have "- (0x80000000 :: u32) = 0x80000000" by simp
  then show ?thesis unfolding v2p_def p2v_def by (metis diff_conv_add_uminus)
qed

lemma page_aligned_p2v [simp]: "page_aligned (p2v x) = page_aligned x"
proof -
  have "unat (x + 0x80000000) = (unat x + 2147483648) mod 4294967296" by (simp add: unat_word_ariths)
  then have "unat (x + 0x80000000) mod 4096 = (unat x + 2147483648) mod 4096" by (simp add: mod_mod_cancel)
  also have "\<dots> = unat x mod 4096" using mod_add_right_eq[of "unat x" 2147483648 4096] by simp
  finally show ?thesis by (simp add: p2v_def page_aligned_iff)
qed

lemma page_aligned_v2p [simp]: "page_aligned (v2p x) = page_aligned x"
  by (simp add: v2p_eq_p2v)

text \<open>The entry that translates an address, 0 when its page table is missing.\<close>

definition ptab :: "memory \<Rightarrow> u32 \<Rightarrow> nat \<Rightarrow> u32" where
  "ptab m d i = p2v (PTE_ADDR (wd m d i))"

definition present :: "u32 \<Rightarrow> bool" where
  "present e \<longleftrightarrow> e AND PTE_P \<noteq> 0"

definition pte_at :: "memory \<Rightarrow> u32 \<Rightarrow> u32 \<Rightarrow> u32" where
  "pte_at m d va = (if present (wd m d (unat (PDX va)))
     then wd m (ptab m d (unat (PDX va))) (unat (PTX va)) else 0)"

text \<open>The pages of a directory and its tables.\<close>

definition tables :: "memory \<Rightarrow> u32 \<Rightarrow> u32 set" where
  "tables m d = insert d {ptab m d i | i. i < 1024 \<and> present (wd m d i)}"

text \<open>
  The invariant of a page table: the directory and its tables are pages of the allocator's range
  that are in use, the directory is no table, and different entries have different tables.
\<close>

definition pd_ok :: "u32 \<Rightarrow> 'z memst_scheme \<Rightarrow> bool" where
  "pd_ok d s \<longleftrightarrow> (\<forall>p \<in> tables (mem s) d. is_page p s \<and> p \<notin> free_pages s) \<and>
     (\<forall>i < 1024. present (wd (mem s) d i) \<longrightarrow> ptab (mem s) d i \<noteq> d) \<and>
     (\<forall>i < 1024. \<forall>j < 1024. present (wd (mem s) d i) \<longrightarrow> present (wd (mem s) d j) \<longrightarrow>
        ptab (mem s) d i = ptab (mem s) d j \<longrightarrow> i = j)"

section \<open>Writes to pages in use\<close>

lemma is_page_mem [simp]: "is_page x (s\<lparr>mem := m\<rparr>) = is_page x s"
  by (simp add: is_page_def)

lemma is_page_aligned: "is_page x s \<Longrightarrow> page_aligned x"
  by (simp add: is_page_def)

lemma wd_page: "mrd m q 4096 = mrd m' q 4096 \<Longrightarrow> j < 1024 \<Longrightarrow> wd m q j = wd m' q j"
proof -
  assume eq: "mrd m q 4096 = mrd m' q 4096" and j: "j < 1024"
  have at: "m (q + of_nat i) = m' (q + of_nat i)" if "i < 4096" for i
    using nth_mrd[OF that, of m q] nth_mrd[OF that, of m' q] eq by (simp only:)
  have "m (q + 4 * of_nat j + of_nat k) = m' (q + 4 * of_nat j + of_nat k)" if "k < 4" for k
    unfolding slot_byte by (rule at) (use j that in simp)
  then show ?thesis unfolding wd_def mrd32_def by (intro arg_cong[of _ _ of_le32] mrd_cong)
qed

text \<open>A memory that agrees with the old one on every page but those of \<open>W\<close>.\<close>

definition same_but :: "u32 set \<Rightarrow> memory \<Rightarrow> memory \<Rightarrow> bool" where
  "same_but W m m' \<longleftrightarrow> (\<forall>q. page_aligned q \<longrightarrow> q \<notin> W \<longrightarrow> mrd m' q 4096 = mrd m q 4096)"

lemma same_but_trans: "same_but W m m' \<Longrightarrow> same_but V m' m'' \<Longrightarrow> same_but (W \<union> V) m m''"
  by (simp add: same_but_def)

lemma same_but_mono: "same_but W m m' \<Longrightarrow> W \<subseteq> V \<Longrightarrow> same_but V m m'"
  by (auto simp: same_but_def)

lemma same_but_refl [simp]: "same_but W m m"
  by (simp add: same_but_def)

lemma same_but_wd: "same_but W m m' \<Longrightarrow> page_aligned q \<Longrightarrow> q \<notin> W \<Longrightarrow> j < 1024 \<Longrightarrow> wd m' q j = wd m q j"
  using wd_page[of m' q m j] by (auto simp: same_but_def)

lemma same_but_put: "page_aligned p \<Longrightarrow> i < 1024 \<Longrightarrow> same_but {p} m (mwr32 m (p + 4 * of_nat i) v)"
  unfolding same_but_def
proof (intro allI impI)
  fix q assume a: "page_aligned p" "i < 1024" "page_aligned q" "q \<notin> {p}"
  then have "apart p 4096 q 4096" by (intro pages_apart) auto
  then have "apart (p + 4 * of_nat i) 4 q 4096" using a(2) by (rule apart_slot)
  then show "mrd (mwr32 m (p + 4 * of_nat i) v) q 4096 = mrd m q 4096"
    by (simp add: mwr32_def mrd_mwr_apart apart_sym)
qed

lemma same_but_bytes: "page_aligned p \<Longrightarrow> length bs \<le> 4096 \<Longrightarrow> same_but {p} m (mwr m p bs)"
  unfolding same_but_def
proof (intro allI impI)
  fix q assume a: "page_aligned p" "length bs \<le> 4096" "page_aligned q" "q \<notin> {p}"
  then have "apart q 4096 p 4096" by (intro pages_apart) auto
  then have "apart q 4096 p (length bs)" using a(2) by (auto intro: apart_mono)
  then show "mrd (mwr m p bs) q 4096 = mrd m q 4096" using a(2) by (simp add: mrd_mwr_apart)
qed

lemma same_but_clear: "page_aligned p \<Longrightarrow> same_but {p} m (memset m p c PGSIZE)"
  by (simp add: memset_mwr same_but_bytes)

text \<open>Pages in use can be written without touching the free list.\<close>

lemma alloc_write:
  assumes "alloc_ok s" "same_but W (mem s) m" "W \<inter> free_pages s = {}"
  shows "alloc_ok (s\<lparr>mem := m\<rparr>) \<and> free_pages (s\<lparr>mem := m\<rparr>) = free_pages s"
proof -
  from assms(1) obtain xs where xs: "kmem_ok xs s" by (auto simp: alloc_ok_def)
  have fp: "free_pages s = set xs" using free_pages_list[OF xs] .
  have "mrd32 m x = mrd32 (mem s) x" if "x \<in> set xs" for x
  proof (rule mrd32_page)
    have "page_aligned x" "x \<notin> W" using that xs fp assms(3) by (auto simp: kmem_ok_def is_page_def)
    with assms(2) show "mrd m x 4096 = mrd (mem s) x 4096" by (auto simp: same_but_def)
  qed
  then have "kmem_ok xs (s\<lparr>mem := m\<rparr>)" using xs flist_cong[of "mem s" "freelist s" xs m]
    by (auto simp: kmem_ok_def)
  with fp free_pages_list[OF this] show ?thesis by (auto simp: alloc_ok_def)
qed

section \<open>Changing a page table\<close>

lemma pd_okD:
  assumes "pd_ok d s"
  shows "page_aligned d" "d \<notin> free_pages s" "is_page d s"
    "i < 1024 \<Longrightarrow> present (wd (mem s) d i) \<Longrightarrow> ptab (mem s) d i \<notin> free_pages s \<and> is_page (ptab (mem s) d i) s \<and>
      ptab (mem s) d i \<noteq> d"
    "i < 1024 \<Longrightarrow> j < 1024 \<Longrightarrow> present (wd (mem s) d i) \<Longrightarrow> present (wd (mem s) d j) \<Longrightarrow>
      ptab (mem s) d i = ptab (mem s) d j \<Longrightarrow> i = j"
proof -
  from assms show "page_aligned d" "d \<notin> free_pages s" "is_page d s"
    by (auto simp: pd_ok_def tables_def is_page_def)
  show "i < 1024 \<Longrightarrow> present (wd (mem s) d i) \<Longrightarrow> ptab (mem s) d i \<notin> free_pages s \<and> is_page (ptab (mem s) d i) s \<and>
      ptab (mem s) d i \<noteq> d" using assms unfolding pd_ok_def tables_def by blast
  show "i < 1024 \<Longrightarrow> j < 1024 \<Longrightarrow> present (wd (mem s) d i) \<Longrightarrow> present (wd (mem s) d j) \<Longrightarrow>
      ptab (mem s) d i = ptab (mem s) d j \<Longrightarrow> i = j" using assms unfolding pd_ok_def by blast
qed

lemma ptab_in_tables: "i < 1024 \<Longrightarrow> present (wd m d i) \<Longrightarrow> ptab m d i \<in> tables m d"
  by (auto simp: tables_def)

text \<open>Writes that leave a directory and its tables alone leave the translation alone.\<close>

lemma tables_other:
  assumes "same_but W m m'" "tables m d \<inter> W = {}" "page_aligned d"
  shows "tables m' d = tables m d" "pte_at m' d = pte_at m d" "i < 1024 \<Longrightarrow> wd m' d i = wd m d i"
    "i < 1024 \<Longrightarrow> ptab m' d i = ptab m d i"
proof -
  have d: "wd m' d i = wd m d i" if "i < 1024" for i
    using that assms by (intro same_but_wd[OF assms(1)]) (auto simp: tables_def)
  then have t: "ptab m' d i = ptab m d i" if "i < 1024" for i using that by (simp add: ptab_def)
  show "tables m' d = tables m d" using d t unfolding tables_def by force
  have "wd m' (ptab m d i) j = wd m (ptab m d i) j" if "i < 1024" "j < 1024" "present (wd m d i)" for i j
    using that assms ptab_in_tables[of i m d]
    by (intro same_but_wd[OF assms(1)]) (auto simp: ptab_def)
  then show "pte_at m' d = pte_at m d" using d t PDX_lt PTX_lt by (auto simp: pte_at_def fun_eq_iff)
  show "i < 1024 \<Longrightarrow> wd m' d i = wd m d i" "i < 1024 \<Longrightarrow> ptab m' d i = ptab m d i" using d t by auto
qed

lemma pd_ok_other:
  assumes "pd_ok d s" "same_but W (mem s) m" "tables (mem s) d \<inter> W = {}" "alloc_ok s" "W \<inter> free_pages s = {}"
  shows "pd_ok d (s\<lparr>mem := m\<rparr>)"
  using tables_other[OF assms(2,3) pd_okD(1)[OF assms(1)]] alloc_write[OF assms(4,2,5)] assms(1)
  by (simp add: pd_ok_def)

definition same_page :: "u32 \<Rightarrow> u32 \<Rightarrow> bool" where
  "same_page a b \<longleftrightarrow> PTE_ADDR a = PTE_ADDR b"

lemma same_page_iff: "same_page a b \<longleftrightarrow> PDX a = PDX b \<and> PTX a = PTX b"
proof
  have "PDX x = PDX (PTE_ADDR x)" "PTX x = PTX (PTE_ADDR x)" for x
    unfolding PDX_def PTX_def PTE_ADDR_def mask12 mask10
    by (auto intro!: bit_word_eqI simp: bit_and_iff bit_drop_bit_eq bit_mask_iff bit_not_iff)
  then show "same_page a b \<Longrightarrow> PDX a = PDX b \<and> PTX a = PTX b" unfolding same_page_def by metis
next
  have "PTE_ADDR x = PGADDR (PDX x) (PTX x) 0" for x
  proof -
    have "PTE_ADDR x = PTE_ADDR (PGADDR (PDX x) (PTX x) (PTE_FLAGS x))" by (simp add: PGADDR_parts)
    also have "\<dots> = PGADDR (PDX x) (PTX x) 0"
      unfolding PTE_ADDR_def PTE_FLAGS_def PGADDR_def mask12
      by (rule bit_word_eqI) (auto simp: bit_and_iff bit_or_iff bit_not_iff bit_mask_iff bit_push_bit_iff
          simp del: push_bit_and)
    finally show ?thesis .
  qed
  then show "PDX a = PDX b \<and> PTX a = PTX b \<Longrightarrow> same_page a b" unfolding same_page_def by metis
qed

lemma same_page_unat: "same_page a b \<longleftrightarrow> unat (PDX a) = unat (PDX b) \<and> unat (PTX a) = unat (PTX b)"
  by (simp add: same_page_iff word_unat_eq_iff)

lemma put_entry:
  assumes "pd_ok d s" "alloc_ok s" "present (wd (mem s) d (unat (PDX va)))"
    and m_def: "m = mwr32 (mem s) (ptab (mem s) d (unat (PDX va)) + 4 * of_nat (unat (PTX va))) v"
  shows "pte_at m d vb = (if same_page va vb then v else pte_at (mem s) d vb)"
    "tables m d = tables (mem s) d" "pd_ok d (s\<lparr>mem := m\<rparr>)"
    "alloc_ok (s\<lparr>mem := m\<rparr>)" "free_pages (s\<lparr>mem := m\<rparr>) = free_pages s"
    "same_but (tables (mem s) d) (mem s) m"
proof -
  let ?i = "unat (PDX va)" and ?T = "ptab (mem s) d (unat (PDX va))"
  have T: "?T \<notin> free_pages s" "is_page ?T s" "?T \<noteq> d" using pd_okD(4)[OF assms(1) PDX_lt assms(3)] by auto
  note al = is_page_aligned[OF T(2)] pd_okD(1)[OF assms(1)]
  have sb: "same_but {?T} (mem s) m" unfolding m_def by (rule same_but_put[OF al(1) PTX_lt])
  then show "same_but (tables (mem s) d) (mem s) m"
    using ptab_in_tables[OF PDX_lt assms(3)] by (auto intro: same_but_mono)
  from alloc_write[OF assms(2) sb] T show a: "alloc_ok (s\<lparr>mem := m\<rparr>)" "free_pages (s\<lparr>mem := m\<rparr>) = free_pages s"
    by auto
  have d: "wd m d j = wd (mem s) d j" if "j < 1024" for j
    using same_but_wd[OF sb al(2) _ that] T(3) by auto
  then have pt: "ptab m d j = ptab (mem s) d j" if "j < 1024" for j using that by (simp add: ptab_def)
  show t: "tables m d = tables (mem s) d" using d pt unfolding tables_def by force
  show "pd_ok d (s\<lparr>mem := m\<rparr>)" using assms(1) t d pt a unfolding pd_ok_def by simp
  have "wd m (ptab (mem s) d j) k = (if j = ?i \<and> k = unat (PTX va) then v else wd (mem s) (ptab (mem s) d j) k)"
    if "j < 1024" "k < 1024" "present (wd (mem s) d j)" for j k
  proof -
    have "page_aligned (ptab (mem s) d j)" using pd_okD(4)[OF assms(1) that(1,3)] is_page_aligned by blast
    with wd_mwr[OF al(1) this PTX_lt that(2), of "mem s" va v] pd_okD(5)[OF assms(1) PDX_lt that(1) assms(3) that(3)]
    show ?thesis by (auto simp: m_def)
  qed
  then show "pte_at m d vb = (if same_page va vb then v else pte_at (mem s) d vb)"
    using d pt PDX_lt PTX_lt assms(3) by (auto simp: pte_at_def same_page_unat)
qed

lemma present_bit: "present e \<longleftrightarrow> bit e 0"
  by (simp add: present_def and_one_eq bit_0 even_iff_mod_2_eq_zero)

lemma present_OR [simp]: "present (x OR PTE_P)" "present (x OR 7)"
  by (simp_all add: present_bit bit_or_iff)

lemma new_table:
  assumes "pd_ok d s" "alloc_ok s" "i < 1024" "\<not> present (wd (mem s) d i)"
    and x: "is_page x s" "x \<notin> free_pages s" "x \<notin> tables (mem s) d"
    and m_def: "m = mwr32 (memset (mem s) x 0 PGSIZE) (d + 4 * of_nat i) (v2p x OR PTE_P OR PTE_W OR PTE_U)"
  shows "pte_at m d = pte_at (mem s) d" "tables m d = insert x (tables (mem s) d)" "pd_ok d (s\<lparr>mem := m\<rparr>)"
    "alloc_ok (s\<lparr>mem := m\<rparr>)" "free_pages (s\<lparr>mem := m\<rparr>) = free_pages s"
    "ptab m d i = x" "present (wd m d i)" "same_but {d, x} (mem s) m"
proof -
  note al = is_page_aligned[OF x(1)] pd_okD(1)[OF assms(1)]
  have dx: "d \<noteq> x" using x(3) by (auto simp: tables_def)
  have sb: "same_but ({x} \<union> {d}) (mem s) m"
    unfolding m_def by (rule same_but_trans[OF same_but_clear[OF al(1)] same_but_put[OF al(2) assms(3)]])
  then show "same_but {d, x} (mem s) m" by (rule same_but_mono) auto
  from alloc_write[OF assms(2) sb] x(2) pd_okD(2)[OF assms(1)]
  show a: "alloc_ok (s\<lparr>mem := m\<rparr>)" "free_pages (s\<lparr>mem := m\<rparr>) = free_pages s" by auto
  have e: "v2p x OR PTE_P OR PTE_W OR PTE_U = v2p x OR 7" by (simp add: or.assoc)
  have d: "wd m d j = (if j = i then v2p x OR 7 else wd (mem s) d j)" if "j < 1024" for j
    using that assms(3) dx al unfolding m_def e by (simp add: wd_mwr wd_memset)
  then show pi: "present (wd m d i)" using assms(3) by simp
  have pt: "ptab m d j = (if j = i then x else ptab (mem s) d j)" if "j < 1024" for j
    using d[OF that] al by (simp add: ptab_def PTE_ADDR_OR)
  then show "ptab m d i = x" using assms(3) by simp
  show t: "tables m d = insert x (tables (mem s) d)"
  proof (intro equalityI subsetI)
    fix y assume "y \<in> tables m d"
    then show "y \<in> insert x (tables (mem s) d)" using d pt unfolding tables_def by (auto split: if_splits)
  next
    fix y assume "y \<in> insert x (tables (mem s) d)"
    then consider "y = x" | "y = d" | j where "j < 1024" "present (wd (mem s) d j)" "y = ptab (mem s) d j"
      unfolding tables_def by blast
    then show "y \<in> tables m d"
    proof cases
      case 1
      then show ?thesis using ptab_in_tables[OF assms(3) pi] pt assms(3) by simp
    next
      case 3
      then have "j \<noteq> i" using assms(4) by auto
      with 3 d pt ptab_in_tables[of j m d] show ?thesis by simp
    qed (simp add: tables_def)
  qed
  have old: "ptab (mem s) d j \<noteq> x" if "j < 1024" "present (wd (mem s) d j)" for j
    using ptab_in_tables[OF that] x(3) by auto
  show "pd_ok d (s\<lparr>mem := m\<rparr>)"
    unfolding pd_ok_def
  proof (intro conjI ballI allI impI)
    fix p assume "p \<in> tables (mem (s\<lparr>mem := m\<rparr>)) d"
    then have "p \<in> insert x (tables (mem s) d)" using t by simp
    then show "is_page p (s\<lparr>mem := m\<rparr>)" "p \<notin> free_pages (s\<lparr>mem := m\<rparr>)"
      using assms(1) x a(2) unfolding pd_ok_def by auto
  next
    fix j assume "j < 1024" "present (wd (mem (s\<lparr>mem := m\<rparr>)) d j)"
    then show "ptab (mem (s\<lparr>mem := m\<rparr>)) d j \<noteq> d"
      using d pt dx pd_okD(4)[OF assms(1), of j] by (auto split: if_splits)
  next
    fix j k assume "j < 1024" "k < 1024" "present (wd (mem (s\<lparr>mem := m\<rparr>)) d j)"
      "present (wd (mem (s\<lparr>mem := m\<rparr>)) d k)" "ptab (mem (s\<lparr>mem := m\<rparr>)) d j = ptab (mem (s\<lparr>mem := m\<rparr>)) d k"
    then show "j = k"
      using d[of j] d[of k] pt[of j] pt[of k] old[of j] old[of k] pd_okD(5)[OF assms(1), of j k]
      by (cases "j = i"; cases "k = i") auto
  qed
  have "wd m (ptab (mem s) d j) k = wd (mem s) (ptab (mem s) d j) k"
    if "j < 1024" "k < 1024" "present (wd (mem s) d j)" for j k
  proof -
    have "ptab (mem s) d j \<noteq> d" "ptab (mem s) d j \<noteq> x" "page_aligned (ptab (mem s) d j)"
      using pd_okD(4)[OF assms(1) that(1,3)] is_page_aligned ptab_in_tables[OF that(1,3)] x(3) by auto
    then show ?thesis using same_but_wd[OF sb _ _ that(2)] by auto
  qed
  moreover have "wd m x k = 0" if "k < 1024" for k
    using that assms(3) dx al unfolding m_def by (simp add: wd_mwr wd_memset)
  ultimately show "pte_at m d = pte_at (mem s) d"
    using d pt PDX_lt PTX_lt assms(4) by (auto simp: pte_at_def fun_eq_iff)
qed

section \<open>Walking and mapping\<close>

lemma kalloc_takes:
  assumes "alloc_ok s" "free_pages s \<noteq> {}"
  shows "\<exists>x t. kalloc s = Ret x t \<and> x \<in> free_pages s \<and> is_page x s \<and> x \<noteq> 0 \<and> alloc_ok t \<and> mem t = mem s \<and>
    free_pages t = free_pages s - {x} \<and> (\<forall>y. is_page y t = is_page y s)"
proof -
  from assms obtain xs where xs: "kmem_ok xs s" by (auto simp: alloc_ok_def)
  note fp = free_pages_list[OF xs]
  with assms(2) obtain y ys where y: "xs = y # ys" by (cases xs) auto
  from kalloc_ok[OF xs] y obtain t where t: "kalloc s = Ret y t" "kmem_ok ys t" "mem t = mem s"
    "\<forall>x. is_page x t = is_page x s" by auto
  have "is_page y s" "y \<noteq> 0" "y \<notin> set ys" using xs y by (auto simp: kmem_ok_def is_page_def)
  with t fp y free_pages_list[OF t(2)] show ?thesis by (intro exI[of _ y] exI[of _ t]) (auto simp: alloc_ok_def)
qed

lemma kalloc_none:
  assumes "alloc_ok s" "free_pages s = {}"
  shows "\<exists>t. kalloc s = Ret 0 t \<and> alloc_ok t \<and> mem t = mem s \<and> free_pages t = {} \<and>
    (\<forall>y. is_page y t = is_page y s)"
proof -
  from assms obtain xs where xs: "kmem_ok xs s" by (auto simp: alloc_ok_def)
  with free_pages_list[OF xs] assms(2) have "xs = []" by simp
  with kalloc_ok[OF xs] free_pages_list show ?thesis by (fastforce simp: alloc_ok_def)
qed

lemma pd_ok_less:
  "pd_ok d s \<Longrightarrow> mem t = mem s \<Longrightarrow> free_pages t \<subseteq> free_pages s \<Longrightarrow> \<forall>y. is_page y t = is_page y s \<Longrightarrow> pd_ok d t"
  unfolding pd_ok_def by auto

lemma walkpgdir_present:
  "present (wd (mem s) d (unat (PDX va))) \<Longrightarrow>
   walkpgdir d va b s = Ret (ptab (mem s) d (unat (PDX va)) + 4 * of_nat (unat (PTX va))) s"
  by (simp add: walkpgdir_def rd32_def mon_defs wd_def present_def ptab_def Let_def)

lemma walkpgdir_absent: "\<not> present (wd (mem s) d (unat (PDX va))) \<Longrightarrow> walkpgdir d va False s = Ret 0 s"
  by (simp add: walkpgdir_def rd32_def mon_defs wd_def present_def Let_def)

text \<open>
  What a call that extends the page table \<open>d\<close> may do: it takes at most \<open>n\<close> free pages, which
  become tables, and writes only to tables.
\<close>

definition extends_pd :: "u32 \<Rightarrow> nat \<Rightarrow> 'z memst_scheme \<Rightarrow> 'z memst_scheme \<Rightarrow> bool" where
  "extends_pd d n s t \<longleftrightarrow> alloc_ok t \<and> pd_ok d t \<and> (\<forall>x. is_page x t = is_page x s) \<and>
     free_pages t \<subseteq> free_pages s \<and> card (free_pages s - free_pages t) \<le> n \<and>
     tables (mem s) d \<subseteq> tables (mem t) d \<and>
     tables (mem t) d \<subseteq> tables (mem s) d \<union> (free_pages s - free_pages t) \<and>
     same_but (tables (mem t) d) (mem s) (mem t)"

lemma walkpgdir_alloc:
  assumes "pd_ok d s" "alloc_ok s" "present (wd (mem s) d (unat (PDX va))) \<or> free_pages s \<noteq> {}"
  shows "\<exists>t. walkpgdir d va True s = Ret (ptab (mem t) d (unat (PDX va)) + 4 * of_nat (unat (PTX va))) t \<and>
    present (wd (mem t) d (unat (PDX va))) \<and> extends_pd d 1 s t \<and> pte_at (mem t) d = pte_at (mem s) d"
proof (cases "present (wd (mem s) d (unat (PDX va)))")
  case True
  with assms show ?thesis by (intro exI[of _ s]) (simp add: walkpgdir_present extends_pd_def)
next
  case False
  with assms(3) have "free_pages s \<noteq> {}" by simp
  from kalloc_takes[OF assms(2) this] obtain x u where u: "kalloc s = Ret x u" "x \<in> free_pages s" "is_page x s"
    "x \<noteq> 0" "alloc_ok u" "mem u = mem s" "free_pages u = free_pages s - {x}" "\<forall>y. is_page y u = is_page y s"
    by blast
  have pd: "pd_ok d u" using pd_ok_less[OF assms(1) u(6)] u(7,8) by auto
  have xt: "x \<notin> tables (mem u) d" using assms(1) u unfolding pd_ok_def by auto
  let ?m = "mwr32 (memset (mem u) x 0 PGSIZE) (d + 4 * of_nat (unat (PDX va))) (v2p x OR PTE_P OR PTE_W OR PTE_U)"
  let ?t = "u\<lparr>mem := ?m\<rparr>"
  have nt: "pte_at ?m d = pte_at (mem u) d" "tables ?m d = insert x (tables (mem u) d)" "pd_ok d ?t" "alloc_ok ?t"
    "free_pages ?t = free_pages u" "ptab ?m d (unat (PDX va)) = x" "present (wd ?m d (unat (PDX va)))"
    "same_but {d, x} (mem u) ?m"
    using new_table[OF pd u(5) PDX_lt _ _ _ xt refl] False u by auto
  have "walkpgdir d va True s = Ret (x + 4 * of_nat (unat (PTX va))) ?t"
    using False u(1,4) by (simp add: walkpgdir_def rd32_def wr32_def clear_page_def upd_mem_def mon_defs
        wd_def present_def Let_def or.assoc)
  moreover have sub: "free_pages s - free_pages ?t = {x}" using u(2,7) nt(5) by auto
  have mt: "mem ?t = ?m" by simp
  have "extends_pd d 1 s ?t"
    unfolding extends_pd_def mt sub nt(2)
  proof (intro conjI)
    show "alloc_ok ?t" "pd_ok d ?t" by (fact nt)+
    show "\<forall>y. is_page y ?t = is_page y s" using u(8) by simp
    show "free_pages ?t \<subseteq> free_pages s" using nt(5) u(7) by auto
    have "{d, x} \<subseteq> insert x (tables (mem u) d)" by (simp add: tables_def)
    then show "same_but (insert x (tables (mem u) d)) (mem s) ?m"
      using same_but_mono[OF nt(8)] u(6) by simp
  qed (use u(6) in auto)
  ultimately show ?thesis using nt u(6) by (intro exI[of _ ?t]) simp
qed

lemma extends_trans:
  assumes "extends_pd d n s t" "extends_pd d k t u" "finite (free_pages s)"
  shows "extends_pd d (n + k) s u"
proof -
  note a = assms(1)[unfolded extends_pd_def] and b = assms(2)[unfolded extends_pd_def]
  have "free_pages s - free_pages u = (free_pages s - free_pages t) \<union> (free_pages t - free_pages u)"
    using a b by auto
  then have "card (free_pages s - free_pages u) \<le> n + k"
    using a b card_Un_le[of "free_pages s - free_pages t" "free_pages t - free_pages u"] by simp
  moreover have "same_but (tables (mem u) d) (mem s) (mem u)"
    using a b same_but_trans[of "tables (mem t) d" "mem s" "mem t" "tables (mem u) d" "mem u"]
    by (auto intro: same_but_mono)
  ultimately show ?thesis using a b unfolding extends_pd_def by blast
qed

lemma free_pages_finite: "alloc_ok s \<Longrightarrow> finite (free_pages s)"
  using free_pages_list by (fastforce simp: alloc_ok_def)

lemma tab_not_0:
  assumes "pd_ok d s" "i < 1024" "present (wd (mem s) d i)" "k < 1024"
  shows "ptab (mem s) d i + 4 * of_nat k \<noteq> 0"
proof -
  have p: "is_page (ptab (mem s) d i) s" using pd_okD(4)[OF assms(1-3)] by blast
  then have "unat (ptab (mem s) d i + of_nat (4 * k)) = unat (ptab (mem s) d i) + 4 * k"
    using page_off(1)[of "ptab (mem s) d i" "4 * k"] assms(4) by (auto simp: is_page_def)
  moreover have "0 < unat (ptab (mem s) d i)" using p by (simp add: is_page_def unat_gt_0)
  ultimately have "unat (ptab (mem s) d i + of_nat (4 * k)) \<noteq> 0" by linarith
  then show ?thesis by auto
qed

lemma page_end: "page_aligned va \<Longrightarrow> PTE_ADDR va = va \<and> PTE_ADDR (va + 4096 - 1) = va"
proof -
  assume va: "page_aligned va"
  have "va + 4096 - 1 = va + 0xFFF" by simp
  also have "\<dots> = va OR 0xFFF"
  proof (rule disjunctive_add)
    fix n
    show "\<not> bit va n \<or> \<not> bit (0xFFF :: u32) n" using va unfolding aligned_bit bit_0xFFF by blast
  qed
  finally show ?thesis using PTE_ADDR_OR[OF va, of "0xFFF"] PTE_ADDR_OR[OF va, of 0] by simp
qed

lemma mappages_one:
  assumes "page_aligned va"
  shows "mappages d va PGSIZE pa perm = bnd (walkpgdir d va True) (\<lambda>pte. if pte = 0 then ret (-1)
     else bnd (rd32 pte) (\<lambda>e. if e AND PTE_P \<noteq> 0 then panic ''remap''
       else thn (wr32 pte (pa OR perm OR PTE_P)) (ret 0)))"
proof -
  have P: "PAGES = Suc 1048575" by simp
  show ?thesis unfolding mappages_def PGROUNDDOWN_PTE_ADDR P mappages_loop.simps(2)
    using page_end[OF assms] by simp
qed

text \<open>
  Mapping one page: when the page is not mapped yet and a page table exists or can be
  allocated, the page translates to the entry asked for and every other page as before.
\<close>

lemma mappages_page:
  assumes "pd_ok d s" "alloc_ok s" "page_aligned va" "\<not> present (pte_at (mem s) d va)"
    "present (wd (mem s) d (unat (PDX va))) \<or> free_pages s \<noteq> {}"
  shows "\<exists>t. mappages d va PGSIZE pa perm s = Ret 0 t \<and> extends_pd d 1 s t \<and>
    (\<forall>vb. pte_at (mem t) d vb = (if same_page va vb then pa OR perm OR PTE_P else pte_at (mem s) d vb))"
proof -
  let ?i = "unat (PDX va)" and ?k = "unat (PTX va)"
  from walkpgdir_alloc[OF assms(1,2,5)] obtain u where
    u: "walkpgdir d va True s = Ret (ptab (mem u) d ?i + 4 * of_nat ?k) u" "present (wd (mem u) d ?i)"
    "extends_pd d 1 s u" "pte_at (mem u) d = pte_at (mem s) d" by blast
  from u(3) have ok: "pd_ok d u" "alloc_ok u" by (auto simp: extends_pd_def)
  let ?m = "mwr32 (mem u) (ptab (mem u) d ?i + 4 * of_nat ?k) (pa OR perm OR PTE_P)"
  note pe = put_entry[OF ok u(2) refl, of "pa OR perm OR PTE_P"]
  have "mrd32 (mem u) (ptab (mem u) d ?i + 4 * of_nat ?k) = pte_at (mem s) d va"
    using u(2) by (simp add: u(4)[symmetric] pte_at_def wd_def)
  then have "mappages d va PGSIZE pa perm s = Ret 0 (u\<lparr>mem := ?m\<rparr>)"
    using u(1) assms(4) tab_not_0[OF ok(1) PDX_lt u(2) PTX_lt, of va]
    by (simp add: mappages_one[OF assms(3)] mon_defs rd32_def wr32_def upd_mem_def present_def)
  moreover have "extends_pd d 1 s (u\<lparr>mem := ?m\<rparr>)"
    using u(3) pe(2-6) same_but_trans[of "tables (mem u) d" "mem s" "mem u" "tables (mem u) d" ?m]
    unfolding extends_pd_def by simp
  ultimately show ?thesis using pe(1) u(4) by (intro exI[of _ "u\<lparr>mem := ?m\<rparr>"]) simp
qed

lemma mappages_full:
  assumes "alloc_ok s" "page_aligned va" "\<not> present (wd (mem s) d (unat (PDX va)))" "free_pages s = {}"
  shows "\<exists>t. mappages d va PGSIZE pa perm s = Ret (-1) t \<and> alloc_ok t \<and> mem t = mem s \<and> free_pages t = {}"
proof -
  from kalloc_none[OF assms(1,4)] obtain t where
    "kalloc s = Ret 0 t" "alloc_ok t" "mem t = mem s" "free_pages t = {}" by blast
  then show ?thesis using assms(3)
    by (intro exI[of _ t]) (simp add: mappages_one[OF assms(2)] mon_defs walkpgdir_def rd32_def Let_def wd_def present_def)
qed

section \<open>Growing a process\<close>

text \<open>
  The result of giving the \<open>n\<close> pages from \<open>a\<close> on memory: each translates to a page of zeros
  taken from the allocator, writable by the user and no page table; every other page translates
  as before, and only the tables and the pages taken have been written.
\<close>

definition in_pages :: "u32 \<Rightarrow> nat \<Rightarrow> u32 \<Rightarrow> bool" where
  "in_pages a n va \<longleftrightarrow> unat a \<le> unat va \<and> unat va < unat a + 4096 * n"

definition grown :: "u32 \<Rightarrow> u32 \<Rightarrow> nat \<Rightarrow> 'z memst_scheme \<Rightarrow> 'z memst_scheme \<Rightarrow> bool" where
  "grown d a n s t \<longleftrightarrow> alloc_ok t \<and> pd_ok d t \<and> (\<forall>x. is_page x t = is_page x s) \<and>
     free_pages t \<subseteq> free_pages s \<and> tables (mem s) d \<subseteq> tables (mem t) d \<and>
     tables (mem t) d \<subseteq> tables (mem s) d \<union> (free_pages s - free_pages t) \<and>
     same_but (tables (mem t) d \<union> (free_pages s - free_pages t)) (mem s) (mem t) \<and>
     (\<forall>va. \<not> in_pages a n va \<longrightarrow> pte_at (mem t) d va = pte_at (mem s) d va) \<and>
     (\<forall>va. in_pages a n va \<longrightarrow> (\<exists>x \<in> free_pages s - free_pages t. x \<notin> tables (mem t) d \<and>
        pte_at (mem t) d va = v2p x OR (PTE_W OR PTE_U) OR PTE_P \<and> page_bytes t x = replicate 4096 0))"

lemma same_page_range:
  assumes "page_aligned a" "unat a + 4096 < 4294967296"
  shows "same_page a va \<longleftrightarrow> in_pages a 1 va"
proof -
  have "PTE_ADDR a = a" using page_end[OF assms(1)] by simp
  then have "same_page a va \<longleftrightarrow> unat a = 4096 * (unat va div 4096)"
    by (simp add: same_page_def word_unat_eq_iff unat_PTE_ADDR)
  moreover have "4096 dvd unat a" using assms(1) by (simp add: page_aligned_iff mod_eq_0_iff_dvd)
  then obtain q where "unat a = 4096 * q" ..
  ultimately show ?thesis by (auto simp: in_pages_def)
qed

lemma in_pages_Suc:
  assumes "unat a + 4096 < 4294967296"
  shows "in_pages a (Suc n) va \<longleftrightarrow> in_pages a 1 va \<or> in_pages (a + PGSIZE) n va"
  using unat_add_page[OF assms] by (auto simp: in_pages_def)

lemma mrd_clear: "page_aligned x \<Longrightarrow> mrd (memset m x 0 PGSIZE) x 4096 = replicate 4096 0"
  using mrd_mwr_same[of "replicate 4096 0" m x] by (simp add: memset_mwr)

text \<open>One page: \<open>kalloc\<close>, \<open>memset\<close> and \<open>mappages\<close>.\<close>

definition give_page :: "u32 \<Rightarrow> u32 \<Rightarrow> (int, 'z memst_scheme) kmon" where
  "give_page d a = bnd kalloc (\<lambda>m. if m = 0 then ret (-2)
     else thn (clear_page m) (mappages d a PGSIZE (v2p m) (PTE_W OR PTE_U)))"

lemma give_page_grown:
  assumes ok: "pd_ok d s" "alloc_ok s" and a: "page_aligned a" "unat a + 4096 < 4294967296"
    and new: "\<not> present (pte_at (mem s) d a)" and card: "2 \<le> card (free_pages s)"
  shows "\<exists>t. give_page d a s = Ret 0 t \<and> grown d a 1 s t \<and> card (free_pages s) \<le> card (free_pages t) + 2"
proof -
  note fin = free_pages_finite[OF ok(2)]
  have "free_pages s \<noteq> {}" using card by auto
  from kalloc_takes[OF ok(2) this] obtain x u where u: "kalloc s = Ret x u" "x \<in> free_pages s" "is_page x s"
    "x \<noteq> 0" "alloc_ok u" "mem u = mem s" "free_pages u = free_pages s - {x}" "\<forall>y. is_page y u = is_page y s"
    by blast
  let ?m = "memset (mem u) x 0 PGSIZE" and ?v = "u\<lparr>mem := memset (mem u) x 0 PGSIZE\<rparr>"
  note al = is_page_aligned[OF u(3)]
  have pd: "pd_ok d u" using pd_ok_less[OF ok(1) u(6)] u(7,8) by auto
  have xt: "tables (mem u) d \<inter> {x} = {}" using ok(1) u unfolding pd_ok_def by auto
  note sb = same_but_clear[OF al, of "mem u" 0]
  have xf: "{x} \<inter> free_pages u = {}" using u(7) by simp
  have v: "pd_ok d ?v" "alloc_ok ?v" "free_pages ?v = free_pages u" "pte_at (mem ?v) d = pte_at (mem s) d"
    "tables (mem ?v) d = tables (mem s) d"
    using pd_ok_other[OF pd sb xt u(5) xf] alloc_write[OF u(5) sb xf]
      tables_other[OF sb xt pd_okD(1)[OF pd]] u(6) by simp_all
  have "free_pages ?v \<noteq> {}" using v(3) u(2,7) card fin by (auto dest!: subset_singletonD)
  then have "present (wd (mem ?v) d (unat (PDX a))) \<or> free_pages ?v \<noteq> {}" by blast
  from mappages_page[OF v(1,2) a(1), unfolded v(4), OF new this, of "v2p x" "PTE_W OR PTE_U"] obtain t where
    t: "mappages d a PGSIZE (v2p x) (PTE_W OR PTE_U) ?v = Ret 0 t" "extends_pd d 1 ?v t"
    "\<forall>vb. pte_at (mem t) d vb = (if same_page a vb then v2p x OR (PTE_W OR PTE_U) OR PTE_P
        else pte_at (mem s) d vb)" by blast
  note e = t(2)[unfolded extends_pd_def]
  have tx: "x \<notin> tables (mem t) d" "x \<notin> free_pages t" using e v(3,5) u(6,7) xt by auto
  have "page_bytes t x = mrd ?m x 4096" using e tx(1) al unfolding same_but_def page_bytes_def by auto
  then have zero: "page_bytes t x = replicate 4096 0" using mrd_clear[OF al] by simp
  have "give_page d a s = Ret 0 t"
    using u(1,4) t(1) by (simp add: give_page_def clear_page_def upd_mem_def mon_defs)
  moreover have "same_but ({x} \<union> tables (mem t) d) (mem s) (mem t)"
    using same_but_trans[OF sb, of "tables (mem t) d" "mem t"] e u(6) by simp
  then have "same_but (tables (mem t) d \<union> (free_pages s - free_pages t)) (mem s) (mem t)"
    by (rule same_but_mono) (use u(2) tx(2) in auto)
  then have "grown d a 1 s t"
    unfolding grown_def using e u v tx zero t(3) same_page_range[OF a] by auto
  moreover have "card (free_pages ?v) = card (free_pages s) - 1" using v(3) u(2,7) fin by simp
  then have "card (free_pages s) \<le> card (free_pages t) + 2"
    using e card_Diff_subset[of "free_pages t" "free_pages ?v"] free_pages_finite[of t] by simp linarith
  ultimately show ?thesis by blast
qed

lemma grown_0: "pd_ok d s \<Longrightarrow> alloc_ok s \<Longrightarrow> grown d a 0 s s"
  by (simp add: grown_def in_pages_def)

lemma grown_page_kept:
  assumes h: "grown d b n u t" and x: "page_aligned x" "x \<notin> free_pages u" "x \<notin> tables (mem u) d"
  shows "x \<notin> tables (mem t) d" "page_bytes t x = page_bytes u x"
proof -
  note H = h[unfolded grown_def]
  show t: "x \<notin> tables (mem t) d" using H x by blast
  have "same_but (tables (mem t) d \<union> (free_pages u - free_pages t)) (mem u) (mem t)" using H by blast
  with t x show "page_bytes t x = page_bytes u x" by (simp add: same_but_def page_bytes_def)
qed

lemma grown_Suc:
  assumes ok: "alloc_ok s" and g: "grown d a 1 s u" and h: "grown d (a + PGSIZE) n u t"
    and a: "unat a + 4096 < 4294967296"
  shows "grown d a (Suc n) s t"
proof -
  note G = g[unfolded grown_def] and H = h[unfolded grown_def]
  let ?W = "tables (mem t) d \<union> (free_pages s - free_pages t)"
  have disj: "in_pages a 1 va \<Longrightarrow> \<not> in_pages (a + PGSIZE) n va" for va
    using unat_add_page[OF a] by (auto simp: in_pages_def)
  have "same_but (tables (mem u) d \<union> (free_pages s - free_pages u)) (mem s) (mem u)"
    "same_but (tables (mem t) d \<union> (free_pages u - free_pages t)) (mem u) (mem t)" using G H by blast+
  from same_but_trans[OF this] have "same_but ?W (mem s) (mem t)"
    by (rule same_but_mono) (use G H in blast)
  moreover have "\<exists>x \<in> free_pages s - free_pages t. x \<notin> tables (mem t) d \<and>
        pte_at (mem t) d va = v2p x OR (PTE_W OR PTE_U) OR PTE_P \<and> page_bytes t x = replicate 4096 0"
    if va: "in_pages a (Suc n) va" for va
  proof (cases "in_pages a 1 va")
    case True
    with G obtain x where x: "x \<in> free_pages s - free_pages u" "x \<notin> tables (mem u) d"
      "pte_at (mem u) d va = v2p x OR (PTE_W OR PTE_U) OR PTE_P" "page_bytes u x = replicate 4096 0" by blast
    have "page_aligned x" using ka.pages_valid[OF ok] x(1) is_page_aligned by blast
    from grown_page_kept[OF h this] x H disj[OF True] show ?thesis by (intro bexI[of _ x]) auto
  next
    case False
    with va have "in_pages (a + PGSIZE) n va" using in_pages_Suc[OF a] by blast
    with H G show ?thesis by blast
  qed
  moreover have "pte_at (mem t) d va = pte_at (mem s) d va" if "\<not> in_pages a (Suc n) va" for va
    using that in_pages_Suc[OF a] G H by metis
  ultimately show ?thesis unfolding grown_def using G H by blast
qed

lemma allocuvm_loop_grown:
  assumes "pd_ok d s" "alloc_ok s" "page_aligned a" "unat a + 4096 * n < 4294967296"
    "\<And>va. in_pages a n va \<Longrightarrow> \<not> present (pte_at (mem s) d va)" "2 * n \<le> card (free_pages s)"
    "n < fuel" "unat newsz \<le> unat a + 4096 * n" "0 < n \<Longrightarrow> unat a + 4096 * n < unat newsz + 4096"
  shows "\<exists>t. allocuvm_loop d fuel a oldsz newsz s = Ret newsz t \<and> grown d a n s t"
  using assms
proof (induction n arbitrary: s a fuel)
  case 0
  from 0 obtain f where "fuel = Suc f" by (cases fuel) auto
  then show ?case using 0 grown_0[of d s a] by (auto simp: word_less_nat_alt mon_defs)
next
  case (Suc n)
  from Suc.prems obtain f where f: "fuel = Suc f" by (cases fuel) auto
  have lt: "a < newsz" "unat a + 4096 < 4294967296"
    using Suc.prems(4,9) by (auto simp: word_less_nat_alt)
  have "in_pages a (Suc n) a" by (simp add: in_pages_def)
  then have "\<not> present (pte_at (mem s) d a)" using Suc.prems(5) by blast
  from give_page_grown[OF Suc.prems(1,2,3) lt(2) this] Suc.prems(6) obtain u where
    u: "give_page d a s = Ret 0 u" "grown d a 1 s u" "card (free_pages s) \<le> card (free_pages u) + 2" by auto
  note G = u(2)[unfolded grown_def]
  have a4: "unat (a + PGSIZE) = unat a + 4096" by (rule unat_add_page[OF lt(2)])
  have new: "\<not> present (pte_at (mem u) d va)" if "in_pages (a + PGSIZE) n va" for va
  proof -
    have "\<not> in_pages a 1 va" "in_pages a (Suc n) va" using that a4 by (auto simp: in_pages_def)
    with G Suc.prems(5) show ?thesis by auto
  qed
  have al: "page_aligned (a + PGSIZE)" using Suc.prems(3) a4 by (simp add: page_aligned_iff)
  have "pd_ok d u" "alloc_ok u" using G by auto
  from Suc.IH[OF this al _ new, of f] Suc.prems u(3) a4 f obtain t where
    t: "allocuvm_loop d f (a + PGSIZE) oldsz newsz u = Ret newsz t" "grown d (a + PGSIZE) n u t" by auto
  have "allocuvm_loop d fuel a oldsz newsz s = Ret newsz t"
    using u(1) t(1) f lt(1) by (auto simp: give_page_def mon_defs split: outcome.splits if_splits)
  with grown_Suc[OF Suc.prems(2) u(2) t(2) lt(2)] show ?case by blast
qed

text \<open>The number of pages between two sizes of a process.\<close>

definition npages :: "u32 \<Rightarrow> u32 \<Rightarrow> nat" where
  "npages oldsz newsz = (unat newsz + 4095) div 4096 - (unat oldsz + 4095) div 4096"


text \<open>An empty page directory above the pages of \<open>memst_ex\<close>.\<close>

lemma memst_ex_empty: "wd (mem memst_ex) 0x80203000 i = 0" if "i < 1024"
proof -
  have "same_but {0x80202000} (\<lambda>_. 0) (mwr32 (\<lambda>_. 0) (0x80202000 + 4 * of_nat 0) 0x80201000)"
    by (rule same_but_put) (simp_all add: page_aligned_def)
  moreover have "same_but {0x80201000} (mwr32 (\<lambda>_. 0) 0x80202000 0x80201000)
      (mwr32 (mwr32 (\<lambda>_. 0) 0x80202000 0x80201000) (0x80201000 + 4 * of_nat 0) 0)"
    by (rule same_but_put) (simp_all add: page_aligned_def)
  ultimately have "same_but ({0x80202000} \<union> {0x80201000}) (\<lambda>_. 0)
      (mwr32 (mwr32 (\<lambda>_. 0) 0x80202000 0x80201000) 0x80201000 0)"
    by (intro same_but_trans) simp_all
  then have "same_but ({0x80202000} \<union> {0x80201000}) (\<lambda>_. 0) (mem memst_ex)"
    by (simp add: memst_ex_def memst.defs procst.defs)
  then have "wd (mem memst_ex) 0x80203000 i = wd (\<lambda>_. 0) 0x80203000 i"
    by (rule same_but_wd[OF _ _ _ that]) (simp_all add: page_aligned_def)
  then show ?thesis by (simp add: wd_def mrd32_def mrd_def of_le32_def)
qed

lemma memst_ex_pd: "pd_ok 0x80203000 memst_ex" "pte_at (mem memst_ex) 0x80203000 va = 0"
  "\<not> present (wd (mem memst_ex) 0x80203000 (unat (PDX va)))"
proof -
  have n: "\<not> present 0" by (simp add: present_def)
  show "pd_ok 0x80203000 memst_ex"
    using memst_ex_empty n free_pages_list[OF memst_ex_ok]
    by (auto simp: pd_ok_def tables_def is_page_def page_aligned_def v2p_def)
  show "pte_at (mem memst_ex) 0x80203000 va = 0" "\<not> present (wd (mem memst_ex) 0x80203000 (unat (PDX va)))"
    using memst_ex_empty[OF PDX_lt] n by (simp_all add: pte_at_def)
qed




section \<open>The guard page\<close>

lemma uva2ka_pte:
  assumes "present (wd (mem s) d (unat (PDX va)))" "pd_ok d s"
  shows "uva2ka d va s = Ret (if \<not> present (pte_at (mem s) d va) \<or> pte_at (mem s) d va AND PTE_U = 0 then 0
    else p2v (PTE_ADDR (pte_at (mem s) d va))) s"
  using assms(1) tab_not_0[OF assms(2) PDX_lt assms(1) PTX_lt, of va]
  by (simp add: uva2ka_def walkpgdir_present mon_defs rd32_def pte_at_def present_def wd_def)

text \<open>
  The guard page below a user stack: after \<open>clearpteu\<close> of a mapped address no system call
  reaches the page through \<open>uva2ka\<close>, and every other page translates as before.
\<close>

theorem clearpteu_guards:
  assumes "pd_ok d s" and "alloc_ok s" and "present (wd (mem s) d (unat (PDX va)))"
  shows "\<exists>t. clearpteu d va s = Ret () t \<and> pd_ok d t \<and> uva2ka d va t = Ret 0 t \<and>
    (\<forall>vb. \<not> same_page va vb \<longrightarrow> pte_at (mem t) d vb = pte_at (mem s) d vb)"
proof -
  let ?e = "pte_at (mem s) d va"
  let ?m = "mwr32 (mem s) (ptab (mem s) d (unat (PDX va)) + 4 * of_nat (unat (PTX va))) (?e AND NOT PTE_U)"
  let ?t = "s\<lparr>mem := ?m\<rparr>"
  note pe = put_entry[OF assms refl, of "?e AND NOT PTE_U"]
  have c: "clearpteu d va s = Ret () ?t"
    using assms(3) tab_not_0[OF assms(1) PDX_lt assms(3) PTX_lt, of va]
    by (simp add: clearpteu_def walkpgdir_present mon_defs rd32_def wr32_def upd_mem_def pte_at_def wd_def)
  have p: "present (wd (mem ?t) d (unat (PDX va)))"
  proof -
    let ?T = "ptab (mem s) d (unat (PDX va))"
    have T: "is_page ?T s" "?T \<noteq> d" using pd_okD(4)[OF assms(1) PDX_lt assms(3)] by auto
    have "wd ?m d (unat (PDX va)) = wd (mem s) d (unat (PDX va))"
      using wd_mwr[OF is_page_aligned[OF T(1)] pd_okD(1)[OF assms(1)] PTX_lt PDX_lt] T(2) by auto
    with assms(3) show ?thesis by simp
  qed
  have "same_page va va" by (simp add: same_page_def)
  then have "pte_at (mem ?t) d va AND PTE_U = 0" using pe(1)[of va] by (simp add: and.assoc)
  with uva2ka_pte[OF p pe(3)] have "uva2ka d va ?t = Ret 0 ?t" by simp
  with c pe(1,3) show ?thesis by (intro exI[of _ ?t]) simp
qed

theorem clearpteu_guards_witness:
  "\<exists>s t :: memst. present (wd (mem s) 0x80203000 (unat (PDX 0))) \<and> clearpteu 0x80203000 0 s = Ret () t \<and>
     uva2ka 0x80203000 0 t = Ret 0 t"
proof -
  have al: "alloc_ok memst_ex" using memst_ex_ok by (auto simp: alloc_ok_def)
  have "free_pages memst_ex \<noteq> {}" using free_pages_list[OF memst_ex_ok] by simp
  with walkpgdir_alloc[OF memst_ex_pd(1) al, of 0] obtain s :: memst where
    "present (wd (mem s) 0x80203000 (unat (PDX 0)))" "extends_pd 0x80203000 1 memst_ex s" by blast
  with clearpteu_guards[of "0x80203000" s 0] show ?thesis unfolding extends_pd_def by blast
qed

end
