(* ===== verification/Bio.thy ===== *)
theory Bio
  imports Kalloc
begin

text \<open>
  The buffer cache (\<^verbatim>\<open>bio.c\<close>, \<^verbatim>\<open>buf.h\<close>) over the disk driver of \<^verbatim>\<open>memide.c\<close>, which transfers a
  sector at once. The buffers form a doubly linked list through their indices, with the entry
  \<open>NBUF\<close> of the array as \<open>bcache.head\<close>; a buffer's \<open>flags\<close> word is three booleans.
\<close>

section \<open>State\<close>

record buf =
  b_busy :: bool
  b_valid :: bool
  b_dirty :: bool
  b_dev :: u32
  b_sector :: u32
  b_prev :: nat
  b_next :: nat
  b_data :: "u8 list"

text \<open>
  \<open>disk\<close> are the 512-byte sectors of the disk image, \<open>disksize\<close> of them; \<open>wlog\<close> is the
  sequence of the sector writes done so far, a history that no operation reads.
\<close>

record biost = memst +
  bufs :: "buf list"
  disk :: "u32 \<Rightarrow> u8 list"
  disksize :: u32
  wlog :: "(u32 \<times> u8 list) list"

abbreviation (input) BHEAD :: nat where "BHEAD \<equiv> 30"

definition getb :: "nat \<Rightarrow> (buf, 'z biost_scheme) kmon" where
  "getb b s = (if b < length (bufs s) then Ret (bufs s ! b) s else Ub)"

definition updb :: "nat \<Rightarrow> (buf \<Rightarrow> buf) \<Rightarrow> (unit, 'z biost_scheme) kmon" where
  "updb b f s = (if b < length (bufs s)
     then Ret () (s\<lparr>bufs := (bufs s)[b := f (bufs s ! b)]\<rparr>) else Ub)"

text \<open>The accesses \<open>bp->data\<close> of the users of a buffer.\<close>

definition bdata :: "nat \<Rightarrow> (u8 list, 'z biost_scheme) kmon" where
  "bdata b = bnd (getb b) (\<lambda>x. ret (b_data x))"

definition bstore :: "nat \<Rightarrow> (u8 list \<Rightarrow> u8 list) \<Rightarrow> (unit, 'z biost_scheme) kmon" where
  "bstore b f = updb b (\<lambda>x. x\<lparr>b_data := f (b_data x)\<rparr>)"

section \<open>The memory disk\<close>

text \<open>The linker's symbols for the image are parameters of \<open>ideinit\<close>.\<close>

definition ideinit :: "(u32 \<Rightarrow> u8 list) \<Rightarrow> u32 \<Rightarrow> (unit, 'z biost_scheme) kmon" where
  "ideinit img size_bytes = modify (\<lambda>s. s\<lparr>disk := img, disksize := size_bytes div 512\<rparr>)"

definition iderw :: "nat \<Rightarrow> (unit, 'z biost_scheme) kmon" where
  "iderw b =
     bnd (getb b) (\<lambda>x.
       if \<not> b_busy x then panic ''iderw: buf not busy''
       else if b_valid x \<and> \<not> b_dirty x then panic ''iderw: nothing to do''
       else if b_dev x \<noteq> 1 then panic ''iderw: request not for disk 1''
       else bnd (gets disksize) (\<lambda>n.
         if b_sector x \<ge> n then panic ''iderw: sector out of range''
         else thn (if b_dirty x
                   then thn (updb b (\<lambda>x. x\<lparr>b_dirty := False\<rparr>))
                            (modify (\<lambda>s. s\<lparr>disk := (disk s)(b_sector x := b_data x),
                                            wlog := wlog s @ [(b_sector x, b_data x)]\<rparr>))
                   else bnd (gets disk) (\<lambda>d. updb b (\<lambda>x. x\<lparr>b_data := d (b_sector x)\<rparr>)))
             (updb b (\<lambda>x. x\<lparr>b_valid := True\<rparr>))))"

section \<open>The cache\<close>

definition set_next :: "nat \<Rightarrow> nat \<Rightarrow> (unit, 'z biost_scheme) kmon" where
  "set_next b n = updb b (\<lambda>x. x\<lparr>b_next := n\<rparr>)"

definition set_prev :: "nat \<Rightarrow> nat \<Rightarrow> (unit, 'z biost_scheme) kmon" where
  "set_prev b n = updb b (\<lambda>x. x\<lparr>b_prev := n\<rparr>)"

text \<open>The four assignments that put \<open>b\<close> behind the head in \<open>brelse\<close>.\<close>

definition link_front :: "nat \<Rightarrow> (unit, 'z biost_scheme) kmon" where
  "link_front b =
     bnd (getb BHEAD) (\<lambda>h.
     thn (set_next b (b_next h))
     (thn (set_prev b BHEAD)
     (bnd (getb BHEAD) (\<lambda>h.
      thn (set_prev (b_next h) b)
      (set_next BHEAD b)))))"

definition binit_buf :: "nat \<Rightarrow> (unit, 'z biost_scheme) kmon" where
  "binit_buf b =
     thn (bnd (getb BHEAD) (\<lambda>h. set_next b (b_next h)))
     (thn (set_prev b BHEAD)
     (thn (updb b (\<lambda>x. x\<lparr>b_dev := -1\<rparr>))
     (thn (bnd (getb BHEAD) (\<lambda>h. set_prev (b_next h) b))
     (set_next BHEAD b))))"

definition binit :: "(unit, 'z biost_scheme) kmon" where
  "binit =
     thn (modify (upd_lock Lbcache (initlock (LkStr ''bcache''))))
     (thn (set_prev BHEAD BHEAD)
     (thn (set_next BHEAD BHEAD)
     (forM [0..<NBUF] binit_buf)))"

text \<open>
  The two scans of \<open>bget\<close>: along \<open>next\<close> for the sector, along \<open>prev\<close> for a buffer to
  recycle. The list has at most \<open>NBUF\<close> buffers before it returns to the head, which is the fuel.
\<close>

fun scan_next :: "(buf \<Rightarrow> bool) \<Rightarrow> nat \<Rightarrow> nat \<Rightarrow> (nat option, 'z biost_scheme) kmon" where
  "scan_next p 0 b = (\<lambda>s. Spn)"
| "scan_next p (Suc fuel) b =
     (if b = BHEAD then ret None
      else bnd (getb b) (\<lambda>x. if p x then ret (Some b) else scan_next p fuel (b_next x)))"

fun scan_prev :: "(buf \<Rightarrow> bool) \<Rightarrow> nat \<Rightarrow> nat \<Rightarrow> (nat option, 'z biost_scheme) kmon" where
  "scan_prev p 0 b = (\<lambda>s. Spn)"
| "scan_prev p (Suc fuel) b =
     (if b = BHEAD then ret None
      else bnd (getb b) (\<lambda>x. if p x then ret (Some b) else scan_prev p fuel (b_prev x)))"

definition bget_loop :: "u32 \<Rightarrow> u32 \<Rightarrow> (nat, 'z biost_scheme) kmon" where
  "bget_loop dev sector =
     bnd (bnd (getb BHEAD) (\<lambda>h. scan_next (\<lambda>x. b_dev x = dev \<and> b_sector x = sector) (Suc NBUF) (b_next h)))
     (\<lambda>r. case r of
        Some b \<Rightarrow>
          bnd (getb b) (\<lambda>x.
            if \<not> b_busy x
            then thn (updb b (\<lambda>x. x\<lparr>b_busy := True\<rparr>)) (thn (release Lbcache) (ret b))
            else thn (sleep (ChBuf b) (Some Lbcache)) (ret b))
      | None \<Rightarrow>
          bnd (bnd (getb BHEAD) (\<lambda>h. scan_prev (\<lambda>x. \<not> b_busy x \<and> \<not> b_dirty x) (Suc NBUF) (b_prev h)))
          (\<lambda>r. case r of
             Some b \<Rightarrow>
               thn (updb b (\<lambda>x. x\<lparr>b_dev := dev, b_sector := sector, b_busy := True, b_valid := False,
                      b_dirty := False\<rparr>))
               (thn (release Lbcache) (ret b))
           | None \<Rightarrow> panic ''bget: no buffers''))"

definition bget :: "u32 \<Rightarrow> u32 \<Rightarrow> (nat, 'z biost_scheme) kmon" where
  "bget dev sector = thn (acquire Lbcache) (bget_loop dev sector)"

text \<open>What \<open>bget\<close> does when its \<open>sleep\<close> returns: the jump back to \<open>loop\<close>.\<close>

definition bget_return :: "bool \<Rightarrow> u32 \<Rightarrow> u32 \<Rightarrow> (nat, 'z biost_scheme) kmon" where
  "bget_return ie dev sector = thn (sleep_return ie Lbcache) (bget_loop dev sector)"

definition bread :: "u32 \<Rightarrow> u32 \<Rightarrow> (nat, 'z biost_scheme) kmon" where
  "bread dev sector =
     bnd (bget dev sector) (\<lambda>b.
     bnd (getb b) (\<lambda>x.
     thn (if \<not> b_valid x then iderw b else skip)
     (ret b)))"

definition bwrite :: "nat \<Rightarrow> (unit, 'z biost_scheme) kmon" where
  "bwrite b =
     bnd (getb b) (\<lambda>x.
       if \<not> b_busy x then panic ''bwrite''
       else thn (updb b (\<lambda>x. x\<lparr>b_dirty := True\<rparr>)) (iderw b))"

definition brelse :: "nat \<Rightarrow> (unit, 'z biost_scheme) kmon" where
  "brelse b =
     bnd (getb b) (\<lambda>x.
       if \<not> b_busy x then panic ''brelse''
       else
         thn (acquire Lbcache)
         (thn (bnd (getb b) (\<lambda>x. set_prev (b_next x) (b_prev x)))
         (thn (bnd (getb b) (\<lambda>x. set_next (b_prev x) (b_next x)))
         (thn (link_front b)
         (thn (updb b (\<lambda>x. x\<lparr>b_busy := False\<rparr>))
         (thn (wakeup (ChBuf b))
         (release Lbcache)))))))"

section \<open>The linked list\<close>

text \<open>The nodes \<open>xs\<close> lie between \<open>a\<close> and \<open>z\<close> along the links \<open>nx\<close> and back along \<open>pv\<close>.\<close>

fun lnk :: "(nat \<Rightarrow> nat) \<Rightarrow> (nat \<Rightarrow> nat) \<Rightarrow> nat \<Rightarrow> nat list \<Rightarrow> nat \<Rightarrow> bool" where
  "lnk nx pv a [] z \<longleftrightarrow> nx a = z \<and> pv z = a"
| "lnk nx pv a (x # xs) z \<longleftrightarrow> nx a = x \<and> pv x = a \<and> lnk nx pv x xs z"

lemma lnk_append: "lnk nx pv a (us @ x # vs) z \<longleftrightarrow> lnk nx pv a us x \<and> lnk nx pv x vs z"
  by (induction us arbitrary: a) auto

lemma lnk_cong:
  "lnk nx pv a xs z \<Longrightarrow> (\<And>b. b \<in> set (a # xs) \<Longrightarrow> nx' b = nx b) \<Longrightarrow> (\<And>b. b \<in> set (xs @ [z]) \<Longrightarrow> pv' b = pv b) \<Longrightarrow>
   lnk nx' pv' a xs z"
  by (induction xs arbitrary: a) auto

lemma lnk_ends: "lnk nx pv a xs z \<Longrightarrow> pv z = last (a # xs) \<and> nx a = hd (xs @ [z])"
  by (induction xs arbitrary: a) auto

lemma lnk_unlink:
  assumes "lnk nx pv h (us @ x # vs) h" "distinct (h # us @ x # vs)"
  shows "lnk (nx(pv x := nx x)) (pv(nx x := pv x)) h (us @ vs) h"
proof -
  from assms(1) have l: "lnk nx pv h us x" "lnk nx pv x vs h" by (auto simp: lnk_append)
  show ?thesis
  proof (cases us rule: rev_cases)
    case Nil
    with l have p: "pv x = h" by simp
    show ?thesis
    proof (cases vs)
      case Nil
      then show ?thesis using l p \<open>us = []\<close> by simp
    next
      case (Cons n vs')
      with l have n: "nx x = n" "lnk nx pv n vs' h" by auto
      have "lnk (nx(h := n)) (pv(n := h)) n vs' h" by (rule lnk_cong[OF n(2)]) (use assms(2) Cons in auto)
      then show ?thesis using p n \<open>us = []\<close> Cons by simp
    qed
  next
    case (snoc us' p)
    with l have p: "pv x = p" "lnk nx pv h us' p" by (auto simp: lnk_append)
    show ?thesis
    proof (cases vs)
      case Nil
      with l have n: "nx x = h" by simp
      have "lnk (nx(p := h)) (pv(h := p)) h us' p" by (rule lnk_cong[OF p(2)]) (use assms(2) snoc in auto)
      then show ?thesis using p n snoc Nil by (simp add: lnk_append)
    next
      case (Cons n vs')
      with l have n: "nx x = n" "lnk nx pv n vs' h" by auto
      have "lnk (nx(p := n)) (pv(n := p)) h us' p" by (rule lnk_cong[OF p(2)]) (use assms(2) snoc Cons in auto)
      moreover have "lnk (nx(p := n)) (pv(n := p)) n vs' h" by (rule lnk_cong[OF n(2)]) (use assms(2) snoc Cons in auto)
      ultimately show ?thesis using p n snoc Cons by (simp add: lnk_append)
    qed
  qed
qed

lemma lnk_push:
  assumes "lnk nx pv h xs h" "distinct (h # x # xs)"
  shows "lnk (nx(x := nx h, h := x)) (pv(x := h, nx h := x)) h (x # xs) h"
proof (cases xs)
  case Nil
  then show ?thesis using assms by auto
next
  case (Cons n xs')
  with assms have n: "nx h = n" "lnk nx pv n xs' h" by auto
  have "lnk (nx(x := n, h := x)) (pv(x := h, n := x)) n xs' h" by (rule lnk_cong[OF n(2)]) (use assms(2) Cons in auto)
  then show ?thesis using n Cons assms(2) by auto
qed

text \<open>The cache's list: the buffers \<open>xs\<close>, all of them, from the most to the least recently used.\<close>

definition dll :: "buf list \<Rightarrow> nat list \<Rightarrow> bool" where
  "dll bs xs \<longleftrightarrow> length bs = Suc NBUF \<and> distinct xs \<and> set xs = {..<NBUF} \<and>
     lnk (\<lambda>b. b_next (bs ! b)) (\<lambda>b. b_prev (bs ! b)) BHEAD xs BHEAD"

lemma dll_length: "dll bs xs \<Longrightarrow> length xs = NBUF"
  by (metis card_lessThan dll_def distinct_card)

lemma dll_upd:
  assumes "dll bs xs" "b_next y = b_next (bs ! b)" "b_prev y = b_prev (bs ! b)"
  shows "dll (bs[b := y]) xs"
proof -
  have "b_next (bs[b := y] ! c) = b_next (bs ! c)" "b_prev (bs[b := y] ! c) = b_prev (bs ! c)" for c
    using assms(2,3) by (cases "c = b"; cases "b < length bs"; simp add: list_update_beyond)+
  with assms(1) show ?thesis by (simp add: dll_def)
qed

lemma scan_next_find:
  "lnk (\<lambda>b. b_next (bufs s ! b)) pv a xs BHEAD \<Longrightarrow> \<forall>b \<in> set xs. b < NBUF \<Longrightarrow> NBUF < length (bufs s) \<Longrightarrow>
   length xs < fuel \<Longrightarrow> scan_next p fuel (b_next (bufs s ! a)) s = Ret (find (\<lambda>b. p (bufs s ! b)) xs) s"
proof (induction xs arbitrary: a fuel)
  case Nil
  then show ?case by (cases fuel) (auto simp: mon_defs)
next
  case (Cons x xs)
  then obtain f where "fuel = Suc f" by (cases fuel) auto
  with Cons show ?case by (auto simp: mon_defs getb_def)
qed

lemma scan_prev_find:
  "lnk nx (\<lambda>b. b_prev (bufs s ! b)) BHEAD xs z \<Longrightarrow> \<forall>b \<in> set xs. b < NBUF \<Longrightarrow> NBUF < length (bufs s) \<Longrightarrow>
   length xs < fuel \<Longrightarrow> scan_prev p fuel (b_prev (bufs s ! z)) s = Ret (find (\<lambda>b. p (bufs s ! b)) (rev xs)) s"
proof (induction xs arbitrary: z fuel rule: rev_induct)
  case Nil
  then show ?case by (cases fuel) (auto simp: mon_defs)
next
  case (snoc x xs)
  then obtain f where "fuel = Suc f" by (cases fuel) auto
  with snoc show ?case by (auto simp: mon_defs getb_def lnk_append)
qed

section \<open>The invariant of the cache\<close>

definition holds_sector :: "u32 \<Rightarrow> buf \<Rightarrow> bool" where
  "holds_sector sec x \<longleftrightarrow> b_dev x = 1 \<and> b_sector x = sec"

text \<open>
  No sector is cached twice, a buffer with a sector is valid, one that is neither in use nor dirty
  has the contents of the disk, and a buffer without a sector is free.
\<close>

definition bufs_ok :: "(u32 \<Rightarrow> u8 list) \<Rightarrow> u32 \<Rightarrow> buf list \<Rightarrow> bool" where
  "bufs_ok dk n bs \<longleftrightarrow> (\<exists>xs. dll bs xs) \<and> (\<forall>sec < n. length (dk sec) = 512) \<and>
     (\<forall>b < NBUF. \<forall>c < NBUF. b_dev (bs ! b) = 1 \<longrightarrow> b_dev (bs ! c) = 1 \<longrightarrow>
        b_sector (bs ! b) = b_sector (bs ! c) \<longrightarrow> b = c) \<and>
     (\<forall>b < NBUF. b_dev (bs ! b) = 1 \<longrightarrow> b_valid (bs ! b) \<and> length (b_data (bs ! b)) = 512 \<and>
        b_sector (bs ! b) < n \<and>
        (\<not> b_busy (bs ! b) \<longrightarrow> \<not> b_dirty (bs ! b) \<longrightarrow> b_data (bs ! b) = dk (b_sector (bs ! b)))) \<and>
     (\<forall>b < NBUF. b_dev (bs ! b) \<noteq> 1 \<longrightarrow> \<not> b_busy (bs ! b) \<and> \<not> b_dirty (bs ! b))"

definition slot :: "buf list \<Rightarrow> u32 \<Rightarrow> nat option" where
  "slot bs sec = find_idx (holds_sector sec) (take NBUF bs)"

text \<open>
  The abstract view of a cache: the contents of a sector as its users see it, the buffer in which
  a sector is held, and the sectors pinned in the cache by \<open>B_DIRTY\<close>.
\<close>

definition blkb :: "(u32 \<Rightarrow> u8 list) \<Rightarrow> buf list \<Rightarrow> u32 \<Rightarrow> u8 list" where
  "blkb dk bs sec = (case slot bs sec of Some b \<Rightarrow> b_data (bs ! b) | None \<Rightarrow> dk sec)"

definition heldb :: "buf list \<Rightarrow> u32 \<Rightarrow> nat option" where
  "heldb bs sec = (case slot bs sec of Some b \<Rightarrow> if b_busy (bs ! b) then Some b else None | None \<Rightarrow> None)"

definition pinb :: "buf list \<Rightarrow> u32 set" where
  "pinb bs = {sec. \<exists>b. slot bs sec = Some b \<and> b_dirty (bs ! b)}"

lemma bufs_okD:
  assumes "bufs_ok dk n bs"
  shows "length bs = Suc NBUF" "sec < n \<Longrightarrow> length (dk sec) = 512"
    "b < NBUF \<Longrightarrow> c < NBUF \<Longrightarrow> b_dev (bs ! b) = 1 \<Longrightarrow> b_dev (bs ! c) = 1 \<Longrightarrow>
       b_sector (bs ! b) = b_sector (bs ! c) \<Longrightarrow> b = c"
    "b < NBUF \<Longrightarrow> b_dev (bs ! b) = 1 \<Longrightarrow> b_valid (bs ! b) \<and> length (b_data (bs ! b)) = 512 \<and> b_sector (bs ! b) < n"
    "b < NBUF \<Longrightarrow> b_dev (bs ! b) = 1 \<Longrightarrow> \<not> b_busy (bs ! b) \<Longrightarrow> \<not> b_dirty (bs ! b) \<Longrightarrow>
       b_data (bs ! b) = dk (b_sector (bs ! b))"
    "b < NBUF \<Longrightarrow> b_dev (bs ! b) \<noteq> 1 \<Longrightarrow> \<not> b_busy (bs ! b) \<and> \<not> b_dirty (bs ! b)"
  using assms unfolding bufs_ok_def dll_def by blast+

lemma slot_Some:
  assumes "bufs_ok dk n bs"
  shows "slot bs sec = Some b \<longleftrightarrow> b < NBUF \<and> b_dev (bs ! b) = 1 \<and> b_sector (bs ! b) = sec"
proof
  assume "slot bs sec = Some b"
  from find_idx_SomeD[OF this[unfolded slot_def]] bufs_okD(1)[OF assms]
  show "b < NBUF \<and> b_dev (bs ! b) = 1 \<and> b_sector (bs ! b) = sec" by (auto simp: holds_sector_def)
next
  assume b: "b < NBUF \<and> b_dev (bs ! b) = 1 \<and> b_sector (bs ! b) = sec"
  have "\<not> holds_sector sec (take NBUF bs ! j)" if "j < b" for j
    using bufs_okD(3)[OF assms, of j b] b that by (auto simp: holds_sector_def)
  with b bufs_okD(1)[OF assms] show "slot bs sec = Some b"
    unfolding slot_def by (intro find_idx_SomeI) (auto simp: holds_sector_def)
qed

lemma slot_None:
  assumes "bufs_ok dk n bs"
  shows "slot bs sec = None \<longleftrightarrow> (\<forall>b < NBUF. \<not> (b_dev (bs ! b) = 1 \<and> b_sector (bs ! b) = sec))"
  using slot_Some[OF assms] by (metis not_None_eq)

lemma find_slot:
  assumes "bufs_ok dk n bs" "set xs = {..<NBUF}"
  shows "find (\<lambda>b. b_dev (bs ! b) = 1 \<and> b_sector (bs ! b) = sec) xs = slot bs sec"
proof (cases "slot bs sec")
  case None
  then have "find (\<lambda>b. b_dev (bs ! b) = 1 \<and> b_sector (bs ! b) = sec) xs = None"
    using slot_None[OF assms(1)] assms(2) by (auto simp: find_None_iff)
  with None show ?thesis by simp
next
  case (Some b)
  note b = Some[unfolded slot_Some[OF assms(1)]]
  then have "find (\<lambda>b. b_dev (bs ! b) = 1 \<and> b_sector (bs ! b) = sec) xs \<noteq> None"
    using assms(2) by (auto simp: find_None_iff)
  then obtain c where c: "find (\<lambda>b. b_dev (bs ! b) = 1 \<and> b_sector (bs ! b) = sec) xs = Some c" by auto
  from find_Some_iff[THEN iffD1, OF c] assms(2) have "slot bs sec = Some c"
    unfolding slot_Some[OF assms(1)] by (metis lessThan_iff nth_mem)
  with c show ?thesis by simp
qed

lemma option_eqI: "(\<And>a. x = Some a \<longleftrightarrow> y = Some a) \<Longrightarrow> x = y"
  by (cases x; cases y) auto

section \<open>One buffer changes\<close>

text \<open>
  A buffer keeps its sector but changes its flags, its data, or the disk below it: every use of a
  held buffer is of this kind.
\<close>

lemma buf_change:
  assumes ok: "bufs_ok dk n bs" and b: "slot bs sec = Some b"
    and y: "b_dev y = 1" "b_sector y = sec" "b_next y = b_next (bs ! b)" "b_prev y = b_prev (bs ! b)"
      "b_valid y" "length (b_data y) = 512" "\<not> b_busy y \<Longrightarrow> \<not> b_dirty y \<Longrightarrow> b_data y = dk' sec"
    and dk: "\<And>x. x \<noteq> sec \<Longrightarrow> dk' x = dk x" "length (dk' sec) = 512"
  shows "bufs_ok dk' n (bs[b := y])" "slot (bs[b := y]) = slot bs"
    "blkb dk' (bs[b := y]) = (blkb dk bs)(sec := b_data y)"
    "heldb (bs[b := y]) = (heldb bs)(sec := if b_busy y then Some b else None)"
    "pinb (bs[b := y]) = (if b_dirty y then insert sec (pinb bs) else pinb bs - {sec})"
proof -
  note bb = b[unfolded slot_Some[OF ok]]
  note len = bufs_okD(1)[OF ok]
  have at: "bs[b := y] ! c = (if c = b then y else bs ! c)" for c using bb len by simp
  obtain xs where "dll bs xs" using ok by (auto simp: bufs_ok_def)
  then have dl: "dll (bs[b := y]) xs" using y by (intro dll_upd) auto
  have other: "c \<noteq> b \<Longrightarrow> c < NBUF \<Longrightarrow> b_dev (bs ! c) = 1 \<Longrightarrow> b_sector (bs ! c) \<noteq> sec" for c
    using bufs_okD(3)[OF ok, of c b] bb by auto
  show ok': "bufs_ok dk' n (bs[b := y])"
    unfolding bufs_ok_def
  proof (intro conjI allI impI)
    show "\<exists>xs. dll (bs[b := y]) xs" using dl by blast
    show "length (dk' x) = 512" if "x < n" for x using that dk bufs_okD(2)[OF ok] by (cases "x = sec") auto
  next
    fix c e assume "c < NBUF" "e < NBUF" "b_dev (bs[b := y] ! c) = 1" "b_dev (bs[b := y] ! e) = 1"
      "b_sector (bs[b := y] ! c) = b_sector (bs[b := y] ! e)"
    then show "c = e" using bufs_okD(3)[OF ok, of c e] other[of c] other[of e] y(2)
      by (cases "c = b"; cases "e = b") (simp_all add: at)
  next
    fix c assume c: "c < NBUF" "b_dev (bs[b := y] ! c) = 1"
    show "b_valid (bs[b := y] ! c)" "length (b_data (bs[b := y] ! c)) = 512" "b_sector (bs[b := y] ! c) < n"
      using c bufs_okD(4)[OF ok, of c] bufs_okD(4)[OF ok, of b] bb y(1,2,5,6) by (cases "c = b"; simp add: at)+
    assume "\<not> b_busy (bs[b := y] ! c)" "\<not> b_dirty (bs[b := y] ! c)"
    then show "b_data (bs[b := y] ! c) = dk' (b_sector (bs[b := y] ! c))"
      using c y(1,2,7) bufs_okD(5)[OF ok, of c] other[of c] dk(1)[of "b_sector (bs ! c)"]
      by (cases "c = b") (simp_all add: at)
  next
    fix c assume "c < NBUF" "b_dev (bs[b := y] ! c) \<noteq> 1"
    then show "\<not> b_busy (bs[b := y] ! c)" "\<not> b_dirty (bs[b := y] ! c)"
      using y(1) bufs_okD(6)[OF ok, of c] by (cases "c = b"; simp add: at)+
  qed
  have "slot (bs[b := y]) x = slot bs x" for x
  proof (rule option_eqI)
    fix c show "slot (bs[b := y]) x = Some c \<longleftrightarrow> slot bs x = Some c"
      unfolding slot_Some[OF ok] slot_Some[OF ok'] using bb y(1,2) by (cases "c = b") (simp_all add: at)
  qed
  then show sl: "slot (bs[b := y]) = slot bs" by blast
  have ne: "slot bs x = Some c \<Longrightarrow> x \<noteq> sec \<Longrightarrow> c \<noteq> b" for x c using slot_Some[OF ok] bb by auto
  show "blkb dk' (bs[b := y]) = (blkb dk bs)(sec := b_data y)"
    using b ne dk(1) by (auto simp: blkb_def sl at fun_eq_iff split: option.splits)
  show "heldb (bs[b := y]) = (heldb bs)(sec := if b_busy y then Some b else None)"
    using b ne by (auto simp: heldb_def sl at fun_eq_iff split: option.splits)
  show "pinb (bs[b := y]) = (if b_dirty y then insert sec (pinb bs) else pinb bs - {sec})"
    using b ne by (auto simp: pinb_def sl at)
qed

lemma buf_recycle:
  assumes ok: "bufs_ok dk n bs" and sec: "slot bs sec = None" "sec < n"
    and b: "b < NBUF" "\<not> b_busy (bs ! b)" "\<not> b_dirty (bs ! b)"
    and y: "b_dev y = 1" "b_sector y = sec" "b_next y = b_next (bs ! b)" "b_prev y = b_prev (bs ! b)"
      "b_valid y" "b_data y = dk sec" "b_busy y" "\<not> b_dirty y"
  shows "bufs_ok dk n (bs[b := y])" "slot (bs[b := y]) sec = Some b"
    "blkb dk (bs[b := y]) = blkb dk bs" "heldb (bs[b := y]) = (heldb bs)(sec \<mapsto> b)" "pinb (bs[b := y]) = pinb bs"
proof -
  note len = bufs_okD(1)[OF ok]
  note none = sec(1)[unfolded slot_None[OF ok], rule_format]
  have at: "bs[b := y] ! c = (if c = b then y else bs ! c)" for c using b len by simp
  obtain xs where "dll bs xs" using ok by (auto simp: bufs_ok_def)
  then have dl: "dll (bs[b := y]) xs" using y by (intro dll_upd) auto
  show ok': "bufs_ok dk n (bs[b := y])"
    unfolding bufs_ok_def
  proof (intro conjI allI impI)
    show "\<exists>xs. dll (bs[b := y]) xs" using dl by blast
    show "length (dk x) = 512" if "x < n" for x using that bufs_okD(2)[OF ok] by auto
  next
    fix c e assume "c < NBUF" "e < NBUF" "b_dev (bs[b := y] ! c) = 1" "b_dev (bs[b := y] ! e) = 1"
      "b_sector (bs[b := y] ! c) = b_sector (bs[b := y] ! e)"
    then show "c = e" using bufs_okD(3)[OF ok, of c e] none[of c] none[of e] y(2)
      by (cases "c = b"; cases "e = b") (auto simp: at)
  next
    fix c assume c: "c < NBUF" "b_dev (bs[b := y] ! c) = 1"
    show "b_valid (bs[b := y] ! c)" "length (b_data (bs[b := y] ! c)) = 512" "b_sector (bs[b := y] ! c) < n"
      using c bufs_okD(4)[OF ok, of c] bufs_okD(2)[OF ok sec(2)] sec(2) y(2,5,6) by (cases "c = b"; simp add: at)+
    assume "\<not> b_busy (bs[b := y] ! c)" "\<not> b_dirty (bs[b := y] ! c)"
    then show "b_data (bs[b := y] ! c) = dk (b_sector (bs[b := y] ! c))"
      using c y(2,6) bufs_okD(5)[OF ok, of c] by (cases "c = b") (simp_all add: at)
  next
    fix c assume "c < NBUF" "b_dev (bs[b := y] ! c) \<noteq> 1"
    then show "\<not> b_busy (bs[b := y] ! c)" "\<not> b_dirty (bs[b := y] ! c)"
      using y(1) bufs_okD(6)[OF ok, of c] by (cases "c = b"; simp add: at)+
  qed
  show sl: "slot (bs[b := y]) sec = Some b" unfolding slot_Some[OF ok'] using b y(1,2) by (simp add: at)
  have old: "slot (bs[b := y]) x = (if slot bs x = Some b then None else slot bs x)" if "x \<noteq> sec" for x
  proof (rule option_eqI)
    fix c
    have "slot bs x = Some b \<Longrightarrow> slot bs x = Some c \<Longrightarrow> c = b" by simp
    then show "slot (bs[b := y]) x = Some c \<longleftrightarrow> (if slot bs x = Some b then None else slot bs x) = Some c"
      unfolding slot_Some[OF ok] slot_Some[OF ok'] using that y(2) by (cases "c = b") (auto simp: at slot_Some[OF ok])
  qed
  have evicted: "b_data (bs ! b) = dk x" if "slot bs x = Some b" for x
    using that bufs_okD(5)[OF ok b(1) _ b(2,3)] by (auto simp: slot_Some[OF ok])
  show "blkb dk (bs[b := y]) = blkb dk bs"
  proof
    fix x show "blkb dk (bs[b := y]) x = blkb dk bs x"
      by (cases "x = sec") (auto simp: blkb_def sl sec y at old evicted split: option.splits)
  qed
  show "heldb (bs[b := y]) = (heldb bs)(sec \<mapsto> b)"
  proof
    fix x show "heldb (bs[b := y]) x = ((heldb bs)(sec \<mapsto> b)) x"
      using b(2) y(7) by (cases "x = sec") (auto simp: heldb_def sl at old split: option.splits)
  qed
  show "pinb (bs[b := y]) = pinb bs"
  proof (rule set_eqI)
    fix x show "x \<in> pinb (bs[b := y]) \<longleftrightarrow> x \<in> pinb bs"
      using b(3) y(8) sec(1) by (cases "x = sec") (auto simp: pinb_def sl at old split: if_splits)
  qed
qed

section \<open>Only the links change\<close>

definition sn :: "nat \<Rightarrow> nat \<Rightarrow> buf list \<Rightarrow> buf list" where
  "sn i v bs = bs[i := (bs ! i)\<lparr>b_next := v\<rparr>]"

definition sp :: "nat \<Rightarrow> nat \<Rightarrow> buf list \<Rightarrow> buf list" where
  "sp i v bs = bs[i := (bs ! i)\<lparr>b_prev := v\<rparr>]"

definition NX :: "buf list \<Rightarrow> nat \<Rightarrow> nat" where
  "NX bs b = b_next (bs ! b)"

definition PV :: "buf list \<Rightarrow> nat \<Rightarrow> nat" where
  "PV bs b = b_prev (bs ! b)"

lemma sn_links [simp]: "i < length bs \<Longrightarrow> NX (sn i v bs) = (NX bs)(i := v)" "PV (sn i v bs) = PV bs"
  "length (sn i v bs) = length bs"
proof -
  show "i < length bs \<Longrightarrow> NX (sn i v bs) = (NX bs)(i := v)" by (auto simp: NX_def sn_def fun_eq_iff)
  have "PV (sn i v bs) c = PV bs c" for c
    by (cases "i < length bs"; cases "c = i") (auto simp: PV_def sn_def list_update_beyond)
  then show "PV (sn i v bs) = PV bs" by blast
qed (simp add: sn_def)

lemma sp_links [simp]: "i < length bs \<Longrightarrow> PV (sp i v bs) = (PV bs)(i := v)" "NX (sp i v bs) = NX bs"
  "length (sp i v bs) = length bs"
proof -
  show "i < length bs \<Longrightarrow> PV (sp i v bs) = (PV bs)(i := v)" by (auto simp: PV_def sp_def fun_eq_iff)
  have "NX (sp i v bs) c = NX bs c" for c
    by (cases "i < length bs"; cases "c = i") (auto simp: NX_def sp_def list_update_beyond)
  then show "NX (sp i v bs) = NX bs" by blast
qed (simp add: sp_def)

text \<open>A buffer without its links.\<close>

definition core :: "buf \<Rightarrow> buf" where
  "core x = x\<lparr>b_next := 0, b_prev := 0\<rparr>"

lemma core_links [simp]: "core (sn i v bs ! c) = core (bs ! c)" "core (sp i v bs ! c) = core (bs ! c)"
  by (cases "i < length bs"; cases "c = i"; simp add: sn_def sp_def core_def list_update_beyond)+

lemma core_fields:
  "core x = core y \<Longrightarrow> b_dev x = b_dev y \<and> b_sector x = b_sector y \<and> b_busy x = b_busy y \<and>
     b_valid x = b_valid y \<and> b_dirty x = b_dirty y \<and> b_data x = b_data y"
  by (cases x; cases y) (simp add: core_def)

end
