(* ===== verification/Bcache.thy ===== *)
theory Bcache
  imports Bio
begin

text \<open>
  The buffer cache as its users see it: the contract of \<open>bread\<close>, \<open>bwrite\<close> and \<open>brelse\<close> as a
  locale, its interpretation on the definitions of \<^verbatim>\<open>bio.c\<close>, and what follows for reading and
  copying whole sectors.
\<close>

section \<open>Cache fields and locks\<close>

lemma biost_acq [simp]:
  "bufs (acq l s) = bufs s" "disk (acq l s) = disk s" "disksize (acq l s) = disksize s" "wlog (acq l s) = wlog s"
  "bufs (rel l s) = bufs s" "disk (rel l s) = disk s" "disksize (rel l s) = disksize s" "wlog (rel l s) = wlog s"
  "biost.more (acq l s) = biost.more s" "biost.more (rel l s) = biost.more s"
  by (simp_all add: acq_def rel_def)

lemma biost_upd_locks [simp]:
  "lk_free l (s\<lparr>bufs := x\<rparr>) = lk_free l s" "lk_held l (s\<lparr>bufs := x\<rparr>) = lk_held l s"
  "holding l (s\<lparr>bufs := x\<rparr>) = holding l s" "cli_ok (s\<lparr>bufs := x\<rparr>) = cli_ok s"
  "the_cpu (s\<lparr>bufs := x\<rparr>) = the_cpu s"
  "lk_free l (s\<lparr>disk := d\<rparr>) = lk_free l s" "cli_ok (s\<lparr>disk := d\<rparr>) = cli_ok s" "the_cpu (s\<lparr>disk := d\<rparr>) = the_cpu s"
  "lk_free l (s\<lparr>wlog := w\<rparr>) = lk_free l s" "cli_ok (s\<lparr>wlog := w\<rparr>) = cli_ok s" "the_cpu (s\<lparr>wlog := w\<rparr>) = the_cpu s"
  by (simp_all add: lk_defs)

lemma biost_upd_acq [simp]:
  "acq l (s\<lparr>bufs := x\<rparr>) = (acq l s)\<lparr>bufs := x\<rparr>" "rel l (s\<lparr>bufs := x\<rparr>) = (rel l s)\<lparr>bufs := x\<rparr>"
  by (simp_all add: acq_def rel_def)

lemma quiet_biost [simp]:
  "quiet s (t\<lparr>bufs := x\<rparr>) = quiet s t" "quiet s (t\<lparr>disk := d\<rparr>) = quiet s t" "quiet s (t\<lparr>wlog := w\<rparr>) = quiet s t"
  by (simp_all add: quiet_def)

lemma getb_Ret [simp]: "b < length (bufs s) \<Longrightarrow> getb b s = Ret (bufs s ! b) s"
  by (simp add: getb_def)

lemma updb_Ret [simp]: "b < length (bufs s) \<Longrightarrow> updb b f s = Ret () (s\<lparr>bufs := (bufs s)[b := f (bufs s ! b)]\<rparr>)"
  by (simp add: updb_def)

text \<open>What the operations of the cache leave alone.\<close>

definition bframe :: "'z biost_scheme \<Rightarrow> 'z biost_scheme \<Rightarrow> bool" where
  "bframe s t \<longleftrightarrow> quiet s t \<and> mem t = mem s \<and> freelist t = freelist s \<and> use_lock t = use_lock s \<and>
     kend t = kend s \<and> kdata t = kdata s \<and> disksize t = disksize s \<and> biost.more t = biost.more s"

lemma bframe_refl [simp]: "bframe s s"
  by (simp add: bframe_def)

lemma bframe_trans: "bframe s t \<Longrightarrow> bframe t u \<Longrightarrow> bframe s u"
  by (auto simp: bframe_def intro: quiet_trans)

lemma bframe_size: "bframe s t \<Longrightarrow> disksize t = disksize s"
  by (simp add: bframe_def)

lemma bframe_crit: "lk_free l s \<Longrightarrow> cli_ok s \<Longrightarrow> bframe s (rel l (acq l s))"
  by (simp add: bframe_def quiet_crit)

lemma bframe_upd [simp]:
  "bframe s (t\<lparr>bufs := x\<rparr>) = bframe s t" "bframe s (t\<lparr>disk := d\<rparr>) = bframe s t" "bframe s (t\<lparr>wlog := w\<rparr>) = bframe s t"
  by (simp_all add: bframe_def)

section \<open>The invariant in the kernel state\<close>

definition bio_ok :: "'z biost_scheme \<Rightarrow> bool" where
  "bio_ok s \<longleftrightarrow> bufs_ok (disk s) (disksize s) (bufs s) \<and> lk_free Lbcache s \<and> lk_free Lptable s \<and> cli_ok s"

definition blk :: "'z biost_scheme \<Rightarrow> u32 \<Rightarrow> u8 list" where
  "blk s = blkb (disk s) (bufs s)"

definition held :: "'z biost_scheme \<Rightarrow> u32 \<Rightarrow> nat option" where
  "held s = heldb (bufs s)"

definition pin :: "'z biost_scheme \<Rightarrow> u32 set" where
  "pin s = pinb (bufs s)"

text \<open>The sectors that occupy a buffer that cannot be recycled.\<close>

definition used :: "'z biost_scheme \<Rightarrow> u32 set" where
  "used s = dom (held s) \<union> pin s"

lemma heldD: "bio_ok s \<Longrightarrow> held s sec = Some b \<Longrightarrow> slot (bufs s) sec = Some b \<and> b_busy (bufs s ! b) \<and> b < NBUF \<and>
    b < length (bufs s) \<and> b_dev (bufs s ! b) = 1 \<and> b_sector (bufs s ! b) = sec \<and> b_valid (bufs s ! b) \<and> sec < disksize s \<and>
    length (b_data (bufs s ! b)) = 512 \<and> b_data (bufs s ! b) = blk s sec"
proof -
  assume ok: "bio_ok s" and h: "held s sec = Some b"
  have sl: "slot (bufs s) sec = Some b" "b_busy (bufs s ! b)"
    using h by (auto simp: held_def heldb_def split: option.splits if_splits)
  have bo: "bufs_ok (disk s) (disksize s) (bufs s)" using ok by (simp add: bio_ok_def)
  from slot_Some[OF bo, of sec b] sl bufs_okD(1)[OF bo] bufs_okD(4)[OF bo, of b] show ?thesis
    by (auto simp: blk_def blkb_def)
qed

lemma used_room:
  assumes ok: "bufs_ok dk n bs" and c: "card (dom (heldb bs) \<union> pinb bs) < NBUF"
  shows "\<exists>b < NBUF. \<not> b_busy (bs ! b) \<and> \<not> b_dirty (bs ! b)"
proof (rule ccontr)
  assume "\<not> ?thesis"
  then have all: "b_busy (bs ! b) \<or> b_dirty (bs ! b)" if "b < NBUF" for b using that by blast
  have dev: "b_dev (bs ! b) = 1" if "b < NBUF" for b using all[OF that] bufs_okD(6)[OF ok that] by blast
  let ?f = "\<lambda>b. b_sector (bs ! b)"
  have inj: "inj_on ?f {..<NBUF}" using bufs_okD(3)[OF ok] dev by (auto intro!: inj_onI)
  have "?f ` {..<NBUF} = dom (heldb bs) \<union> pinb bs"
  proof (intro equalityI subsetI)
    fix x assume "x \<in> ?f ` {..<NBUF}"
    then obtain b where b: "b < NBUF" "x = ?f b" by auto
    then have "slot bs x = Some b" using slot_Some[OF ok] dev by simp
    with all[OF b(1)] show "x \<in> dom (heldb bs) \<union> pinb bs" by (auto simp: heldb_def pinb_def)
  next
    fix x assume "x \<in> dom (heldb bs) \<union> pinb bs"
    then obtain b where "slot bs x = Some b" by (auto simp: heldb_def pinb_def split: option.splits if_splits)
    then show "x \<in> ?f ` {..<NBUF}" using slot_Some[OF ok] by auto
  qed
  then have "card (dom (heldb bs) \<union> pinb bs) = NBUF" using card_image[OF inj] by simp
  with c show False by simp
qed

section \<open>The operations\<close>

lemma find_SomeD: "find P xs = Some x \<Longrightarrow> P x \<and> x \<in> set xs"
  by (induction xs) (auto split: if_splits)

lemma bget_scans:
  assumes "bufs_ok (disk s) (disksize s) (bufs s)"
  shows "\<exists>xs. set xs = {..<NBUF} \<and> NBUF < length (bufs s) \<and>
    scan_next p 31 (b_next (bufs s ! BHEAD)) s = Ret (find (\<lambda>b. p (bufs s ! b)) xs) s \<and>
    scan_prev q 31 (b_prev (bufs s ! BHEAD)) s = Ret (find (\<lambda>b. q (bufs s ! b)) (rev xs)) s"
proof -
  from assms obtain xs where xs: "dll (bufs s) xs" by (auto simp: bufs_ok_def)
  note d = xs[unfolded dll_def] and len = dll_length[OF xs]
  have "scan_next p 31 (b_next (bufs s ! BHEAD)) s = Ret (find (\<lambda>b. p (bufs s ! b)) xs) s"
    using d len by (intro scan_next_find) auto
  moreover have "scan_prev q 31 (b_prev (bufs s ! BHEAD)) s = Ret (find (\<lambda>b. q (bufs s ! b)) (rev xs)) s"
    using d len by (intro scan_prev_find) auto
  ultimately show ?thesis using d by (intro exI[of _ xs]) simp
qed

lemma bread_hit:
  assumes ok: "bio_ok s" and sl: "slot (bufs s) sec = Some b" and free: "\<not> b_busy (bufs s ! b)"
  shows "bread 1 sec s = Ret b ((rel Lbcache (acq Lbcache s))\<lparr>bufs :=
    (bufs s)[b := (bufs s ! b)\<lparr>b_busy := True\<rparr>]\<rparr>)"
proof -
  have bo: "bufs_ok (disk s) (disksize s) (bufs s)" using ok by (simp add: bio_ok_def)
  let ?s = "acq Lbcache s"
  let ?p = "\<lambda>x. b_dev x = 1 \<and> b_sector x = sec"
  obtain xs where xs: "set xs = {..<NBUF}" "NBUF < length (bufs s)"
    "scan_next ?p 31 (b_next (bufs s ! BHEAD)) ?s = Ret (find (\<lambda>b. ?p (bufs s ! b)) xs) ?s"
    using bget_scans[of ?s ?p] bo by auto
  have b: "b < length (bufs s)" "b_valid (bufs s ! b)"
    using slot_Some[OF bo] sl bufs_okD(1,4)[OF bo] by auto
  show ?thesis
    using xs(2,3) sl free b ok
    by (simp add: bread_def bget_def bget_loop_def bio_ok_def acquire_free release_held mon_defs
        find_slot[OF bo xs(1)])
qed

lemma bread_miss:
  assumes ok: "bio_ok s" and sl: "slot (bufs s) sec = None" and sec: "sec < disksize s"
    and room: "card (used s) < NBUF"
  shows "\<exists>b y. b < NBUF \<and> \<not> b_busy (bufs s ! b) \<and> \<not> b_dirty (bufs s ! b) \<and>
    y = (bufs s ! b)\<lparr>b_dev := 1, b_sector := sec, b_busy := True, b_dirty := False, b_data := disk s sec,
       b_valid := True\<rparr> \<and>
    bread 1 sec s = Ret b ((rel Lbcache (acq Lbcache s))\<lparr>bufs := (bufs s)[b := y]\<rparr>)"
proof -
  have bo: "bufs_ok (disk s) (disksize s) (bufs s)" using ok by (simp add: bio_ok_def)
  let ?s = "acq Lbcache s"
  let ?p = "\<lambda>x. b_dev x = 1 \<and> b_sector x = sec" and ?q = "\<lambda>x. \<not> b_busy x \<and> \<not> b_dirty x"
  obtain xs where xs: "set xs = {..<NBUF}" "NBUF < length (bufs s)"
    "scan_next ?p 31 (b_next (bufs s ! BHEAD)) ?s = Ret (find (\<lambda>b. ?p (bufs s ! b)) xs) ?s"
    "scan_prev ?q 31 (b_prev (bufs s ! BHEAD)) ?s = Ret (find (\<lambda>b. ?q (bufs s ! b)) (rev xs)) ?s"
    using bget_scans[of ?s ?p ?q] bo by auto
  from used_room[OF bo] room obtain c where "c < NBUF" "?q (bufs s ! c)" by (auto simp: used_def held_def pin_def)
  then have "find (\<lambda>b. ?q (bufs s ! b)) (rev xs) \<noteq> None" using xs(1) by (auto simp: find_None_iff)
  then obtain b where f: "find (\<lambda>b. ?q (bufs s ! b)) (rev xs) = Some b" by auto
  then have b: "b < NBUF" "?q (bufs s ! b)" using xs(1) find_SomeD[OF f] by auto
  have len: "length (bufs s) = Suc NBUF" using bufs_okD(1)[OF bo] .
  have "bread 1 sec s = Ret b ((rel Lbcache (acq Lbcache s))\<lparr>bufs := (bufs s)[b := (bufs s ! b)\<lparr>b_dev := 1,
      b_sector := sec, b_busy := True, b_dirty := False, b_data := disk s sec, b_valid := True\<rparr>]\<rparr>)"
    using xs(2-4) sl ok b f len sec[folded not_le]
    by (simp add: bread_def bget_def bget_loop_def bio_ok_def acquire_free release_held mon_defs iderw_def
        find_slot[OF bo xs(1)])
  with b show ?thesis by blast
qed

text \<open>The view of the cache that an operation leaves alone or changes.\<close>

lemma bread_ok:
  assumes ok: "bio_ok s" and sec: "sec < disksize s" "held s sec = None"
    and room: "sec \<in> pin s \<or> card (used s) < NBUF"
  shows "wp (bread 1 sec) (\<lambda>b t. bio_ok t \<and> bframe s t \<and> held t = (held s)(sec \<mapsto> b) \<and> pin t = pin s \<and>
    blk t = blk s \<and> disk t = disk s \<and> wlog t = wlog s) s"
proof -
  have bo: "bufs_ok (disk s) (disksize s) (bufs s)" and lk: "lk_free Lbcache s" "lk_free Lptable s" "cli_ok s"
    using ok by (auto simp: bio_ok_def)
  show ?thesis
  proof (cases "slot (bufs s) sec")
    case (Some b)
    have free: "\<not> b_busy (bufs s ! b)" using sec(2) Some by (auto simp: held_def heldb_def)
    let ?y = "(bufs s ! b)\<lparr>b_busy := True\<rparr>"
    note b = Some[unfolded slot_Some[OF bo]]
    note bc = buf_change[OF bo Some, of ?y "disk s"]
    have c: "bufs_ok (disk s) (disksize s) ((bufs s)[b := ?y])"
      "blkb (disk s) ((bufs s)[b := ?y]) = (blkb (disk s) (bufs s))(sec := b_data (bufs s ! b))"
      "heldb ((bufs s)[b := ?y]) = (heldb (bufs s))(sec \<mapsto> b)"
      "pinb ((bufs s)[b := ?y]) = (if b_dirty (bufs s ! b) then insert sec (pinb (bufs s)) else pinb (bufs s) - {sec})"
      using bc b bufs_okD(4)[OF bo, of b] bufs_okD(2)[OF bo, of sec] by auto
    have "blkb (disk s) (bufs s) sec = b_data (bufs s ! b)" using Some by (simp add: blkb_def)
    then have "blkb (disk s) ((bufs s)[b := ?y]) = blkb (disk s) (bufs s)" using c(2) by auto
    moreover have "pinb ((bufs s)[b := ?y]) = pinb (bufs s)" using c(4) Some by (auto simp: pinb_def)
    ultimately show ?thesis
      using c(1,3) lk bframe_crit[of Lbcache s]
      by (intro wpI[of "bread 1 sec" s, OF bread_hit[OF ok Some free]]) (simp add: bio_ok_def held_def pin_def blk_def)
  next
    case None
    then have "sec \<notin> pin s" by (simp add: pin_def pinb_def)
    with room have "card (used s) < NBUF" by simp
    from bread_miss[OF ok None sec(1) this] obtain b y where
      b: "b < NBUF" "\<not> b_busy (bufs s ! b)" "\<not> b_dirty (bufs s ! b)"
      "bread 1 sec s = Ret b ((rel Lbcache (acq Lbcache s))\<lparr>bufs := (bufs s)[b := y]\<rparr>)"
      and y: "y = (bufs s ! b)\<lparr>b_dev := 1, b_sector := sec, b_busy := True, b_dirty := False, b_data := disk s sec,
       b_valid := True\<rparr>" by blast
    have "bufs_ok (disk s) (disksize s) ((bufs s)[b := y])"
      "blkb (disk s) ((bufs s)[b := y]) = blkb (disk s) (bufs s)" "heldb ((bufs s)[b := y]) = (heldb (bufs s))(sec \<mapsto> b)"
      "pinb ((bufs s)[b := y]) = pinb (bufs s)"
      using buf_recycle[OF bo None sec(1) b(1-3), of y] by (auto simp: y)
    with lk bframe_crit[of Lbcache s] show ?thesis
      by (intro wpI[of "bread 1 sec" s, OF b(4)]) (simp add: bio_ok_def held_def pin_def blk_def)
  qed
qed

text \<open>A change of a held buffer, in the form the remaining operations use.\<close>

lemma held_change:
  assumes ok: "bio_ok s" and h: "held s sec = Some b"
    and y: "b_dev y = 1" "b_sector y = sec" "b_next y = b_next (bufs s ! b)" "b_prev y = b_prev (bufs s ! b)"
      "b_valid y" "length (b_data y) = 512" "b_busy y"
    and dk: "\<And>x. x \<noteq> sec \<Longrightarrow> dk x = disk s x" "length (dk sec) = 512"
    and t: "bufs t = (bufs s)[b := y]" "disk t = dk" "bframe s t"
  shows "bio_ok t \<and> held t = held s \<and> blk t = (blk s)(sec := b_data y) \<and>
    pin t = (if b_dirty y then insert sec (pin s) else pin s - {sec})"
proof -
  have bo: "bufs_ok (disk s) (disksize s) (bufs s)" and lk: "lk_free Lbcache s" "lk_free Lptable s" "cli_ok s"
    using ok by (auto simp: bio_ok_def)
  have sl: "slot (bufs s) sec = Some b" using heldD[OF ok h] by simp
  have c: "bufs_ok dk (disksize s) ((bufs s)[b := y])" "blkb dk ((bufs s)[b := y]) = (blkb (disk s) (bufs s))(sec := b_data y)"
    "heldb ((bufs s)[b := y]) = (heldb (bufs s))(sec \<mapsto> b)"
    "pinb ((bufs s)[b := y]) = (if b_dirty y then insert sec (pinb (bufs s)) else pinb (bufs s) - {sec})"
    using buf_change[OF bo sl y(1-6) _ dk] y(7) by auto
  have "heldb (bufs s) sec = Some b" using h by (simp add: held_def)
  then have "(heldb (bufs s))(sec \<mapsto> b) = heldb (bufs s)" by auto
  with c lk t show ?thesis
    by (auto simp: bio_ok_def held_def blk_def pin_def bframe_def quiet_def cli_ok_def)
qed

lemma bdata_ok: "bio_ok s \<Longrightarrow> held s sec = Some b \<Longrightarrow> bdata b s = Ret (blk s sec) s"
  using heldD[of s sec b] by (simp add: bdata_def mon_defs)

lemma bstore_ok:
  assumes ok: "bio_ok s" and h: "held s sec = Some b" and f: "length (f (blk s sec)) = 512"
  shows "wp (bstore b f) (\<lambda>_ t. bio_ok t \<and> bframe s t \<and> held t = held s \<and> pin t = pin s \<and>
    blk t = (blk s)(sec := f (blk s sec)) \<and> disk t = disk s \<and> wlog t = wlog s) s"
proof -
  note H = heldD[OF ok h]
  let ?y = "(bufs s ! b)\<lparr>b_data := f (b_data (bufs s ! b))\<rparr>"
  let ?t = "s\<lparr>bufs := (bufs s)[b := ?y]\<rparr>"
  have len: "length (disk s sec) = 512" using ok H by (auto simp: bio_ok_def bufs_ok_def)
  have pn: "sec \<in> pin s \<longleftrightarrow> b_dirty (bufs s ! b)" using H by (auto simp: pin_def pinb_def)
  have "bio_ok ?t \<and> held ?t = held s \<and> blk ?t = (blk s)(sec := b_data ?y) \<and>
    pin ?t = (if b_dirty ?y then insert sec (pin s) else pin s - {sec})"
    by (rule held_change[OF ok h]) (use H f len in auto)
  with H pn show ?thesis by (intro wpI[of _ _ "()" ?t]) (auto simp: bstore_def)
qed

lemma bpin_ok:
  assumes ok: "bio_ok s" and h: "held s sec = Some b"
  shows "wp (updb b (\<lambda>x. x\<lparr>b_dirty := True\<rparr>)) (\<lambda>_ t. bio_ok t \<and> bframe s t \<and> held t = held s \<and>
    pin t = insert sec (pin s) \<and> blk t = blk s \<and> disk t = disk s \<and> wlog t = wlog s) s"
proof -
  note H = heldD[OF ok h]
  let ?y = "(bufs s ! b)\<lparr>b_dirty := True\<rparr>"
  let ?t = "s\<lparr>bufs := (bufs s)[b := ?y]\<rparr>"
  have len: "length (disk s sec) = 512" using ok H by (auto simp: bio_ok_def bufs_ok_def)
  have "bio_ok ?t \<and> held ?t = held s \<and> blk ?t = (blk s)(sec := b_data ?y) \<and>
    pin ?t = (if b_dirty ?y then insert sec (pin s) else pin s - {sec})"
    by (rule held_change[OF ok h]) (use H len in auto)
  with H show ?thesis by (intro wpI[of _ _ "()" ?t]) auto
qed

lemma bwrite_ok:
  assumes ok: "bio_ok s" and h: "held s sec = Some b"
  shows "wp (bwrite b) (\<lambda>_ t. bio_ok t \<and> bframe s t \<and> held t = held s \<and> pin t = pin s - {sec} \<and>
    blk t = blk s \<and> disk t = (disk s)(sec := blk s sec) \<and> wlog t = wlog s @ [(sec, blk s sec)]) s"
proof -
  note H = heldD[OF ok h]
  let ?y = "(bufs s ! b)\<lparr>b_dirty := False, b_valid := True\<rparr>"
  let ?d = "(disk s)(sec := blk s sec)"
  let ?t = "s\<lparr>bufs := (bufs s)[b := ?y], disk := ?d, wlog := wlog s @ [(sec, blk s sec)]\<rparr>"
  have r: "bwrite b s = Ret () ?t" using H
    by (simp add: bwrite_def iderw_def mon_defs not_le[THEN iffD2])
  have "bio_ok ?t \<and> held ?t = held s \<and> blk ?t = (blk s)(sec := b_data ?y) \<and>
    pin ?t = (if b_dirty ?y then insert sec (pin s) else pin s - {sec})"
    by (rule held_change[OF ok h, of _ ?d]) (use H in auto)
  with H show ?thesis by (intro wpI[of "bwrite b" s, OF r]) auto
qed

section \<open>Releasing a buffer\<close>

text \<open>Changing the links alone, to those of another order of the buffers, changes nothing else.\<close>

lemma links_only:
  assumes ok: "bufs_ok dk n bs" and d: "dll cs xs" and c: "\<And>b. core (cs ! b) = core (bs ! b)"
  shows "bufs_ok dk n cs" "slot cs = slot bs" "blkb dk cs = blkb dk bs" "heldb cs = heldb bs" "pinb cs = pinb bs"
proof -
  have f: "b_dev (cs ! b) = b_dev (bs ! b)" "b_sector (cs ! b) = b_sector (bs ! b)" "b_busy (cs ! b) = b_busy (bs ! b)"
    "b_valid (cs ! b) = b_valid (bs ! b)" "b_dirty (cs ! b) = b_dirty (bs ! b)" "b_data (cs ! b) = b_data (bs ! b)" for b
    using core_fields[OF c] by auto
  show ok': "bufs_ok dk n cs" unfolding bufs_ok_def f using ok[unfolded bufs_ok_def] d by blast
  have "slot cs x = slot bs x" for x
    by (rule option_eqI) (simp add: slot_Some[OF ok] slot_Some[OF ok'] f)
  then show sl: "slot cs = slot bs" by blast
  show "blkb dk cs = blkb dk bs" "heldb cs = heldb bs" "pinb cs = pinb bs"
    using f by (auto simp: blkb_def heldb_def pinb_def sl fun_eq_iff split: option.splits)
qed

text \<open>The links that \<open>brelse\<close> leaves: its buffer comes first.\<close>

definition relinked :: "nat \<Rightarrow> buf list \<Rightarrow> buf list" where
  "relinked b bs =
     (let bs1 = sp (NX bs b) (PV bs b) bs; bs2 = sn (PV bs1 b) (NX bs1 b) bs1;
          bs3 = sp b BHEAD (sn b (NX bs2 BHEAD) bs2)
      in sn BHEAD b (sp (NX bs3 BHEAD) b bs3))"

lemma dll_bounds:
  assumes "dll bs xs" "b \<le> NBUF"
  shows "NX bs b < length bs" "PV bs b < length bs"
proof -
  note d = assms(1)[unfolded dll_def]
  have mem: "nx b \<in> set (xs @ [z]) \<and> pv b \<in> set (a # xs)"
    if "lnk nx pv a xs z" "a = z" "b = a \<or> b \<in> set xs" for nx pv :: "nat \<Rightarrow> nat" and a z
    using that
  proof -
    have 1: "lnk nx pv a ys w \<Longrightarrow> b \<in> set (a # ys) \<Longrightarrow> nx b \<in> set (ys @ [w])" for a ys w
      by (induction ys arbitrary: a) auto
    have 2: "lnk nx pv a ys w \<Longrightarrow> b \<in> set (ys @ [w]) \<Longrightarrow> pv b \<in> set (a # ys)" for a ys w
      by (induction ys arbitrary: a) auto
    show ?thesis using 1[OF that(1)] 2[OF that(1)] that(2,3) by auto
  qed
  have sx: "set xs = {..<NBUF}" "length bs = 31" using d by simp_all
  have "b = BHEAD \<or> b \<in> set xs" unfolding sx(1) using assms(2) by (cases "b = BHEAD") simp_all
  from mem[OF _ refl this, of "NX bs" "PV bs"] d
  have "NX bs b \<in> set (xs @ [BHEAD])" "PV bs b \<in> set (BHEAD # xs)" by (simp_all add: NX_def[abs_def] PV_def[abs_def])
  then show "NX bs b < length bs" "PV bs b < length bs" unfolding set_append list.set sx by simp_all linarith+
qed

lemma relinked_dll:
  assumes "dll bs (us @ b # vs)"
  shows "dll (relinked b bs) (b # us @ vs)" "core (relinked b bs ! c) = core (bs ! c)"
proof -
  note d = assms[unfolded dll_def]
  let ?h = "BHEAD"
  have b: "b < NBUF" "b \<noteq> ?h" using d by auto
  note bd = dll_bounds[OF assms, of b] dll_bounds[OF assms, of ?h]
  have l0: "lnk (NX bs) (PV bs) ?h (us @ b # vs) ?h" using d by (simp add: NX_def[abs_def] PV_def[abs_def])
  have dis: "distinct (?h # us @ b # vs)" using d by auto
  have nb: "NX bs b \<noteq> b"
    using l0 dis by (cases vs) (auto simp: lnk_append)
  define bs1 where "bs1 = sp (NX bs b) (PV bs b) bs"
  define bs2 where "bs2 = sn (PV bs1 b) (NX bs1 b) bs1"
  define bs3 where "bs3 = sp b ?h (sn b (NX bs2 ?h) bs2)"
  have len: "length bs = 31" using d by simp
  have l1: "length bs1 = 31" "NX bs1 = NX bs" "PV bs1 = (PV bs)(NX bs b := PV bs b)"
    using len bd b by (auto simp: bs1_def)
  have l2: "length bs2 = 31" "NX bs2 = (NX bs)(PV bs b := NX bs b)" "PV bs2 = (PV bs)(NX bs b := PV bs b)"
    using l1 len bd b nb by (auto simp: bs2_def)
  have l3: "length bs3 = 31" "NX bs3 = (NX bs2)(b := NX bs2 ?h)" "PV bs3 = (PV bs2)(b := ?h)"
    using l2 b by (auto simp: bs3_def)
  have h2: "NX bs2 ?h < 31" using l2 bd b len by auto
  have r: "relinked b bs = sn ?h b (sp (NX bs3 ?h) b bs3)"
    by (simp add: relinked_def bs1_def bs2_def bs3_def Let_def)
  have l4: "length (relinked b bs) = 31" "NX (relinked b bs) = (NX bs2)(b := NX bs2 ?h, ?h := b)"
    "PV (relinked b bs) = (PV bs2)(b := ?h, NX bs2 ?h := b)"
    unfolding r using l3 h2 b by auto
  have "lnk (NX bs2) (PV bs2) ?h (us @ vs) ?h" using lnk_unlink[OF l0 dis] l2 by simp
  from lnk_push[OF this, of b] dis have "lnk (NX (relinked b bs)) (PV (relinked b bs)) ?h (b # us @ vs) ?h"
    unfolding l4 by auto
  then show "dll (relinked b bs) (b # us @ vs)"
    using d l4(1) by (auto simp: dll_def NX_def[abs_def] PV_def[abs_def])
  show "core (relinked b bs ! c) = core (bs ! c)" by (simp add: r bs3_def bs2_def bs1_def)
qed

lemma set_links_Ret:
  "b < length (bufs s) \<Longrightarrow> set_next b v s = Ret () (s\<lparr>bufs := sn b v (bufs s)\<rparr>)"
  "b < length (bufs s) \<Longrightarrow> set_prev b v s = Ret () (s\<lparr>bufs := sp b v (bufs s)\<rparr>)"
  by (simp_all add: set_next_def set_prev_def sn_def sp_def)

lemma brelse_Ret:
  assumes d: "dll (bufs s) xs" and b: "b < NBUF" "b_busy (bufs s ! b)"
    and lk: "lk_free Lbcache s" "lk_free Lptable s" "cli_ok s"
  shows "brelse b s = Ret () ((rel Lbcache (rel Lptable (acq Lptable (acq Lbcache s))))\<lparr>bufs :=
    (relinked b (bufs s))[b := (relinked b (bufs s) ! b)\<lparr>b_busy := False\<rparr>],
    ptable := map (wakeup_proc (ChBuf b)) (ptable s)\<rparr>)"
proof -
  define bs1 where "bs1 = sp (NX (bufs s) b) (PV (bufs s) b) (bufs s)"
  define bs2 where "bs2 = sn (PV bs1 b) (NX bs1 b) bs1"
  define bs3 where "bs3 = sn b (NX bs2 BHEAD) bs2"
  define bs4 where "bs4 = sp b BHEAD bs3"
  have r: "relinked b (bufs s) = sn BHEAD b (sp (NX bs4 BHEAD) b bs4)"
    by (simp add: relinked_def bs1_def bs2_def bs3_def bs4_def Let_def)
  have len: "length (bufs s) = 31" using d by (simp add: dll_def)
  have bd: "NX (bufs s) c < 31" "PV (bufs s) c < 31" if "c \<le> NBUF" for c
    using dll_bounds[OF d that] len by simp_all
  have l1: "length bs1 = 31" "NX bs1 = NX (bufs s)" "PV bs1 c < 31" if "c \<le> NBUF" for c
    using len bd[of b] bd[OF that] b by (simp_all add: bs1_def)
  have l2: "length bs2 = 31" "NX bs2 BHEAD < 31"
    using l1[of b] bd[of b] bd[of BHEAD] b by (simp_all add: bs2_def)
  have l4: "length bs3 = 31" "length bs4 = 31" "NX bs4 BHEAD < 31"
    using l2 b by (simp_all add: bs4_def bs3_def)
  show ?thesis
    using b lk cli_ok_def[THEN iffD1, OF lk(3), THEN conjunct1] len l1(1,3)[of b] bd[of b] l2 l4
    by (simp del: sn_links(1,2) sp_links(1,2) add: brelse_def link_front_def mon_defs acquire_free release_held set_links_Ret wakeup_Ret
        NX_def[symmetric] PV_def[symmetric] bs1_def[symmetric] bs2_def[symmetric] bs3_def[symmetric]
        bs4_def[symmetric] r)
qed

lemma brelse_ok:
  assumes ok: "bio_ok s" and h: "held s sec = Some b" and cl: "sec \<in> pin s \<or> blk s sec = disk s sec"
  shows "wp (brelse b) (\<lambda>_ t. bio_ok t \<and> bframe s t \<and> held t = (held s)(sec := None) \<and> pin t = pin s \<and>
    blk t = blk s \<and> disk t = disk s \<and> wlog t = wlog s) s"
proof -
  have bo: "bufs_ok (disk s) (disksize s) (bufs s)" and lk: "lk_free Lbcache s" "lk_free Lptable s" "cli_ok s"
    using ok by (auto simp: bio_ok_def)
  note H = heldD[OF ok h]
  from bo obtain xs where xs: "dll (bufs s) xs" by (auto simp: bufs_ok_def)
  then have "b \<in> set xs" using H by (simp add: dll_def)
  with xs obtain us vs where d: "dll (bufs s) (us @ b # vs)" by (auto dest: split_list)
  let ?r = "relinked b (bufs s)"
  let ?y = "(?r ! b)\<lparr>b_busy := False\<rparr>"
  note lo = links_only[OF bo relinked_dll[OF d]]
  have sl: "slot ?r sec = Some b" using lo(2) H by simp
  have f: "b_dev (?r ! b) = 1" "b_sector (?r ! b) = sec" "b_valid (?r ! b)" "b_data (?r ! b) = blk s sec"
    "b_dirty (?r ! b) \<longleftrightarrow> sec \<in> pin s"
    using core_fields[OF relinked_dll(2)[OF d, of b]] H by (auto simp: pin_def pinb_def)
  have c: "bufs_ok (disk s) (disksize s) (?r[b := ?y])" "blkb (disk s) (?r[b := ?y]) = (blkb (disk s) ?r)(sec := blk s sec)"
    "heldb (?r[b := ?y]) = (heldb ?r)(sec := None)"
    "pinb (?r[b := ?y]) = (if sec \<in> pin s then insert sec (pinb ?r) else pinb ?r - {sec})"
    using buf_change[OF lo(1) sl, of ?y "disk s"] f cl H bufs_okD(2)[OF bo, of sec] by auto
  have "(blkb (disk s) ?r)(sec := blk s sec) = blkb (disk s) ?r" using lo(3) by (auto simp: blk_def)
  moreover have "(if sec \<in> pin s then insert sec (pinb ?r) else pinb ?r - {sec}) = pinb ?r" using lo(5) by (auto simp: pin_def)
  moreover have "bframe s ((rel Lbcache (rel Lptable (acq Lptable (acq Lbcache s))))\<lparr>bufs := ?r[b := ?y],
      ptable := map (wakeup_proc (ChBuf b)) (ptable s)\<rparr>)"
    using quiet_crit2[OF lk(1,2) _ lk(3)] by (simp add: bframe_def quiet_woke)
  ultimately show ?thesis using c lo(3-5) lk H cli_ok_def[THEN iffD1, OF lk(3), THEN conjunct1]
    by (intro wpI[of "brelse b" s, OF brelse_Ret[OF d _ _ lk]]) (simp_all add: bio_ok_def held_def pin_def blk_def)
qed

section \<open>The cache as an interface\<close>

text \<open>
  The contract that the users of the cache rely on. A sector is read into a buffer, where it is held
  until it is released; its contents are then those last stored, whatever buffers are recycled
  meanwhile. A sector is recycled only when the disk has its contents: it must have been written, or
  be pinned, when it is released.
\<close>

locale block_cache =
  fixes ok :: "'s \<Rightarrow> bool" and frame :: "'s \<Rightarrow> 's \<Rightarrow> bool" and nsec :: "'s \<Rightarrow> u32"
    and view :: "'s \<Rightarrow> u32 \<Rightarrow> u8 list" and holder :: "'s \<Rightarrow> u32 \<Rightarrow> 'b option" and pinned :: "'s \<Rightarrow> u32 set"
    and dsk :: "'s \<Rightarrow> u32 \<Rightarrow> u8 list" and hist :: "'s \<Rightarrow> (u32 \<times> u8 list) list"
    and rd :: "u32 \<Rightarrow> ('b, 's) kmon" and data :: "'b \<Rightarrow> (u8 list, 's) kmon"
    and store :: "'b \<Rightarrow> (u8 list \<Rightarrow> u8 list) \<Rightarrow> (unit, 's) kmon"
    and put :: "'b \<Rightarrow> (unit, 's) kmon" and rls :: "'b \<Rightarrow> (unit, 's) kmon"
  assumes frame_refl: "frame s s" and frame_trans: "frame s t \<Longrightarrow> frame t u \<Longrightarrow> frame s u"
    and frame_nsec: "frame s t \<Longrightarrow> nsec t = nsec s"
    and view_length: "ok s \<Longrightarrow> sec < nsec s \<Longrightarrow> length (view s sec) = 512"
    and rd: "ok s \<Longrightarrow> sec < nsec s \<Longrightarrow> holder s sec = None \<Longrightarrow>
      sec \<in> pinned s \<or> card (dom (holder s) \<union> pinned s) < NBUF \<Longrightarrow>
      wp (rd sec) (\<lambda>b t. ok t \<and> frame s t \<and> holder t = (holder s)(sec \<mapsto> b) \<and> pinned t = pinned s \<and>
        view t = view s \<and> dsk t = dsk s \<and> hist t = hist s) s"
    and data: "ok s \<Longrightarrow> holder s sec = Some b \<Longrightarrow> data b s = Ret (view s sec) s"
    and store: "ok s \<Longrightarrow> holder s sec = Some b \<Longrightarrow> length (f (view s sec)) = 512 \<Longrightarrow>
      wp (store b f) (\<lambda>_ t. ok t \<and> frame s t \<and> holder t = holder s \<and> pinned t = pinned s \<and>
        view t = (view s)(sec := f (view s sec)) \<and> dsk t = dsk s \<and> hist t = hist s) s"
    and put: "ok s \<Longrightarrow> holder s sec = Some b \<Longrightarrow>
      wp (put b) (\<lambda>_ t. ok t \<and> frame s t \<and> holder t = holder s \<and> pinned t = pinned s - {sec} \<and>
        view t = view s \<and> dsk t = (dsk s)(sec := view s sec) \<and> hist t = hist s @ [(sec, view s sec)]) s"
    and rls: "ok s \<Longrightarrow> holder s sec = Some b \<Longrightarrow> sec \<in> pinned s \<or> view s sec = dsk s sec \<Longrightarrow>
      wp (rls b) (\<lambda>_ t. ok t \<and> frame s t \<and> holder t = (holder s)(sec := None) \<and> pinned t = pinned s \<and>
        view t = view s \<and> dsk t = dsk s \<and> hist t = hist s) s"
begin

definition same :: "'s \<Rightarrow> 's \<Rightarrow> bool" where
  "same s t \<longleftrightarrow> ok t \<and> frame s t \<and> holder t = holder s \<and> pinned t = pinned s \<and> view t = view s \<and>
     dsk t = dsk s \<and> hist t = hist s"

definition clean :: "'s \<Rightarrow> u32 \<Rightarrow> bool" where
  "clean s sec \<longleftrightarrow> sec < nsec s \<and> holder s sec = None \<and> (sec \<in> pinned s \<or> view s sec = dsk s sec)"

text \<open>Reading a sector and releasing it gives its contents and changes nothing.\<close>

lemma read_block:
  assumes "ok s" "clean s sec" "sec \<in> pinned s \<or> card (dom (holder s) \<union> pinned s) < NBUF"
  shows "wp (bnd (rd sec) (\<lambda>b. bnd (data b) (\<lambda>d. thn (rls b) (ret d))))
    (\<lambda>d t. d = view s sec \<and> same s t) s"
proof -
  have up: "(holder s)(sec := None) = holder s" using assms(2) by (auto simp: clean_def)
  have "wp (bnd (data b) (\<lambda>d. thn (rls b) (ret d))) (\<lambda>d t. d = view s sec \<and> same s t) t"
    if t: "ok t \<and> frame s t \<and> holder t = (holder s)(sec \<mapsto> b) \<and> pinned t = pinned s \<and>
        view t = view s \<and> dsk t = dsk s \<and> hist t = hist s" for b t
  proof -
    have h: "holder t sec = Some b" using t by simp
    have "wp (rls b) (\<lambda>_ u. view s sec = view s sec \<and> same s u) t"
      by (rule wp_mono[OF rls[OF _ h]]) (use t assms(2) up in \<open>auto simp: same_def clean_def intro: frame_trans\<close>)
    then show ?thesis using data[OF _ h] t by (simp add: wp_Ret)
  qed
  with assms wp_mono[OF rd[of s sec]] show ?thesis by (simp add: clean_def)
qed

text \<open>
  Copying a sector to another one through two buffers, one of which the disk gets: the sequence of
  \<open>write_log\<close>, which reads the destination first, and of \<open>install_trans\<close>, which reads the source first.
\<close>

definition copied :: "'s \<Rightarrow> u32 \<Rightarrow> u32 \<Rightarrow> 's \<Rightarrow> bool" where
  "copied s src dst t \<longleftrightarrow> ok t \<and> frame s t \<and> holder t = holder s \<and> pinned t = pinned s - {dst} \<and>
     view t = (view s)(dst := view s src) \<and> dsk t = (dsk s)(dst := view s src) \<and>
     hist t = hist s @ [(dst, view s src)]"

lemma copy_held:
  assumes t: "ok t" "frame s t" "holder t src = Some from" "holder t dst = Some to" "src \<noteq> dst"
    "(holder t)(src := None, dst := None) = holder s" "pinned t = pinned s" "view t = view s" "dsk t = dsk s" "hist t = hist s"
    and s: "ok s" "clean s src" "src < nsec s"
  shows "wp (bnd (data from) (\<lambda>d. thn (store to (\<lambda>_. d)) (thn (put to) (thn (rls from) (rls to))))) (\<lambda>_. copied s src dst) t"
proof -
  have len: "length (view s src) = 512" using view_length s by blast
  have "wp (thn (store to (\<lambda>_. view t src)) (thn (put to) (thn (rls from) (rls to)))) (\<lambda>_. copied s src dst) t"
  proof (rule wp_thnI[OF store[OF t(1) t(4)]])
    fix u assume u: "ok u \<and> frame t u \<and> holder u = holder t \<and> pinned u = pinned t \<and>
        view u = (view t)(dst := view t src) \<and> dsk u = dsk t \<and> hist u = hist t"
    show "wp (thn (put to) (thn (rls from) (rls to))) (\<lambda>_. copied s src dst) u"
    proof (rule wp_thnI[OF put])
      show "ok u" "holder u dst = Some to" using u t by simp_all
      fix v assume v: "ok v \<and> frame u v \<and> holder v = holder u \<and> pinned v = pinned u - {dst} \<and>
        view v = view u \<and> dsk v = (dsk u)(dst := view u dst) \<and> hist v = hist u @ [(dst, view u dst)]"
      show "wp (thn (rls from) (rls to)) (\<lambda>_. copied s src dst) v"
      proof (rule wp_thnI[OF rls])
        show "ok v" "holder v src = Some from" "src \<in> pinned v \<or> view v src = dsk v src"
          using u v t s(2) by (auto simp: clean_def)
        fix w assume w: "ok w \<and> frame v w \<and> holder w = (holder v)(src := None) \<and> pinned w = pinned v \<and>
          view w = view v \<and> dsk w = dsk v \<and> hist w = hist v"
        show "wp (rls to) (\<lambda>_. copied s src dst) w"
        proof (rule wp_mono[OF rls])
          show "ok w" "holder w dst = Some to" "dst \<in> pinned w \<or> view w dst = dsk w dst" using u v w t by auto
          fix x assume x: "ok x \<and> frame w x \<and> holder x = (holder w)(dst := None) \<and> pinned x = pinned w \<and>
            view x = view w \<and> dsk x = dsk w \<and> hist x = hist w"
          have "frame t u" "frame u v" "frame v w" "frame w x" using u v w x by simp_all
          note frame_trans[OF t(2) frame_trans[OF this(1) frame_trans[OF this(2) frame_trans[OF this(3,4)]]]]
          then show "copied s src dst x" using t(5-10) u v w x by (simp add: copied_def)
        qed
      qed
    qed
  qed (use t len in simp)
  then show ?thesis using data[OF t(1,3)] by (simp add: wp_Ret)
qed

lemma upd_twice: "holder s src = None \<Longrightarrow> holder s dst = None \<Longrightarrow>
  ((holder s)(dst \<mapsto> b, src \<mapsto> c))(src := None, dst := None) = holder s"
  "holder s src = None \<Longrightarrow> holder s dst = None \<Longrightarrow>
  ((holder s)(src \<mapsto> b, dst \<mapsto> c))(src := None, dst := None) = holder s"
  by auto

lemma copy_dst_first:
  assumes s: "ok s" "clean s src" "dst < nsec s" "holder s dst = None" "src \<noteq> dst"
    and room: "dst \<in> pinned s \<or> card (dom (holder s) \<union> pinned s) < NBUF"
      "src \<in> pinned s \<or> card (insert dst (dom (holder s) \<union> pinned s)) < NBUF"
  shows "wp (bnd (rd dst) (\<lambda>to. bnd (rd src) (\<lambda>from.
    bnd (data from) (\<lambda>d. thn (store to (\<lambda>_. d)) (thn (put to) (thn (rls from) (rls to))))))) (\<lambda>_. copied s src dst) s"
proof (rule wp_bndI[OF rd[OF s(1,3,4) room(1)]])
  fix to t assume t: "ok t \<and> frame s t \<and> holder t = (holder s)(dst \<mapsto> to) \<and> pinned t = pinned s \<and>
    view t = view s \<and> dsk t = dsk s \<and> hist t = hist s"
  show "wp (bnd (rd src) (\<lambda>from. bnd (data from) (\<lambda>d. thn (store to (\<lambda>_. d)) (thn (put to) (thn (rls from) (rls to))))))
    (\<lambda>_. copied s src dst) t"
  proof (rule wp_bndI[OF rd[of t src]])
    fix "from" u assume u: "ok u \<and> frame t u \<and> holder u = (holder t)(src \<mapsto> from) \<and> pinned u = pinned t \<and>
      view u = view t \<and> dsk u = dsk t \<and> hist u = hist t"
    show "wp (bnd (data from) (\<lambda>d. thn (store to (\<lambda>_. d)) (thn (put to) (thn (rls from) (rls to))))) (\<lambda>_. copied s src dst) u"
      using t u s upd_twice(1)[of s src dst to "from"]
      frame_trans[of s t u]
      by (intro copy_held) (simp_all add: clean_def)
  qed (use t s room frame_nsec[of s t] in \<open>auto simp: clean_def\<close>)
qed

lemma copy_src_first:
  assumes s: "ok s" "clean s src" "dst < nsec s" "holder s dst = None" "src \<noteq> dst"
    and room: "src \<in> pinned s \<or> card (dom (holder s) \<union> pinned s) < NBUF"
      "dst \<in> pinned s \<or> card (insert src (dom (holder s) \<union> pinned s)) < NBUF"
  shows "wp (bnd (rd src) (\<lambda>from. bnd (rd dst) (\<lambda>to.
    bnd (data from) (\<lambda>d. thn (store to (\<lambda>_. d)) (thn (put to) (thn (rls from) (rls to))))))) (\<lambda>_. copied s src dst) s"
proof (rule wp_bndI[OF rd[OF s(1) _ _ room(1)]])
  fix "from" t assume t: "ok t \<and> frame s t \<and> holder t = (holder s)(src \<mapsto> from) \<and> pinned t = pinned s \<and>
    view t = view s \<and> dsk t = dsk s \<and> hist t = hist s"
  show "wp (bnd (rd dst) (\<lambda>to. bnd (data from) (\<lambda>d. thn (store to (\<lambda>_. d)) (thn (put to) (thn (rls from) (rls to))))))
    (\<lambda>_. copied s src dst) t"
  proof (rule wp_bndI[OF rd[of t dst]])
    fix to u assume u: "ok u \<and> frame t u \<and> holder u = (holder t)(dst \<mapsto> to) \<and> pinned u = pinned t \<and>
      view u = view t \<and> dsk u = dsk t \<and> hist u = hist t"
    show "wp (bnd (data from) (\<lambda>d. thn (store to (\<lambda>_. d)) (thn (put to) (thn (rls from) (rls to))))) (\<lambda>_. copied s src dst) u"
      using t u s upd_twice(2)[of s src dst "from" to]
      frame_trans[of s t u]
      by (intro copy_held) (simp_all add: clean_def)
  qed (use t s room frame_nsec[of s t] in \<open>auto simp: clean_def\<close>)
qed (use s in \<open>auto simp: clean_def\<close>)

end

interpretation bc: block_cache bio_ok bframe disksize blk held pin disk wlog "bread 1" bdata bstore bwrite brelse
proof unfold_locales
  show "length (blk s sec) = 512" if "bio_ok s" "sec < disksize s" for s :: "'a biost_scheme" and sec
    using that bufs_okD(2,4)[of "disk s" "disksize s" "bufs s"] slot_Some[of "disk s" "disksize s" "bufs s"]
    by (auto simp: bio_ok_def blk_def blkb_def split: option.splits)
qed (rule bframe_refl bframe_trans bframe_size bread_ok[unfolded used_def] bdata_ok bstore_ok bwrite_ok brelse_ok; assumption)+

section \<open>Initialisation\<close>

text \<open>The first \<open>i\<close> buffers are linked, the last of them first, and none is in use.\<close>

definition binit_inv :: "nat \<Rightarrow> buf list \<Rightarrow> bool" where
  "binit_inv i bs \<longleftrightarrow> length bs = 31 \<and> lnk (NX bs) (PV bs) BHEAD (rev [0..<i]) BHEAD \<and>
     (\<forall>b < i. b_dev (bs ! b) = -1) \<and> (\<forall>b < 31. \<not> b_busy (bs ! b) \<and> \<not> b_dirty (bs ! b))"

lemma binit_step:
  assumes i: "i < NBUF" and I: "binit_inv i bs"
  defines "cs \<equiv> sp i BHEAD (sn i (NX bs BHEAD) bs)"
  defines "ds \<equiv> cs[i := (cs ! i)\<lparr>b_dev := -1\<rparr>]"
  shows "NX bs BHEAD < 31" "length ds = 31" "NX ds BHEAD = NX bs BHEAD" "binit_inv (Suc i) (sn BHEAD i (sp (NX ds BHEAD) i ds))"
proof -
  from I have l: "lnk (NX bs) (PV bs) BHEAD (rev [0..<i]) BHEAD" and len: "length bs = 31" by (auto simp: binit_inv_def)
  have "NX bs BHEAD = hd (rev [0..<i] @ [BHEAD])" using lnk_ends[OF l] by simp
  then show h: "NX bs BHEAD < 31" using i by (cases i) auto
  have lc: "length cs = 31" by (simp add: cs_def len)
  then show ld: "length ds = 31" by (simp add: ds_def)
  have at: "ds ! c = (if c = i then (cs ! i)\<lparr>b_dev := -1\<rparr> else cs ! c)" for c using i lc by (simp add: ds_def)
  have N: "NX ds = (NX bs)(i := NX bs BHEAD)" "PV ds = (PV bs)(i := BHEAD)"
  proof -
    have "NX ds = NX cs" "PV ds = PV cs" by (auto simp: NX_def PV_def at fun_eq_iff)
    then show "NX ds = (NX bs)(i := NX bs BHEAD)" "PV ds = (PV bs)(i := BHEAD)" using i len by (simp_all add: cs_def)
  qed
  then show hd: "NX ds BHEAD = NX bs BHEAD" using i by simp
  let ?r = "sn BHEAD i (sp (NX ds BHEAD) i ds)"
  have r: "NX ?r = (NX bs)(i := NX bs BHEAD, BHEAD := i)" "PV ?r = (PV bs)(i := BHEAD, NX bs BHEAD := i)" "length ?r = 31"
    using ld N h hd by simp_all
  have "distinct (BHEAD # i # rev [0..<i])" using i by auto
  from lnk_push[OF l this] have L: "lnk (NX ?r) (PV ?r) BHEAD (rev [0..<Suc i]) BHEAD" unfolding r by simp
  have co: "b_dev (?r ! c) = (if c = i then -1 else b_dev (bs ! c)) \<and> b_busy (?r ! c) = b_busy (bs ! c) \<and>
      b_dirty (?r ! c) = b_dirty (bs ! c)" for c
  proof -
    have "core (?r ! c) = core (ds ! c)" "core (cs ! c) = core (bs ! c)" by (simp_all add: cs_def)
    from core_fields[OF this(1)] core_fields[OF this(2)] show ?thesis by (auto simp: at)
  qed
  with I r(3) L show "binit_inv (Suc i) ?r" by (auto simp: binit_inv_def less_Suc_eq)
qed

lemma binit_inv_done:
  assumes "binit_inv NBUF bs" "\<And>sec. sec < n \<Longrightarrow> length (dk sec) = 512"
  shows "dll bs (rev [0..<NBUF])" "bufs_ok dk n bs" "slot bs sec = None"
proof -
  show d: "dll bs (rev [0..<NBUF])"
    using assms(1) by (auto simp: binit_inv_def dll_def NX_def[abs_def] PV_def[abs_def] simp del: upt_rec_numeral)
  have dev: "b_dev (bs ! b) \<noteq> 1" if "b < NBUF" for b using assms(1) that by (simp add: binit_inv_def)
  with d show ok: "bufs_ok dk n bs" using assms by (auto simp: bufs_ok_def binit_inv_def)
  show "slot bs sec = None" unfolding slot_None[OF ok] using dev by blast
qed

lemma binit_wp:
  assumes len: "length (bufs s) = 31" and z: "\<forall>b < 31. \<not> b_busy (bufs s ! b) \<and> \<not> b_dirty (bufs s ! b)"
  shows "wp binit (\<lambda>_ t. \<exists>bs. t = (upd_lock Lbcache (initlock (LkStr ''bcache'')) s)\<lparr>bufs := bs\<rparr> \<and> binit_inv NBUF bs) s"
proof -
  define u where "u = upd_lock Lbcache (initlock (LkStr ''bcache'')) s"
  have u: "bufs u = bufs s" by (simp add: u_def upd_lock_def)
  let ?I = "\<lambda>i t. \<exists>bs. t = u\<lparr>bufs := bs\<rparr> \<and> binit_inv i bs"
  let ?bs = "sn BHEAD BHEAD (sp BHEAD BHEAD (bufs s))"
  have "b_busy (?bs ! c) = b_busy (bufs s ! c) \<and> b_dirty (?bs ! c) = b_dirty (bufs s ! c)" for c
    using core_fields[of "?bs ! c" "bufs s ! c"] by simp
  then have "binit_inv 0 ?bs" using len z by (auto simp: binit_inv_def)
  then have I0: "?I 0 (u\<lparr>bufs := ?bs\<rparr>)" by blast
  have "wp (binit_buf i) (\<lambda>_. ?I (Suc i)) (u\<lparr>bufs := bs\<rparr>)" if "i < NBUF" "binit_inv i bs" for i bs
  proof -
    note st = binit_step[OF that]
    have len: "length bs = 31" using that by (simp add: binit_inv_def)
    let ?cs = "sp i BHEAD (sn i (NX bs BHEAD) bs)"
    let ?ds = "?cs[i := (?cs ! i)\<lparr>b_dev := -1\<rparr>]"
    have "binit_buf i (u\<lparr>bufs := bs\<rparr>) = Ret () (u\<lparr>bufs := sn BHEAD i (sp (NX ?ds BHEAD) i ?ds)\<rparr>)"
      using that(1) st(1-3) len
      by (simp add: binit_buf_def mon_defs set_links_Ret NX_def[symmetric])
    with st(4) show ?thesis by (auto simp: wp_def)
  qed
  then have "wp (forM [0..<NBUF] binit_buf) (\<lambda>_. ?I NBUF) (u\<lparr>bufs := ?bs\<rparr>)"
    by (intro wp_forM[where I = ?I] I0) auto
  moreover have "set_prev BHEAD BHEAD u = Ret () (u\<lparr>bufs := sp BHEAD BHEAD (bufs s)\<rparr>)"
    "set_next BHEAD BHEAD (u\<lparr>bufs := sp BHEAD BHEAD (bufs s)\<rparr>) = Ret () (u\<lparr>bufs := ?bs\<rparr>)"
    using len by (simp_all add: set_links_Ret u)
  ultimately show ?thesis
    unfolding binit_def by (simp add: wp_Ret u_def)
qed

lemma binit_ok:
  assumes "length (bufs s) = Suc NBUF" and "\<forall>b \<le> NBUF. \<not> b_busy (bufs s ! b) \<and> \<not> b_dirty (bufs s ! b)"
    and "\<forall>sec < disksize s. length (disk s sec) = 512" and "lk_free Lptable s" and "cli_ok s"
  shows "wp binit (\<lambda>_ t. bio_ok t \<and> dll (bufs t) (rev [0..<NBUF]) \<and> blk t = disk s \<and> held t = Map.empty \<and>
    pin t = {} \<and> disk t = disk s \<and> disksize t = disksize s) s"
proof (rule wp_mono[OF binit_wp])
  fix t assume "\<exists>bs. t = upd_lock Lbcache (initlock (LkStr ''bcache'')) s\<lparr>bufs := bs\<rparr> \<and> binit_inv NBUF bs"
  then obtain bs where t: "t = upd_lock Lbcache (initlock (LkStr ''bcache'')) s\<lparr>bufs := bs\<rparr>" and bs: "binit_inv NBUF bs" by blast
  note fin = binit_inv_done[OF bs, of "disksize s" "disk s", OF assms(3)[rule_format]]
  have lk: "lk_free Lbcache t" "lk_free Lptable t" "cli_ok t"
    using assms(4,5) by (auto simp: t lk_defs upd_lock_def initlock_def)
  have f: "disk t = disk s" "disksize t = disksize s" "bufs t = bs" by (simp_all add: t upd_lock_def)
  have v: "blk t = disk s" "held t = Map.empty" "pin t = {}"
    using fin(3) f by (simp_all add: blk_def held_def pin_def blkb_def heldb_def pinb_def fun_eq_iff)
  show "bio_ok t \<and> dll (bufs t) (rev [0..<NBUF]) \<and> blk t = disk s \<and> held t = Map.empty \<and>
    pin t = {} \<and> disk t = disk s \<and> disksize t = disksize s"
    using fin(1,2) lk f v by (simp add: bio_ok_def del: upt_rec_numeral)
qed (use assms(1,2) in auto)

section \<open>Properties\<close>

text \<open>
  A boot state: the buffers are zero, and the disk has sixteen sectors. Sector 1 is a super block for a
  file system of fifteen blocks and eight inodes with a log of ten blocks, sector 4 its bitmap.
\<close>

definition disk_ex :: "u32 \<Rightarrow> u8 list" where
  "disk_ex sec = (if sec = 1 then le32 15 @ le32 1 @ le32 8 @ le32 10 @ replicate 496 0
     else if sec = 4 then 7 # replicate 511 0 else replicate 512 (if sec < 5 then ucast sec else 0))"

definition biost_ex :: biost where
  "biost_ex = memst.extend memst_ex
     \<lparr>bufs = replicate 31 \<lparr>b_busy = False, b_valid = False, b_dirty = False, b_dev = 0, b_sector = 0, b_prev = 0,
         b_next = 0, b_data = replicate 512 0\<rparr>,
      disk = disk_ex, disksize = 16, wlog = []\<rparr>"

text \<open>
  C24. \<open>binit\<close> establishes the invariant of the cache on the zeroed buffers of the kernel image: every
  buffer is on the list once, none is in use, and every sector reads as the disk has it.
\<close>

theorem binit_establishes:
  assumes "length (bufs s) = Suc NBUF" and "\<forall>b \<le> NBUF. \<not> b_busy (bufs s ! b) \<and> \<not> b_dirty (bufs s ! b)"
    and "\<forall>sec < disksize s. length (disk s sec) = 512" and "lk_free Lptable s" and "cli_ok s"
  shows "\<exists>t. binit s = Ret () t \<and> bio_ok t \<and> dll (bufs t) (rev [0..<NBUF]) \<and> blk t = disk s \<and> held t = Map.empty \<and>
    pin t = {} \<and> disk t = disk s \<and> disksize t = disksize s"
  using wpD[OF binit_ok[OF assms]] by (simp del: upt_rec_numeral)

lemma biost_ex_locks [simp]: "lk_free l biost_ex = lk_free l memst_ex" "cli_ok biost_ex = cli_ok memst_ex"
  "bufs biost_ex = replicate 31 \<lparr>b_busy = False, b_valid = False, b_dirty = False, b_dev = 0, b_sector = 0, b_prev = 0,
         b_next = 0, b_data = replicate 512 0\<rparr>"
  "disk biost_ex = disk_ex" "disksize biost_ex = 16"
  by (simp_all add: biost_ex_def memst.defs lk_defs)

lemma biost_ex_pre: "length (bufs biost_ex) = Suc NBUF" "\<forall>b \<le> NBUF. \<not> b_busy (bufs biost_ex ! b) \<and> \<not> b_dirty (bufs biost_ex ! b)"
  "\<forall>sec < disksize biost_ex. length (disk biost_ex sec) = 512" "lk_free Lptable biost_ex" "cli_ok biost_ex"
  using procst_ex_ok(1,2) by (simp_all add: disk_ex_def)

theorem binit_establishes_witness:
  "length (bufs biost_ex) = Suc NBUF \<and> (\<exists>t. binit biost_ex = Ret () t \<and> bio_ok t \<and> disksize t = 16)"
  using binit_establishes[OF biost_ex_pre] biost_ex_pre(1) by (auto simp: biost_ex_def memst.defs simp del: upt_rec_numeral)

text \<open>
  C23. Reading a sector, taking its data and releasing the buffer returns the contents of the sector,
  on a hit and on a miss: the data last stored when it is cached, those of the disk otherwise; and it
  leaves the contents of every sector, the disk and the pinned buffers as they were.
\<close>

theorem bread_brelse:
  assumes "bio_ok s" and "sec < disksize s" and "held s sec = None" and "card (used s) < NBUF"
    and "sec \<in> pin s \<or> blk s sec = disk s sec"
  shows "\<exists>t. bnd (bread 1 sec) (\<lambda>b. bnd (bdata b) (\<lambda>d. thn (brelse b) (ret d))) s = Ret (blk s sec) t \<and>
    bio_ok t \<and> blk t = blk s \<and> held t = held s \<and> pin t = pin s \<and> disk t = disk s \<and> wlog t = wlog s"
  using wpD[OF bc.read_block[of s sec]] assms by (auto simp: bc.clean_def bc.same_def used_def)

definition biost_up :: biost where
  "biost_up = (case binit biost_ex of Ret _ t \<Rightarrow> t | _ \<Rightarrow> biost_ex)"

lemma biost_up_ok: "bio_ok biost_up" "disksize biost_up = 16" "blk biost_up = disk biost_ex" "held biost_up = Map.empty"
  "pin biost_up = {}" "disk biost_up = disk biost_ex"
  using wpD[OF binit_ok[OF biost_ex_pre]] by (auto simp: biost_up_def biost_ex_def memst.defs simp del: upt_rec_numeral)

lemma biost_up_proc: "lk_free l biost_up" "the_cpu biost_up = the_cpu procst_ex" "ptable biost_up = ptable procst_ex" "cli_ok biost_up"
proof -
  obtain bs where "binit biost_ex = Ret () ((upd_lock Lbcache (initlock (LkStr ''bcache'')) biost_ex)\<lparr>bufs := bs\<rparr>)"
    using wpDu[OF binit_wp[of biost_ex]] biost_ex_pre(1,2) by auto
  then have up: "biost_up = (upd_lock Lbcache (initlock (LkStr ''bcache'')) biost_ex)\<lparr>bufs := bs\<rparr>" by (simp add: biost_up_def)
  have c: "the_cpu biost_up = the_cpu biost_ex" by (simp add: up the_cpu_def upd_lock_def)
  also have "\<dots> = the_cpu memst_ex" by (simp add: biost_ex_def memst.defs the_cpu_def)
  finally show cpu: "the_cpu biost_up = the_cpu procst_ex" by simp
  show "ptable biost_up = ptable procst_ex" by (simp add: up upd_lock_def biost_ex_def memst.defs)
  show "cli_ok biost_up" using procst_ex_ok(2) by (simp add: cli_ok_def cpu)
  have "lk_free l biost_ex" using procst_ex_ok(1) by simp
  then show "lk_free l biost_up" by (auto simp: up lk_free_def upd_lock_def initlock_def)
qed

theorem bread_brelse_witness:
  "bio_ok biost_up \<and> (\<exists>t. bnd (bread 1 3) (\<lambda>b. bnd (bdata b) (\<lambda>d. thn (brelse b) (ret d))) biost_up =
     Ret (replicate 512 3) t \<and> bio_ok t)"
proof -
  have "blk biost_up 3 = replicate 512 3" by (simp add: biost_up_ok disk_ex_def)
  then show ?thesis using bread_brelse[OF biost_up_ok(1), of 3] biost_up_ok by (auto simp: used_def)
qed

end
