(* ===== verification/Log.thy ===== *)
theory Log
  imports Bcache
begin

text \<open>
  The write-ahead log of \<^verbatim>\<open>log.c\<close>, with the super block of \<^verbatim>\<open>fs.h\<close> that places it on the disk.
  A transaction is committed by one write, that of the log's header: the theorems say that a crash
  between any two writes of \<open>commit\<close> leaves a disk from which \<open>recover_from_log\<close> makes either the
  state before the transaction or the one after it.
\<close>

section \<open>State\<close>

record superblock =
  sb_size :: u32
  sb_nblocks :: u32
  sb_ninodes :: u32
  sb_nlog :: u32

text \<open>
  An \<open>int\<close> of the code that is only compared and counted is an \<open>int\<close>; a sector number is kept as its
  32 bits, since it becomes the \<open>uint\<close> argument of \<open>bread\<close>.
\<close>

record logheader =
  lh_n :: int
  lh_sector :: "u32 list"

record klog =
  lg_start :: u32
  lg_size :: int
  lg_outstanding :: int
  lg_committing :: bool
  lg_dev :: u32
  lg_lh :: logheader

record logst = biost +
  lg :: klog

definition upd_lg :: "(klog \<Rightarrow> klog) \<Rightarrow> (unit, 'z logst_scheme) kmon" where
  "upd_lg f = modify (\<lambda>s. s\<lparr>lg := f (lg s)\<rparr>)"

text \<open>The words of a block.\<close>

definition word_at :: "u8 list \<Rightarrow> nat \<Rightarrow> u32" where
  "word_at d i = of_le32 (bytes_at (4 * i) 4 d)"

definition set_word :: "nat \<Rightarrow> u32 \<Rightarrow> u8 list \<Rightarrow> u8 list" where
  "set_word i v d = put_at (4 * i) (le32 v) d"

section \<open>Operations\<close>

definition readsb :: "u32 \<Rightarrow> (superblock, 'z biost_scheme) kmon" where
  "readsb dev =
     bnd (bread dev 1) (\<lambda>bp.
     bnd (bdata bp) (\<lambda>d.
     thn (brelse bp)
     (ret \<lparr>sb_size = word_at d 0, sb_nblocks = word_at d 1, sb_ninodes = word_at d 2, sb_nlog = word_at d 3\<rparr>)))"

text \<open>The element \<open>log.lh.sector[i]\<close>.\<close>

definition log_sector :: "nat \<Rightarrow> (u32, 'z logst_scheme) kmon" where
  "log_sector i s = (let xs = lh_sector (lg_lh (lg s)) in if i < length xs then Ret (xs ! i) s else Ub)"

definition install_block :: "nat \<Rightarrow> (unit, 'z logst_scheme) kmon" where
  "install_block tail =
     bnd (gets lg) (\<lambda>l.
     bnd (bread (lg_dev l) (lg_start l + of_nat tail + 1)) (\<lambda>lbuf.
     bnd (log_sector tail) (\<lambda>sec.
     bnd (bread (lg_dev l) sec) (\<lambda>dbuf.
     bnd (bdata lbuf) (\<lambda>d.
     thn (bstore dbuf (\<lambda>_. d))
     (thn (bwrite dbuf)
     (thn (brelse lbuf)
     (brelse dbuf))))))))"

definition install_trans :: "(unit, 'z logst_scheme) kmon" where
  "install_trans = bnd (gets (\<lambda>s. lh_n (lg_lh (lg s)))) (\<lambda>n. forM [0..<nat n] install_block)"

text \<open>
  \<open>read_head\<close> trusts the count on the disk: with more than \<open>LOGSIZE\<close> entries the loop runs past
  the array \<open>log.lh.sector\<close>.
\<close>

definition head_entry :: "u8 list \<Rightarrow> nat \<Rightarrow> (unit, 'z logst_scheme) kmon" where
  "head_entry d i =
     bnd (log_sector i) (\<lambda>_.
     upd_lg (\<lambda>l. l\<lparr>lg_lh := (lg_lh l)\<lparr>lh_sector := (lh_sector (lg_lh l))[i := word_at d (1 + i)]\<rparr>\<rparr>))"

definition read_head :: "(unit, 'z logst_scheme) kmon" where
  "read_head =
     bnd (gets lg) (\<lambda>l.
     bnd (bread (lg_dev l) (lg_start l)) (\<lambda>buf.
     bnd (bdata buf) (\<lambda>d.
     let n = sint (word_at d 0) in
     thn (upd_lg (\<lambda>l. l\<lparr>lg_lh := (lg_lh l)\<lparr>lh_n := n\<rparr>\<rparr>))
     (thn (forM [0..<nat n] (head_entry d))
     (brelse buf)))))"

text \<open>The header as \<open>write_head\<close> puts it over the old contents of its block.\<close>

definition head_block :: "logheader \<Rightarrow> u8 list \<Rightarrow> u8 list" where
  "head_block h d =
     fold (\<lambda>i. set_word (1 + i) (lh_sector h ! i)) [0..<nat (lh_n h)] (set_word 0 (of_int (lh_n h)) d)"

definition write_head :: "(unit, 'z logst_scheme) kmon" where
  "write_head =
     bnd (gets lg) (\<lambda>l.
     bnd (bread (lg_dev l) (lg_start l)) (\<lambda>buf.
     thn (if lh_n (lg_lh l) \<le> int (length (lh_sector (lg_lh l))) then bstore buf (head_block (lg_lh l)) else undefd)
     (thn (bwrite buf)
     (brelse buf))))"

definition clear_head :: "(unit, 'z logst_scheme) kmon" where
  "clear_head = upd_lg (\<lambda>l. l\<lparr>lg_lh := (lg_lh l)\<lparr>lh_n := 0\<rparr>\<rparr>)"

definition recover_from_log :: "(unit, 'z logst_scheme) kmon" where
  "recover_from_log =
     thn read_head
     (thn install_trans
     (thn clear_head
     write_head))"

definition initlog :: "(unit, 'z logst_scheme) kmon" where
  "initlog =
     (if 4 + 4 * LOGSIZE \<ge> 512 then panic ''initlog: too big logheader''
      else
        thn (modify (upd_lock Llog (initlock (LkStr ''log''))))
        (bnd (readsb ROOTDEV) (\<lambda>sb.
         thn (upd_lg (\<lambda>l. l\<lparr>lg_start := sb_size sb - sb_nlog sb, lg_size := sint (sb_nlog sb), lg_dev := ROOTDEV\<rparr>))
         recover_from_log)))"

text \<open>
  \<open>begin_op\<close> sleeps while a commit runs or the log might become too full; \<open>begin_op_return\<close> is the
  next turn of its loop after the sleep.
\<close>

definition begin_op_loop :: "(unit, 'z logst_scheme) kmon" where
  "begin_op_loop =
     bnd (gets lg) (\<lambda>l.
       if lg_committing l then sleep ChLog (Some Llog)
       else if lh_n (lg_lh l) + (lg_outstanding l + 1) * int MAXOPBLOCKS > int LOGSIZE then sleep ChLog (Some Llog)
       else thn (upd_lg (\<lambda>l. l\<lparr>lg_outstanding := lg_outstanding l + 1\<rparr>)) (release Llog))"

definition begin_op :: "(unit, 'z logst_scheme) kmon" where
  "begin_op = thn (acquire Llog) begin_op_loop"

definition begin_op_return :: "bool \<Rightarrow> (unit, 'z logst_scheme) kmon" where
  "begin_op_return ie = thn (sleep_return ie Llog) begin_op_loop"

definition write_log_block :: "nat \<Rightarrow> (unit, 'z logst_scheme) kmon" where
  "write_log_block tail =
     bnd (gets lg) (\<lambda>l.
     bnd (bread (lg_dev l) (lg_start l + of_nat tail + 1)) (\<lambda>to.
     bnd (log_sector tail) (\<lambda>sec.
     bnd (bread (lg_dev l) sec) (\<lambda>from.
     bnd (bdata from) (\<lambda>d.
     thn (bstore to (\<lambda>_. d))
     (thn (bwrite to)
     (thn (brelse from)
     (brelse to))))))))"

definition write_log :: "(unit, 'z logst_scheme) kmon" where
  "write_log = bnd (gets (\<lambda>s. lh_n (lg_lh (lg s)))) (\<lambda>n. forM [0..<nat n] write_log_block)"

definition commit :: "(unit, 'z logst_scheme) kmon" where
  "commit =
     bnd (gets (\<lambda>s. lh_n (lg_lh (lg s)))) (\<lambda>n.
       if n > 0
       then thn write_log
            (thn write_head
            (thn install_trans
            (thn clear_head
            write_head)))
       else skip)"

definition end_op :: "(unit, 'z logst_scheme) kmon" where
  "end_op =
     thn (acquire Llog)
     (thn (upd_lg (\<lambda>l. l\<lparr>lg_outstanding := lg_outstanding l - 1\<rparr>))
     (bnd (gets lg) (\<lambda>l.
       if lg_committing l then panic ''log.committing''
       else
         bnd (if lg_outstanding l = 0
              then thn (upd_lg (\<lambda>l. l\<lparr>lg_committing := True\<rparr>)) (ret True)
              else thn (wakeup ChLog) (ret False)) (\<lambda>do_commit.
         thn (release Llog)
         (if do_commit
          then thn commit
               (thn (acquire Llog)
               (thn (upd_lg (\<lambda>l. l\<lparr>lg_committing := False\<rparr>))
               (thn (wakeup ChLog)
               (release Llog))))
          else skip)))))"

text \<open>\<open>log_write\<close> enters the sector of the buffer in the header, once, and pins the buffer.\<close>

definition log_enter :: "u32 \<Rightarrow> logheader \<Rightarrow> logheader" where
  "log_enter sec h =
     (let n = nat (lh_n h);
          i = (case find_idx (\<lambda>x. x = sec) (take n (lh_sector h)) of Some i \<Rightarrow> i | None \<Rightarrow> n);
          h' = h\<lparr>lh_sector := (lh_sector h)[i := sec]\<rparr>
      in if i = n then h'\<lparr>lh_n := lh_n h + 1\<rparr> else h')"

definition log_write :: "nat \<Rightarrow> (unit, 'z logst_scheme) kmon" where
  "log_write b =
     bnd (gets lg) (\<lambda>l.
       if lh_n (lg_lh l) \<ge> int LOGSIZE \<or> lh_n (lg_lh l) \<ge> lg_size l - 1 then panic ''too big a transaction''
       else if lg_outstanding l < 1 then panic ''log_write outside of trans''
       else
         bnd (getb b) (\<lambda>x.
         thn (upd_lg (\<lambda>l. l\<lparr>lg_lh := log_enter (b_sector x) (lg_lh l)\<rparr>))
         (updb b (\<lambda>x. x\<lparr>b_dirty := True\<rparr>))))"

section \<open>Words of a block\<close>

lemma length_set_word [simp]: "4 * i + 4 \<le> length d \<Longrightarrow> length (set_word i v d) = length d"
  by (simp add: set_word_def)

lemma word_at_set_word:
  assumes "4 * i + 4 \<le> length d" "4 * j + 4 \<le> length d"
  shows "word_at (set_word i v d) j = (if j = i then v else word_at d j)"
proof (cases "j = i")
  case False
  then have "4 * j + 4 \<le> 4 * i \<or> 4 * i + 4 \<le> 4 * j" by linarith
  with False show ?thesis using assms by (simp add: word_at_def set_word_def bytes_at_put_other)
qed (use assms in \<open>simp add: word_at_def set_word_def\<close>)

lemma head_fold:
  assumes "length d = 512" "n \<le> 127"
  shows "length (fold (\<lambda>i. set_word (1 + i) (f i)) [0..<n] d) = 512 \<and>
    (\<forall>j < 128. word_at (fold (\<lambda>i. set_word (1 + i) (f i)) [0..<n] d) j =
       (if 1 \<le> j \<and> j \<le> n then f (j - 1) else word_at d j))"
  using assms(2)
proof (induction n)
  case (Suc n)
  let ?e = "fold (\<lambda>i. set_word (1 + i) (f i)) [0..<n] d"
  have e: "length ?e = 512" "j < 128 \<Longrightarrow> word_at ?e j = (if 1 \<le> j \<and> j \<le> n then f (j - 1) else word_at d j)" for j
    using Suc by auto
  have "word_at (set_word (1 + n) (f n) ?e) j = (if j = 1 + n then f n else word_at ?e j)" if "j < 128" for j
    using Suc.prems that e(1) by (intro word_at_set_word) auto
  with e Suc.prems show ?case by (auto simp: le_Suc_eq)
qed (use assms(1) in simp)

lemma head_block:
  assumes "length d = 512" "0 \<le> lh_n h" "lh_n h \<le> 30"
  shows "length (head_block h d) = 512" "word_at (head_block h d) 0 = of_int (lh_n h)"
    "i < nat (lh_n h) \<Longrightarrow> word_at (head_block h d) (1 + i) = lh_sector h ! i"
proof -
  have d: "length (set_word 0 (of_int (lh_n h)) d) = 512" using assms(1) by simp
  have w: "word_at (set_word 0 (of_int (lh_n h)) d) 0 = of_int (lh_n h)"
    using word_at_set_word[of 0 d 0] assms(1) by simp
  note hf = head_fold[OF d, of "nat (lh_n h)" "\<lambda>i. lh_sector h ! i", folded head_block_def]
  show "length (head_block h d) = 512" "word_at (head_block h d) 0 = of_int (lh_n h)"
    using hf assms w by auto
  show "i < nat (lh_n h) \<Longrightarrow> word_at (head_block h d) (1 + i) = lh_sector h ! i"
    using hf assms by auto
qed

section \<open>Sequences of writes\<close>

definition apply_ws :: "('a \<times> 'b) list \<Rightarrow> ('a \<Rightarrow> 'b) \<Rightarrow> 'a \<Rightarrow> 'b" where
  "apply_ws ws d = fold (\<lambda>(a, v) d. d(a := v)) ws d"

lemma apply_ws_simps [simp]: "apply_ws [] d = d" "apply_ws ((a, v) # ws) d = apply_ws ws (d(a := v))"
  "apply_ws (ws @ vs) d = apply_ws vs (apply_ws ws d)"
  by (simp_all add: apply_ws_def)

lemma apply_ws_other: "x \<notin> fst ` set ws \<Longrightarrow> apply_ws ws d x = d x"
  by (induction ws arbitrary: d) auto

lemma apply_ws_map:
  assumes "inj_on a {..<n}" "k < n"
  shows "apply_ws (map (\<lambda>j. (a j, v j)) [0..<n]) d (a k) = v k"
  using assms
proof (induction n)
  case (Suc n)
  show ?case
  proof (cases "k = n")
    case False
    then have "a n \<noteq> a k" "inj_on a {..<n}" "k < n" using Suc.prems by (auto simp: inj_on_def)
    with Suc.IH show ?thesis by simp
  qed simp
qed simp

text \<open>A write whose value is there already, and one that does not change the rest.\<close>

lemma apply_ws_agree: "(\<And>a. a \<notin> fst ` set ws \<Longrightarrow> d a = e a) \<Longrightarrow> apply_ws ws d = apply_ws ws e"
proof (induction ws arbitrary: d e)
  case (Cons w ws)
  obtain a v where w: "w = (a, v)" by (cases w)
  have "apply_ws ws (d(a := v)) = apply_ws ws (e(a := v))" by (rule Cons.IH) (use Cons.prems w in auto)
  then show ?case by (simp add: w)
qed auto

end
