(* ===== verification/Logtx.thy ===== *)
theory Logtx
  imports Log
begin

text \<open>
  Transactions of the log: what each operation of \<^verbatim>\<open>log.c\<close> does to the blocks in the cache and on the
  disk, the atomicity of \<open>commit\<close> under crashes, and the bracket of \<open>begin_op\<close> and \<open>end_op\<close>.
\<close>

section \<open>The log over the cache\<close>

text \<open>What an operation of the log leaves alone, and what a sequence of disk writes does.\<close>

definition lframe :: "'z logst_scheme \<Rightarrow> 'z logst_scheme \<Rightarrow> bool" where
  "lframe s t \<longleftrightarrow> quiet s t \<and> mem t = mem s \<and> freelist t = freelist s \<and> use_lock t = use_lock s \<and>
     kend t = kend s \<and> kdata t = kdata s \<and> disksize t = disksize s \<and> logst.more t = logst.more s"

lemma lframe_refl [simp]: "lframe s s"
  by (simp add: lframe_def)

lemma lframe_trans: "lframe s t \<Longrightarrow> lframe t u \<Longrightarrow> lframe s u"
  by (auto simp: lframe_def intro: quiet_trans)

lemma bframe_log: "bframe s t \<longleftrightarrow> lframe s t \<and> lg t = lg s"
  for s t :: "'z logst_scheme"
proof -
  have "biost.more t = biost.more s \<longleftrightarrow> lg t = lg s \<and> logst.more t = logst.more s" by (cases s; cases t) simp
  then show ?thesis by (auto simp: bframe_def lframe_def)
qed

definition wrote :: "(u32 \<times> u8 list) list \<Rightarrow> 'z logst_scheme \<Rightarrow> 'z logst_scheme \<Rightarrow> bool" where
  "wrote ws s t \<longleftrightarrow> bio_ok t \<and> lframe s t \<and> held t = held s \<and> pin t = pin s - fst ` set ws \<and>
     blk t = apply_ws ws (blk s) \<and> disk t = apply_ws ws (disk s) \<and> wlog t = wlog s @ ws"

lemma wrote_trans: "wrote ws s t \<Longrightarrow> wrote vs t u \<Longrightarrow> wrote (ws @ vs) s u"
  by (auto simp: wrote_def intro: lframe_trans)

lemma wrote_copied: "bc.copied s src dst t \<Longrightarrow> wrote [(dst, blk s src)] s t \<and> lg t = lg s"
  for s t :: "'z logst_scheme"
  by (simp add: bc.copied_def wrote_def bframe_log)

lemma free_clean:
  assumes ok: "bio_ok s" and f: "held s sec = None" "sec \<notin> pin s"
  shows "blk s sec = disk s sec"
proof (cases "slot (bufs s) sec")
  case None
  then show ?thesis by (simp add: blk_def blkb_def)
next
  case (Some b)
  have bo: "bufs_ok (disk s) (disksize s) (bufs s)" using ok by (simp add: bio_ok_def)
  have "\<not> b_busy (bufs s ! b)" "\<not> b_dirty (bufs s ! b)"
    using f Some by (auto simp: held_def heldb_def pin_def pinb_def)
  with bufs_okD(5)[OF bo, of b] Some[unfolded slot_Some[OF bo]] show ?thesis using Some by (simp add: blk_def blkb_def)
qed

lemma bio_upd_lg [simp]:
  "blk (s\<lparr>lg := l\<rparr>) = blk s" "held (s\<lparr>lg := l\<rparr>) = held s" "pin (s\<lparr>lg := l\<rparr>) = pin s" "bio_ok (s\<lparr>lg := l\<rparr>) = bio_ok s"
  "lframe s (t\<lparr>lg := l\<rparr>) = lframe s t" "wrote ws s (t\<lparr>lg := l\<rparr>) = wrote ws s t"
  by (auto simp: blk_def held_def pin_def bio_ok_def lframe_def wrote_def lk_defs quiet_def)

text \<open>
  The log's part of the disk begins at \<open>lg_start\<close>. The entries of the header are distinct blocks
  below it, and there is a buffer left for a block of the log when all of them are pinned.
\<close>

definition log_geom :: "'z logst_scheme \<Rightarrow> bool" where
  "log_geom s \<longleftrightarrow> lg_dev (lg s) = 1 \<and> length (lh_sector (lg_lh (lg s))) = LOGSIZE \<and> 0 \<le> lh_n (lg_lh (lg s)) \<and>
     lh_n (lg_lh (lg s)) < int LOGSIZE \<and> unat (lg_start (lg s)) + nat (lh_n (lg_lh (lg s))) < unat (disksize s) \<and>
     (\<forall>i < nat (lh_n (lg_lh (lg s))). lh_sector (lg_lh (lg s)) ! i < lg_start (lg s))"

abbreviation (input) logn :: "'z logst_scheme \<Rightarrow> nat" where
  "logn s \<equiv> nat (lh_n (lg_lh (lg s)))"

abbreviation (input) logsec :: "'z logst_scheme \<Rightarrow> nat \<Rightarrow> u32" where
  "logsec s j \<equiv> lh_sector (lg_lh (lg s)) ! j"

abbreviation (input) logblk :: "'z logst_scheme \<Rightarrow> nat \<Rightarrow> u32" where
  "logblk s j \<equiv> lg_start (lg s) + of_nat j + 1"

lemma log_blocks:
  assumes "log_geom s" "j < logn s"
  shows "logblk s j < disksize s" "lg_start (lg s) < logblk s j" "logsec s j < lg_start (lg s)" "logsec s j < disksize s"
    "k < logn s \<Longrightarrow> logsec s j \<noteq> logblk s k"
proof -
  have g: "unat (lg_start (lg s)) + logn s < unat (disksize s)" "logn s < 30" using assms by (auto simp: log_geom_def)
  have u: "unat (logblk s i) = unat (lg_start (lg s)) + i + 1" if "i < logn s" for i
  proof -
    have "unat (lg_start (lg s)) + i + 1 < 4294967296" using g that unat_lt32[of "disksize s"] by linarith
    moreover have "logblk s i = of_nat (unat (lg_start (lg s)) + i + 1)" by simp
    ultimately show ?thesis by (metis unat_of_nat32)
  qed
  show 1: "logblk s j < disksize s" "lg_start (lg s) < logblk s j" using u[OF assms(2)] g assms(2) by (auto simp: word_less_nat_alt)
  show 2: "logsec s j < lg_start (lg s)" using assms by (simp add: log_geom_def)
  with 1 show "logsec s j < disksize s" by simp
  show "logsec s j \<noteq> logblk s k" if "k < logn s" using 2 u[OF that] by (auto simp: word_less_nat_alt)
qed

lemma logblk_inj: "log_geom s \<Longrightarrow> inj_on (logblk s) {..<logn s}"
proof (rule inj_onI)
  fix i j assume g: "log_geom s" and i: "i \<in> {..<logn s}" "j \<in> {..<logn s}" "logblk s i = logblk s j"
  then have "unat (of_nat i :: u32) = unat (of_nat j :: u32)" by simp
  moreover have "i < 4294967296" "j < 4294967296" using g i by (auto simp: log_geom_def)
  ultimately show "i = j" by (simp only: unat_of_nat32)
qed

text \<open>One turn of the loops of \<open>write_log\<close> and \<open>install_trans\<close>.\<close>

lemma log_sector_Ret: "log_geom s \<Longrightarrow> j < logn s \<Longrightarrow> lg t = lg s \<Longrightarrow> log_sector j t = Ret (logsec s j) t"
  by (auto simp: log_sector_def log_geom_def Let_def)

lemma then_sector:
  fixes s :: "'z logst_scheme"
  assumes g: "log_geom s" "j < logn s" and r: "wp (bread 1 a) (\<lambda>b t. bframe s t) s"
  shows "bnd (bread 1 a) (\<lambda>b. bnd (log_sector j) (k b)) s = bnd (bread 1 a) (\<lambda>b. k b (logsec s j)) s"
proof -
  from wpD[OF r] obtain b t where t: "bread 1 a s = Ret b t" "bframe s t" by blast
  then have "log_sector j t = Ret (logsec s j) t" using g by (intro log_sector_Ret) (auto simp: bframe_log)
  with t(1) show ?thesis by (simp add: mon_defs)
qed

lemma write_log_block_ok:
  assumes g: "log_geom s" "j < logn s" and ok: "bio_ok s" "held s = Map.empty" "card (pin s) < NBUF"
    and p: "logsec s j \<in> pin s"
  shows "wp (write_log_block j) (\<lambda>_ t. wrote [(logblk s j, blk s (logsec s j))] s t \<and> lg t = lg s) s"
proof -
  note b = log_blocks[OF g]
  have r: "wp (bread 1 (logblk s j)) (\<lambda>b t. bframe s t) s"
    by (rule wp_mono[OF bc.rd]) (use ok b in auto)
  have "wp (bnd (bread 1 (logblk s j)) (\<lambda>to. bnd (bread 1 (logsec s j)) (\<lambda>from. bnd (bdata from) (\<lambda>d.
      thn (bstore to (\<lambda>_. d)) (thn (bwrite to) (thn (brelse from) (brelse to)))))))
      (\<lambda>_. bc.copied s (logsec s j) (logblk s j)) s"
    by (rule bc.copy_dst_first) (use ok b(1,4) b(5)[OF g(2)] p in \<open>auto simp: bc.clean_def\<close>)
  from wp_mono[OF this wrote_copied] g(1)
  show ?thesis unfolding write_log_block_def wp_def
    by (simp add: bnd_def[of "gets lg"] gets_def then_sector[OF g r] log_geom_def)
qed

lemma install_block_ok:
  assumes g: "log_geom s" "j < logn s" and ok: "bio_ok s" "held s = Map.empty" "card (pin s) < NBUF"
    and p: "logsec s j \<in> pin s \<or> card (insert (logblk s j) (pin s)) < NBUF" "logblk s j \<notin> pin s"
  shows "wp (install_block j) (\<lambda>_ t. wrote [(logsec s j, blk s (logblk s j))] s t \<and> lg t = lg s) s"
proof -
  note b = log_blocks[OF g]
  have r: "wp (bread 1 (logblk s j)) (\<lambda>b t. bframe s t) s"
    by (rule wp_mono[OF bc.rd]) (use ok b in auto)
  have cl: "blk s (logblk s j) = disk s (logblk s j)" using ok p by (intro free_clean) auto
  have "wp (bnd (bread 1 (logblk s j)) (\<lambda>from. bnd (bread 1 (logsec s j)) (\<lambda>to. bnd (bdata from) (\<lambda>d.
      thn (bstore to (\<lambda>_. d)) (thn (bwrite to) (thn (brelse from) (brelse to)))))))
      (\<lambda>_. bc.copied s (logblk s j) (logsec s j)) s"
    by (rule bc.copy_src_first) (use ok b(1,4) b(5)[OF g(2)] p cl in \<open>auto simp: bc.clean_def\<close>)
  from wp_mono[OF this wrote_copied] g(1)
  show ?thesis unfolding install_block_def wp_def
    by (simp add: bnd_def[of "gets lg"] gets_def then_sector[OF g r] log_geom_def)
qed

lemma wrote_geom: "wrote ws s t \<Longrightarrow> lg t = lg s \<Longrightarrow> log_geom s \<Longrightarrow> log_geom t"
  by (simp add: log_geom_def wrote_def lframe_def)

text \<open>The writes of the two loops.\<close>

definition log_writes :: "'z logst_scheme \<Rightarrow> nat \<Rightarrow> (u32 \<times> u8 list) list" where
  "log_writes s n = map (\<lambda>j. (logblk s j, blk s (logsec s j))) [0..<n]"

definition home_writes :: "'z logst_scheme \<Rightarrow> nat \<Rightarrow> (u32 \<times> u8 list) list" where
  "home_writes s n = map (\<lambda>j. (logsec s j, blk s (logblk s j))) [0..<n]"

lemma log_writes_fst: "fst ` set (log_writes s n) = logblk s ` {..<n}" "fst ` set (home_writes s n) = logsec s ` {..<n}"
  by (simp_all add: log_writes_def home_writes_def image_image atLeast0LessThan)

lemma write_log_ok:
  assumes g: "log_geom s" and ok: "bio_ok s" "held s = Map.empty" "card (pin s) < NBUF"
    and p: "\<And>j. j < logn s \<Longrightarrow> logsec s j \<in> pin s" "\<And>j. j < logn s \<Longrightarrow> logblk s j \<notin> pin s"
  shows "wp write_log (\<lambda>_ t. wrote (log_writes s (logn s)) s t \<and> lg t = lg s) s"
proof -
  let ?I = "\<lambda>i t. wrote (log_writes s i) s t \<and> lg t = lg s"
  have "wp (forM [0..<logn s] write_log_block) (\<lambda>_. ?I (logn s)) s"
  proof (rule wp_forM[where I = ?I])
    show "?I 0 s" using ok by (simp add: wrote_def log_writes_def)
    fix i t assume i: "i < logn s" and I: "?I i t"
    have pt: "pin t = pin s" using I p(2) i by (auto simp: wrote_def log_writes_fst)
    have "logsec s i \<noteq> logblk s j" if "j < i" for j using log_blocks(5)[OF g i, of j] i that by simp
    then have "logsec s i \<notin> fst ` set (log_writes s i)" unfolding log_writes_fst by auto
    then have "blk t (logsec s i) = blk s (logsec s i)" using I by (simp add: wrote_def apply_ws_other)
    moreover have "bio_ok t" "held t = Map.empty" "lg t = lg s" "log_geom t"
      using I ok wrote_geom[OF _ _ g] by (auto simp: wrote_def)
    ultimately have "wp (write_log_block i) (\<lambda>_ u. wrote [(logblk s i, blk s (logsec s i))] t u \<and> lg u = lg t) t"
      using write_log_block_ok[of t i] i ok(3) pt p(1)[OF i] by simp
    then show "wp (write_log_block i) (\<lambda>_. ?I (Suc i)) t"
      by (rule wp_mono) (use I in \<open>auto simp: log_writes_def dest: wrote_trans[of _ s t]\<close>)
  qed
  then show ?thesis by (simp add: write_log_def)
qed

lemma install_trans_ok:
  assumes g: "log_geom s" and ok: "bio_ok s" "held s = Map.empty" "card (pin s) < NBUF"
    and p: "\<And>j. j < logn s \<Longrightarrow> logsec s j \<in> pin s \<or> Suc (card (pin s)) < NBUF" "\<And>j. j < logn s \<Longrightarrow> logblk s j \<notin> pin s"
  shows "wp install_trans (\<lambda>_ t. wrote (home_writes s (logn s)) s t \<and> lg t = lg s) s"
proof -
  let ?I = "\<lambda>i t. wrote (home_writes s i) s t \<and> lg t = lg s"
  have "wp (forM [0..<logn s] install_block) (\<lambda>_. ?I (logn s)) s"
  proof (rule wp_forM[where I = ?I])
    show "?I 0 s" using ok by (simp add: wrote_def home_writes_def)
    fix i t assume i: "i < logn s" and I: "?I i t"
    have pt: "pin t = pin s - logsec s ` {..<i}" using I by (simp add: wrote_def log_writes_fst)
    have c: "card (pin t) \<le> card (pin s)" unfolding pt by (intro card_mono) auto
    have room: "logsec s i \<in> pin t \<or> card (insert (logblk s i) (pin t)) < NBUF"
    proof (cases "logsec s i \<in> pin s \<and> logsec s i \<notin> pin t")
      case True
      then have "card (pin t) < card (pin s)" unfolding pt by (intro psubset_card_mono) auto
      then show ?thesis using ok(3) card_insert_le_m1[of NBUF "pin t"] by (auto simp: card_insert_if)
    qed (use p(1)[OF i] c pt in \<open>auto simp: card_insert_if\<close>)
    have "logblk s i \<noteq> logsec s j" if "j < i" for j using log_blocks(5)[OF g _ i, of j] i that by auto
    then have "logblk s i \<notin> fst ` set (home_writes s i)" unfolding log_writes_fst by auto
    then have "blk t (logblk s i) = blk s (logblk s i)" using I by (simp add: wrote_def apply_ws_other)
    moreover have "bio_ok t" "held t = Map.empty" "lg t = lg s" "log_geom t"
      using I ok wrote_geom[OF _ _ g] by (auto simp: wrote_def)
    moreover have "card (pin t) < NBUF" "logblk s i \<notin> pin t" using c ok(3) p(2)[OF i] pt by auto
    ultimately have "wp (install_block i) (\<lambda>_ u. wrote [(logsec s i, blk s (logblk s i))] t u \<and> lg u = lg t) t"
      using install_block_ok[of t i] i room by simp
    then show "wp (install_block i) (\<lambda>_. ?I (Suc i)) t"
      by (rule wp_mono) (use I in \<open>auto simp: home_writes_def dest: wrote_trans[of _ s t]\<close>)
  qed
  then show ?thesis by (simp add: install_trans_def)
qed

lemma write_head_ok:
  assumes g: "log_geom s" and ok: "bio_ok s" "held s = Map.empty" "card (pin s) < NBUF" and p: "lg_start (lg s) \<notin> pin s"
  shows "wp write_head (\<lambda>_ t. wrote [(lg_start (lg s), head_block (lg_lh (lg s)) (blk s (lg_start (lg s))))] s t \<and> lg t = lg s) s"
proof -
  let ?a = "lg_start (lg s)" and ?h = "lg_lh (lg s)"
  have a: "?a < disksize s" and n: "0 \<le> lh_n ?h" "lh_n ?h \<le> 30" "length (lh_sector ?h) = 30" "lg_dev (lg s) = 1"
    using g by (auto simp: log_geom_def word_less_nat_alt)
  have len: "length (blk s ?a) = 512" using bc.view_length ok(1) a by blast
  note hl = head_block(1)[OF len n(1,2)]
  have "wp (bnd (bread 1 ?a) (\<lambda>buf. thn (bstore buf (head_block ?h)) (thn (bwrite buf) (brelse buf))))
    (\<lambda>_ t. wrote [(?a, head_block ?h (blk s ?a))] s t \<and> lg t = lg s) s"
  proof (rule wp_bndI[OF bc.rd])
    fix b t assume t: "bio_ok t \<and> bframe s t \<and> held t = (held s)(?a \<mapsto> b) \<and> pin t = pin s \<and>
      blk t = blk s \<and> disk t = disk s \<and> wlog t = wlog s"
    show "wp (thn (bstore b (head_block ?h)) (thn (bwrite b) (brelse b)))
      (\<lambda>_ t. wrote [(?a, head_block ?h (blk s ?a))] s t \<and> lg t = lg s) t"
    proof (rule wp_thnI[OF bc.store[of t ?a b]])
      fix u assume u: "bio_ok u \<and> bframe t u \<and> held u = held t \<and> pin u = pin t \<and>
        blk u = (blk t)(?a := head_block ?h (blk t ?a)) \<and> disk u = disk t \<and> wlog u = wlog t"
      show "wp (thn (bwrite b) (brelse b)) (\<lambda>_ t. wrote [(?a, head_block ?h (blk s ?a))] s t \<and> lg t = lg s) u"
      proof (rule wp_thnI[OF bc.put[of u ?a b]])
        fix v assume v: "bio_ok v \<and> bframe u v \<and> held v = held u \<and> pin v = pin u - {?a} \<and>
          blk v = blk u \<and> disk v = (disk u)(?a := blk u ?a) \<and> wlog v = wlog u @ [(?a, blk u ?a)]"
        show "wp (brelse b) (\<lambda>_ t. wrote [(?a, head_block ?h (blk s ?a))] s t \<and> lg t = lg s) v"
        proof (rule wp_mono[OF bc.rls[of v ?a b]])
          fix w assume w: "bio_ok w \<and> bframe v w \<and> held w = (held v)(?a := None) \<and> pin w = pin v \<and>
            blk w = blk v \<and> disk w = disk v \<and> wlog w = wlog v"
          have "bframe s t" "bframe t u" "bframe u v" "bframe v w" using t u v w by simp_all
          note bframe_trans[OF this(1) bframe_trans[OF this(2) bframe_trans[OF this(3,4)]]]
          then show "wrote [(?a, head_block ?h (blk s ?a))] s w \<and> lg w = lg s"
            using t u v w ok p by (auto simp: wrote_def bframe_log)
        qed (use t u v in auto)
      qed (use t u in auto)
    qed (use t hl in auto)
  qed (use a ok in auto)
  then show ?thesis using n unfolding write_head_def by (simp add: wp_def mon_defs)
qed

section \<open>Recovery\<close>

lemma load_sectors:
  assumes "length (lh_sector (lg_lh (lg s))) = LOGSIZE" "n \<le> LOGSIZE"
  shows "wp (forM [0..<n] (head_entry d))
    (\<lambda>_ t. \<exists>xs. t = s\<lparr>lg := (lg s)\<lparr>lg_lh := (lg_lh (lg s))\<lparr>lh_sector := xs\<rparr>\<rparr>\<rparr> \<and> length xs = LOGSIZE \<and>
       (\<forall>i < n. xs ! i = word_at d (1 + i))) s"
proof (rule wp_forM[where I = "\<lambda>k t. \<exists>xs. t = s\<lparr>lg := (lg s)\<lparr>lg_lh := (lg_lh (lg s))\<lparr>lh_sector := xs\<rparr>\<rparr>\<rparr> \<and>
    length xs = LOGSIZE \<and> (\<forall>i < k. xs ! i = word_at d (1 + i))"])
  show "\<exists>xs. s = s\<lparr>lg := (lg s)\<lparr>lg_lh := (lg_lh (lg s))\<lparr>lh_sector := xs\<rparr>\<rparr>\<rparr> \<and> length xs = LOGSIZE \<and>
    (\<forall>i < 0. xs ! i = word_at d (1 + i))"
    by (rule exI[of _ "lh_sector (lg_lh (lg s))"]) (simp add: assms(1))
next
  fix i t
  assume i: "i < n" and "\<exists>xs. t = s\<lparr>lg := (lg s)\<lparr>lg_lh := (lg_lh (lg s))\<lparr>lh_sector := xs\<rparr>\<rparr>\<rparr> \<and> length xs = LOGSIZE \<and>
    (\<forall>j < i. xs ! j = word_at d (1 + j))"
  then obtain xs where xs: "t = s\<lparr>lg := (lg s)\<lparr>lg_lh := (lg_lh (lg s))\<lparr>lh_sector := xs\<rparr>\<rparr>\<rparr>" "length xs = LOGSIZE"
    "\<forall>j < i. xs ! j = word_at d (1 + j)" by blast
  have "log_sector i t = Ret (xs ! i) t" using i assms(2) xs(2) by (simp add: log_sector_def xs(1))
  then show "wp (head_entry d i)
    (\<lambda>_ t. \<exists>xs. t = s\<lparr>lg := (lg s)\<lparr>lg_lh := (lg_lh (lg s))\<lparr>lh_sector := xs\<rparr>\<rparr>\<rparr> \<and> length xs = LOGSIZE \<and>
       (\<forall>j < Suc i. xs ! j = word_at d (1 + j))) t"
    using i assms(2) xs(2,3) by (auto simp: head_entry_def wp_Ret upd_lg_def xs(1) less_Suc_eq intro!: exI[of _ "xs[i := word_at d (1 + i)]"])
qed

lemma logheader_full [simp]: "h\<lparr>lh_n := n, lh_sector := xs\<rparr> = \<lparr>lh_n = n, lh_sector = xs\<rparr>"
  by (cases h) simp

lemma read_head_ok:
  fixes s :: "'z logst_scheme"
  defines "a \<equiv> lg_start (lg s)"
  assumes ok: "bio_ok s" "held s = Map.empty" "card (pin s) < NBUF" and a: "lg_dev (lg s) = 1" "a < disksize s" "a \<notin> pin s"
    and n: "0 \<le> sint (word_at (disk s a) 0)" "sint (word_at (disk s a) 0) \<le> int LOGSIZE" "length (lh_sector (lg_lh (lg s))) = LOGSIZE"
  shows "wp read_head (\<lambda>_ t. wrote [] s t \<and> (\<exists>xs. lg t = (lg s)\<lparr>lg_lh := \<lparr>lh_n = sint (word_at (disk s a) 0), lh_sector = xs\<rparr>\<rparr> \<and>
    length xs = LOGSIZE \<and> (\<forall>i < nat (sint (word_at (disk s a) 0)). xs ! i = word_at (disk s a) (1 + i)))) s"
proof -
  let ?d = "disk s a"
  let ?n = "sint (word_at ?d 0)"
  let ?Q = "\<lambda>_ t. wrote [] s t \<and> (\<exists>xs. lg t = (lg s)\<lparr>lg_lh := \<lparr>lh_n = ?n, lh_sector = xs\<rparr>\<rparr> \<and>
    length xs = LOGSIZE \<and> (\<forall>i < nat ?n. xs ! i = word_at ?d (1 + i)))"
  have cl: "blk s a = ?d" using ok a by (intro free_clean) auto
  show ?thesis unfolding read_head_def wp_simps a(1) a_def[symmetric]
  proof (rule wp_mono[OF bc.rd])
    fix b t assume t: "bio_ok t \<and> bframe s t \<and> held t = (held s)(a \<mapsto> b) \<and> pin t = pin s \<and> blk t = blk s \<and> disk t = disk s \<and> wlog t = wlog s"
    then have bd: "bdata b t = Ret ?d t" using bc.data[of t a b] cl by simp
    have lt: "lg t = lg s" using t by (simp add: bframe_log)
    define u where "u = t\<lparr>lg := (lg t)\<lparr>lg_lh := (lg_lh (lg t))\<lparr>lh_n := ?n\<rparr>\<rparr>\<rparr>"
    have "wp (forM [0..<nat ?n] (head_entry ?d))
        (\<lambda>_. wp (brelse b) ?Q) u"
    proof (rule wp_mono[OF load_sectors])
      fix v assume "\<exists>xs. v = u\<lparr>lg := (lg u)\<lparr>lg_lh := (lg_lh (lg u))\<lparr>lh_sector := xs\<rparr>\<rparr>\<rparr> \<and> length xs = LOGSIZE \<and>
        (\<forall>i < nat ?n. xs ! i = word_at ?d (1 + i))"
      then obtain xs where v: "v = t\<lparr>lg := (lg s)\<lparr>lg_lh := \<lparr>lh_n = ?n, lh_sector = xs\<rparr>\<rparr>\<rparr>"
        "length xs = LOGSIZE" "\<forall>i < nat ?n. xs ! i = word_at ?d (1 + i)" by (auto simp: u_def lt)
      show "wp (brelse b) ?Q v"
      proof (rule wp_mono[OF bc.rls[of v a b]])
        fix w assume w: "bio_ok w \<and> bframe v w \<and> held w = (held v)(a := None) \<and> pin w = pin v \<and> blk w = blk v \<and> disk w = disk v \<and> wlog w = wlog v"
        have "lframe s t" "lframe t v" "lframe v w" using t w by (auto simp: bframe_log v(1))
        then have "lframe s w" using lframe_trans by blast
        with w t ok show "?Q () w" by (auto simp: wrote_def bframe_log v)
      qed (use t cl in \<open>simp_all add: v(1)\<close>)
    qed (use n in \<open>simp_all add: u_def lt\<close>)
    then show "wp (bdata b) (\<lambda>d. wp (let n = sint (word_at d 0) in
       thn (upd_lg (\<lambda>l. l\<lparr>lg_lh := (lg_lh l)\<lparr>lh_n := n\<rparr>\<rparr>))
       (thn (forM [0..<nat n] (head_entry d))
       (brelse b))) ?Q) t"
      using bd by (simp add: wp_Ret upd_lg_def u_def Let_def)
  qed (use ok a in auto)
qed

text \<open>The home blocks and contents that a header block on disk \<open>d\<close> announces, and their writes.\<close>

definition redo_writes :: "u32 \<Rightarrow> (u32 \<Rightarrow> u8 list) \<Rightarrow> (u32 \<times> u8 list) list" where
  "redo_writes a d = map (\<lambda>j. (word_at (d a) (1 + j), d (a + of_nat j + 1))) [0..<nat (sint (word_at (d a) 0))]"

text \<open>A log header on the disk that \<open>recover_from_log\<close> can follow.\<close>

definition head_ok :: "u32 \<Rightarrow> u32 \<Rightarrow> (u32 \<Rightarrow> u8 list) \<Rightarrow> bool" where
  "head_ok nsec a d \<longleftrightarrow> (let n = sint (word_at (d a) 0) in 0 \<le> n \<and> n < int LOGSIZE \<and> unat a + nat n < unat nsec \<and>
     (\<forall>i < nat n. word_at (d a) (1 + i) < a))"

text \<open>The state in which the kernel starts to recover: nothing is cached.\<close>

definition fresh :: "'z logst_scheme \<Rightarrow> bool" where
  "fresh s \<longleftrightarrow> bio_ok s \<and> held s = Map.empty \<and> pin s = {} \<and> lg_dev (lg s) = 1 \<and> length (lh_sector (lg_lh (lg s))) = LOGSIZE"

lemma recover_ok:
  fixes s :: "'z logst_scheme"
  defines "a \<equiv> lg_start (lg s)"
  assumes f: "fresh s" and h: "head_ok (disksize s) a (disk s)"
  shows "wp recover_from_log (\<lambda>_ t. \<exists>h0. word_at h0 0 = 0 \<and> length h0 = 512 \<and> wrote (redo_writes a (disk s) @ [(a, h0)]) s t \<and>
    lg_start (lg t) = a \<and> lh_n (lg_lh (lg t)) = 0) s"
proof -
  let ?n = "sint (word_at (disk s a) 0)"
  have ok: "bio_ok s" "held s = Map.empty" "pin s = {}" "lg_dev (lg s) = 1" "length (lh_sector (lg_lh (lg s))) = LOGSIZE"
    using f by (auto simp: fresh_def)
  have h': "0 \<le> ?n" "?n < 30" "unat a + nat ?n < unat (disksize s)" "\<And>i. i < nat ?n \<Longrightarrow> word_at (disk s a) (1 + i) < a"
    using h by (auto simp: head_ok_def Let_def)
  have a: "a < disksize s" using h'(3) by (simp add: word_less_nat_alt)
  have cl: "blk s x = disk s x" for x using free_clean[OF ok(1)] ok(2,3) by simp
  show ?thesis unfolding recover_from_log_def
  proof (rule wp_thnI[OF read_head_ok])
    fix t assume "wrote [] s t \<and> (\<exists>xs. lg t = (lg s)\<lparr>lg_lh := \<lparr>lh_n = sint (word_at (disk s (lg_start (lg s))) 0), lh_sector = xs\<rparr>\<rparr> \<and>
      length xs = LOGSIZE \<and> (\<forall>i < nat (sint (word_at (disk s (lg_start (lg s))) 0)). xs ! i = word_at (disk s (lg_start (lg s))) (1 + i)))"
    then obtain xs where t: "wrote [] s t" "lg t = (lg s)\<lparr>lg_lh := \<lparr>lh_n = ?n, lh_sector = xs\<rparr>\<rparr>" "length xs = LOGSIZE"
      "\<forall>i < nat ?n. xs ! i = word_at (disk s a) (1 + i)" unfolding a_def by blast
    have bt: "bio_ok t" "held t = Map.empty" "pin t = {}" "blk t = disk s" "disksize t = disksize s"
      using t(1) ok cl by (auto simp: wrote_def lframe_def)
    have gt: "log_geom t" using t h' bt ok(4) by (simp add: log_geom_def a_def)
    have hw: "home_writes t (logn t) = redo_writes a (disk s)"
      using t(2-4) bt(4) by (simp add: home_writes_def redo_writes_def a_def)
    show "wp (thn install_trans (thn clear_head write_head)) (\<lambda>_ t. \<exists>h0. word_at h0 0 = 0 \<and> length h0 = 512 \<and>
      wrote (redo_writes a (disk s) @ [(a, h0)]) s t \<and> lg_start (lg t) = a \<and> lh_n (lg_lh (lg t)) = 0) t"
    proof (rule wp_thnI[OF install_trans_ok[OF gt]])
      fix u assume u: "wrote (home_writes t (logn t)) t u \<and> lg u = lg t"
      let ?l = "(lg u)\<lparr>lg_lh := (lg_lh (lg u))\<lparr>lh_n := 0\<rparr>\<rparr>"
      let ?v = "u\<lparr>lg := ?l\<rparr>"
      have wu: "wrote (redo_writes a (disk s)) s u" using wrote_trans[OF t(1), of _ u] u hw by simp
      have bu: "bio_ok u" "held u = Map.empty" "pin u = {}" "disksize u = disksize s" using wu ok by (auto simp: wrote_def lframe_def)
      have gv: "log_geom ?v" using u t bu a ok(4) by (simp add: log_geom_def a_def word_less_nat_alt)
      have lv: "length (blk u a) = 512" using bc.view_length[OF bu(1)] a bu(4) by simp
      have av: "lg_start (lg u) = a" using u t(2) by (simp add: a_def)
      let ?h0 = "head_block (lg_lh ?l) (blk u a)"
      have h0: "length ?h0 = 512" "word_at ?h0 0 = 0" using head_block(1,2)[OF lv, of "lg_lh ?l"] by simp_all
      have "wp write_head (\<lambda>_ t. wrote [(a, ?h0)] ?v t \<and> lg t = lg ?v) ?v"
        using write_head_ok[OF gv] bu av by simp
      then show "wp (thn clear_head write_head) (\<lambda>_ t. \<exists>h0. word_at h0 0 = 0 \<and> length h0 = 512 \<and>
          wrote (redo_writes a (disk s) @ [(a, h0)]) s t \<and> lg_start (lg t) = a \<and> lh_n (lg_lh (lg t)) = 0) u"
      proof -
        assume w: "wp write_head (\<lambda>_ t. wrote [(a, ?h0)] ?v t \<and> lg t = lg ?v) ?v"
        have "wp write_head (\<lambda>_ t. \<exists>h0. word_at h0 0 = 0 \<and> length h0 = 512 \<and>
          wrote (redo_writes a (disk s) @ [(a, h0)]) s t \<and> lg_start (lg t) = a \<and> lh_n (lg_lh (lg t)) = 0) ?v"
        proof (rule wp_mono[OF w])
          fix x assume x: "wrote [(a, ?h0)] ?v x \<and> lg x = lg ?v"
          have "wrote (redo_writes a (disk s) @ [(a, ?h0)]) s x"
            by (rule wrote_trans[of _ s ?v]) (use wu x in simp_all)
          with h0 x av show "\<exists>h0. word_at h0 0 = 0 \<and> length h0 = 512 \<and>
            wrote (redo_writes a (disk s) @ [(a, h0)]) s x \<and> lg_start (lg x) = a \<and> lh_n (lg_lh (lg x)) = 0" by auto
        qed
        then show ?thesis by (simp add: clear_head_def upd_lg_def)
      qed
    qed (use bt in simp_all)
  qed (use ok h' a in \<open>simp_all add: a_def\<close>)
qed

section \<open>The invariant of the log\<close>

text \<open>
  The pinned blocks are those of the header, which are distinct, and no transaction is committed on
  the disk. The log has at most \<open>LOGSIZE\<close> blocks, one of them for the header.
\<close>

definition log_ok :: "'z logst_scheme \<Rightarrow> bool" where
  "log_ok s \<longleftrightarrow> bio_ok s \<and> log_geom s \<and> distinct (take (logn s) (lh_sector (lg_lh (lg s)))) \<and>
     pin s = set (take (logn s) (lh_sector (lg_lh (lg s)))) \<and> lh_n (lg_lh (lg s)) < lg_size (lg s) \<and>
     lg_size (lg s) \<le> int LOGSIZE \<and> unat (lg_start (lg s)) + nat (lg_size (lg s)) \<le> unat (disksize s) \<and>
     word_at (disk s (lg_start (lg s))) 0 = 0"

lemma log_okD:
  assumes "log_ok s"
  shows "bio_ok s" "log_geom s" "pin s = logsec s ` {..<logn s}" "card (pin s) < NBUF" "inj_on (logsec s) {..<logn s}"
    "lg_start (lg s) \<le> x \<Longrightarrow> x \<notin> pin s" "word_at (disk s (lg_start (lg s))) 0 = 0" "logn s < 30"
proof -
  let ?xs = "lh_sector (lg_lh (lg s))"
  have g: "log_geom s" and ok: "bio_ok s" and d: "distinct (take (logn s) ?xs)" and p: "pin s = set (take (logn s) ?xs)"
    using assms by (auto simp: log_ok_def)
  show "bio_ok s" "log_geom s" by fact+
  show n: "logn s < 30" using g by (auto simp: log_geom_def)
  have len: "length (take (logn s) ?xs) = logn s" using g n by (simp add: log_geom_def)
  have at: "take (logn s) ?xs ! i = logsec s i" if "i < logn s" for i using that by simp
  show pn: "pin s = logsec s ` {..<logn s}" using p nth_image[of "logn s" ?xs] len by (simp add: atLeast0LessThan)
  show "inj_on (logsec s) {..<logn s}"
  proof (rule inj_onI)
    fix i j assume "i \<in> {..<logn s}" "j \<in> {..<logn s}" "logsec s i = logsec s j"
    then show "i = j" using nth_eq_iff_index_eq[OF d, of i j] len at by simp
  qed
  have "card (pin s) \<le> logn s" unfolding p using card_length[of "take (logn s) ?xs"] len by simp
  with n show "card (pin s) < NBUF" by simp
  show "lg_start (lg s) \<le> x \<Longrightarrow> x \<notin> pin s" using g by (auto simp: pn log_geom_def)
  show "word_at (disk s (lg_start (lg s))) 0 = 0" using assms by (simp add: log_ok_def)
qed

section \<open>Commit\<close>

text \<open>The disk writes of \<open>commit\<close>, in order: the log, the header, the home blocks, the empty header.\<close>

definition commit_writes :: "'z logst_scheme \<Rightarrow> u8 list \<Rightarrow> (u32 \<times> u8 list) list" where
  "commit_writes s h0 = log_writes s (logn s) @ [(lg_start (lg s), head_block (lg_lh (lg s)) (blk s (lg_start (lg s))))] @
     map (\<lambda>j. (logsec s j, blk s (logsec s j))) [0..<logn s] @ [(lg_start (lg s), h0)]"

lemma commit_ok:
  assumes l: "log_ok s" and h: "held s = Map.empty" and n: "0 < lh_n (lg_lh (lg s))"
  shows "wp commit (\<lambda>_ t. \<exists>h0. word_at h0 0 = 0 \<and> length h0 = 512 \<and> wrote (commit_writes s h0) s t \<and>
    lg t = (lg s)\<lparr>lg_lh := (lg_lh (lg s))\<lparr>lh_n := 0\<rparr>\<rparr>) s"
proof -
  let ?a = "lg_start (lg s)" and ?N = "logn s" and ?L = "log_writes s (logn s)"
  let ?H = "head_block (lg_lh (lg s)) (blk s ?a)"
  let ?W = "map (\<lambda>j. (logsec s j, blk s (logsec s j))) [0..<logn s]"
  let ?Q = "\<lambda>_ t. \<exists>h0. word_at h0 0 = 0 \<and> length h0 = 512 \<and> wrote (commit_writes s h0) s t \<and>
    lg t = (lg s)\<lparr>lg_lh := (lg_lh (lg s))\<lparr>lh_n := 0\<rparr>\<rparr>"
  note D = log_okD[OF l]
  note B = log_blocks[OF D(2)]
  have nL: "logblk s j \<notin> pin s" if "j < ?N" for j using D(6) B(2)[OF that] by simp
  have ne: "?a \<noteq> logblk s j" "?a \<noteq> logsec s j" if "j < ?N" for j using B(2,3)[OF that] by (metis less_irrefl)+
  then have nA: "?a \<notin> logblk s ` {..<?N}" "?a \<notin> logsec s ` {..<?N}" unfolding image_iff by blast+
  have "wp (thn write_log (thn write_head (thn install_trans (thn clear_head write_head)))) ?Q s"
  proof (rule wp_thnI[OF write_log_ok[OF D(2,1) h D(4)]])
    fix t assume t: "wrote ?L s t \<and> lg t = lg s"
    then have gt: "log_geom t" using wrote_geom D(2) by blast
    have pt: "pin t = pin s" using t nL by (auto simp: wrote_def log_writes_fst)
    have bt: "bio_ok t" "held t = Map.empty" using t h by (auto simp: wrote_def)
    have at: "blk t ?a = blk s ?a" using t nA by (simp add: wrote_def apply_ws_other log_writes_fst)
    show "wp (thn write_head (thn install_trans (thn clear_head write_head))) ?Q t"
    proof (rule wp_thnI[OF write_head_ok[OF gt bt]])
      fix u assume "wrote [(lg_start (lg t), head_block (lg_lh (lg t)) (blk t (lg_start (lg t))))] t u \<and> lg u = lg t"
      then have u: "wrote (?L @ [(?a, ?H)]) s u" "lg u = lg s" using t at wrote_trans[of ?L s t] by auto
      then have gu: "log_geom u" using wrote_geom D(2) by blast
      have pu: "pin u = pin s" using u nL D(6)[of ?a] by (auto simp: wrote_def log_writes_fst)
      have bu: "bio_ok u" "held u = Map.empty" using u h by (auto simp: wrote_def)
      have bu': "blk u = (apply_ws ?L (blk s))(?a := ?H)" using u(1) by (simp add: wrote_def)
      have lb: "blk u (logblk s j) = blk s (logsec s j)" if "j < ?N" for j
        by (simp only: bu' log_writes_def fun_upd_other[OF ne(1)[OF that, symmetric]] apply_ws_map[OF logblk_inj[OF D(2)] that])
      then have hw: "home_writes u (logn u) = ?W" by (simp add: home_writes_def u(2))
      show "wp (thn install_trans (thn clear_head write_head)) ?Q u"
      proof (rule wp_thnI[OF install_trans_ok[OF gu bu]])
        fix v assume v: "wrote (home_writes u (logn u)) u v \<and> lg v = lg u"
        have wv: "wrote (?L @ [(?a, ?H)] @ ?W) s v" "lg v = lg s" using v u hw wrote_trans[OF u(1), of ?W v] by auto
        have bv: "bio_ok v" "held v = Map.empty" using wv h by (auto simp: wrote_def)
        have "fst ` set ?W = pin s" using D(3) by (simp add: image_image atLeast0LessThan)
        moreover have "pin v = pin s - fst ` set (?L @ [(?a, ?H)] @ ?W)" using wv(1) by (simp only: wrote_def)
        ultimately have pv: "pin v = {}" unfolding set_append image_Un by blast
        let ?l = "(lg s)\<lparr>lg_lh := (lg_lh (lg s))\<lparr>lh_n := 0\<rparr>\<rparr>"
        let ?v = "v\<lparr>lg := ?l\<rparr>"
        have gv: "log_geom ?v" using D(2) wv(1) by (auto simp: log_geom_def wrote_def lframe_def)
        have sz: "?a < disksize v" using gv by (simp add: log_geom_def word_less_nat_alt)
        let ?h0 = "head_block (lg_lh ?l) (blk v ?a)"
        have h0: "length ?h0 = 512" "word_at ?h0 0 = 0"
          using head_block(1,2)[OF bc.view_length[OF bv(1) sz], of "lg_lh ?l"] by simp_all
        have "wp write_head (\<lambda>_ t. wrote [(?a, ?h0)] ?v t \<and> lg t = lg ?v) ?v"
          using write_head_ok[OF gv] bv pv by simp
        then have "wp write_head ?Q ?v"
        proof (rule wp_mono)
          fix x assume x: "wrote [(?a, ?h0)] ?v x \<and> lg x = lg ?v"
          have "wrote ((?L @ [(?a, ?H)] @ ?W) @ [(?a, ?h0)]) s x"
            by (rule wrote_trans[of _ s ?v]) (use wv x in simp_all)
          with h0 x show "?Q () x" by (auto simp: commit_writes_def intro!: exI[of _ ?h0])
        qed
        then show "wp (thn clear_head write_head) ?Q v" by (simp add: clear_head_def upd_lg_def wv(2))
      qed (use pu D(3,4) nL in \<open>auto simp: u(2)\<close>)
    qed (use pt D(4) D(6)[of ?a] in \<open>simp_all add: t\<close>)
  qed (use nL D(3) in auto)
  then show ?thesis using n by (simp add: commit_def)
qed

text \<open>The contents of the home blocks after the redo writes, from any disk between the old and the new one.\<close>

lemma home_new:
  assumes l: "log_ok s" and h: "held s = Map.empty" and x: "x < lg_start (lg s)"
    and d: "\<And>y. y < lg_start (lg s) \<Longrightarrow> y \<notin> pin s \<Longrightarrow> d y = disk s y"
  shows "apply_ws (map (\<lambda>j. (logsec s j, blk s (logsec s j))) [0..<logn s]) d x = blk s x"
proof (cases "x \<in> pin s")
  case True
  then obtain j where "j < logn s" "x = logsec s j" using log_okD(3)[OF l] by auto
  then show ?thesis using apply_ws_map[OF log_okD(5)[OF l]] by simp
next
  case False
  then have "x \<notin> fst ` set (map (\<lambda>j. (logsec s j, blk s (logsec s j))) [0..<logn s])"
    using log_okD(3)[OF l] by (auto simp: image_image)
  then have "apply_ws (map (\<lambda>j. (logsec s j, blk s (logsec s j))) [0..<logn s]) d x = d x" by (rule apply_ws_other)
  then show ?thesis using d[OF x False] free_clean[OF log_okD(1)[OF l], of x] h False by simp
qed

text \<open>
  The disk after the first \<open>k\<close> writes of \<open>commit\<close>, in its three cases: before the header is
  written, while it stands, and after it is cleared.
\<close>

lemma sint_log: "0 \<le> n \<Longrightarrow> n < 30 \<Longrightarrow> sint (of_int n :: u32) = n"
  by (simp add: sint_sbintrunc' signed_take_bit_int_eq_self)

lemma crash_disk:
  fixes s :: "'z logst_scheme" and k :: nat
  defines "a \<equiv> lg_start (lg s)" and "n \<equiv> logn s"
  assumes l: "log_ok s" and h: "held s = Map.empty" and h0: "word_at h0 0 = 0"
  defines "d \<equiv> apply_ws (take k (commit_writes s h0)) (disk s)"
  shows "head_ok (disksize s) a d \<and> (\<forall>x < a. apply_ws (redo_writes a d) d x = (if k \<le> n then disk s x else blk s x))"
proof -
  note D = log_okD[OF l]
  note B = log_blocks[OF D(2)]
  let ?L = "log_writes s n" and ?H = "head_block (lg_lh (lg s)) (blk s a)"
  let ?W = "map (\<lambda>j. (logsec s j, blk s (logsec s j))) [0..<n]"
  have ws: "commit_writes s h0 = ?L @ [(a, ?H)] @ ?W @ [(a, h0)]" by (simp add: commit_writes_def a_def n_def)
  have ln: "length ?L = n" "length ?W = n" by (simp_all add: log_writes_def)
  have n30: "n < 30" "0 \<le> lh_n (lg_lh (lg s))" using D(2,8) by (auto simp: n_def log_geom_def)
  have az: "a < disksize s" using D(2) by (simp add: a_def log_geom_def word_less_nat_alt)
  have o: "a < logblk s j" "logsec s j < a" if "j < n" for j using B(2,3)[of j] that by (simp_all only: a_def n_def)
  have ne: "a \<noteq> logblk s j" "a \<noteq> logsec s j" "\<not> logblk s j < a" "logsec s j < a" if "j < n" for j
    using o[OF that] by (metis less_irrefl less_asym)+
  have sL: "fst ` set (take k ?L) \<subseteq> logblk s ` {..<n}" "fst ` set ?L = logblk s ` {..<n}" for k
    using image_mono[OF set_take_subset[of k ?L], of fst] log_writes_fst(1)[of s n] by simp_all
  have fW: "fst ` set ?W = logsec s ` {..<n}" by (simp add: image_image atLeast0LessThan)
  have sW: "fst ` set (take k ?W) \<subseteq> logsec s ` {..<n}" for k
    using image_mono[OF set_take_subset[of k ?W], of fst] fW by (simp only:)
  have iL: "y \<in> logblk s ` {..<n} \<Longrightarrow> a < y" "y \<in> logsec s ` {..<n} \<Longrightarrow> y < a" for y
    unfolding image_iff using o by blast+
  have La: "a \<notin> fst ` set (take k ?L)" "a \<notin> fst ` set ?L" for k using sL iL(1)[of a] by blast+
  have Wa: "a \<notin> fst ` set (take k ?W)" "a \<notin> fst ` set ?W" for k using sW fW iL(2)[of a] by blast+
  have "x \<notin> logblk s ` {..<n}" if "x < a" for x using iL(1)[of x] that less_asym by blast
  then have Lx: "x \<notin> fst ` set (take k ?L)" "x \<notin> fst ` set ?L" if "x < a" for k x using sL that by blast+
  consider "k \<le> n" | "n < k" "k \<le> 2 * n + 1" | "2 * n + 1 < k" by linarith
  then show ?thesis
  proof cases
    case 1
    then have d: "d = apply_ws (take k ?L) (disk s)" using ln by (simp add: d_def ws)
    have da: "d a = disk s a" using La by (simp add: d apply_ws_other)
    then have z: "redo_writes a d = []" using D(7) by (simp add: redo_writes_def a_def)
    have hd: "head_ok (disksize s) a d" using da D(7) az by (simp add: head_ok_def Let_def a_def word_less_nat_alt)
    have "apply_ws (redo_writes a d) d x = (if k \<le> n then disk s x else blk s x)" if "x < a" for x
      unfolding z using 1 Lx[OF that] by (simp add: d apply_ws_other)
    with hd show ?thesis by blast
  next
    case 2
    define m where "m = k - n - 1"
    have "k = n + Suc m" "m \<le> n" using 2 by (auto simp: m_def)
    then have "take k (commit_writes s h0) = ?L @ [(a, ?H)] @ take m ?W" using ln by (simp add: ws)
    then have d: "d = apply_ws (take m ?W) ((apply_ws ?L (disk s))(a := ?H))" by (simp add: d_def)
    have len: "length (blk s a) = 512" using bc.view_length[OF D(1)] az by simp
    have nn: "nat (lh_n (lg_lh (lg s))) = n" by (simp add: n_def)
    have l30: "lh_n (lg_lh (lg s)) \<le> 30" "lh_n (lg_lh (lg s)) < 30" using n30 nn by simp_all
    note H = head_block[OF len n30(2) l30(1)]
    have da: "d a = ?H" using Wa by (simp add: d apply_ws_other)
    have sn: "sint (word_at (d a) 0) = lh_n (lg_lh (lg s))" using H(2) sint_log[OF n30(2) l30(2)] by (simp add: da)
    have hs: "word_at (d a) (1 + j) = logsec s j" if "j < n" for j using H(3)[of j] that by (simp add: da n_def)
    have db: "d (a + of_nat j + 1) = blk s (logsec s j)" if "j < n" for j
    proof -
      have "logblk s j \<notin> fst ` set (take m ?W)" using sW[of m] iL(2) ne(3)[OF that] by blast
      then have "d (logblk s j) = ((apply_ws ?L (disk s))(a := ?H)) (logblk s j)" unfolding d by (rule apply_ws_other)
      also have "\<dots> = blk s (logsec s j)"
        using apply_ws_map[OF logblk_inj[OF D(2)], of j "\<lambda>j. blk s (logsec s j)" "disk s"] that
        by (simp only: fun_upd_other[OF ne(1)[OF that, symmetric]] log_writes_def n_def)
      finally show ?thesis by (simp add: a_def)
    qed
    have rw: "redo_writes a d = ?W" using sn hs db by (simp add: redo_writes_def n_def)
    have hd: "head_ok (disksize s) a d"
      using sn hs ne(4) n30 l30 D(2) by (auto simp: head_ok_def Let_def a_def n_def log_geom_def)
    have "apply_ws (redo_writes a d) d x = (if k \<le> n then disk s x else blk s x)" if "x < a" for x
    proof -
      have "d y = disk s y" if "y < a" "y \<notin> pin s" for y
      proof -
        have "y \<notin> fst ` set (take m ?W)" using that(2) sW[of m] by (auto simp: D(3) n_def)
        then show ?thesis using Lx(2)[OF that(1)] that(1) by (auto simp: d apply_ws_other)
      qed
      then show ?thesis unfolding rw using home_new[OF l h, of x d] that 2 by (simp add: a_def n_def)
    qed
    with hd show ?thesis by blast
  next
    case 3
    have "take k (commit_writes s h0) = commit_writes s h0" using 3 ln by (simp add: ws)
    then have d: "d = (apply_ws ?W ((apply_ws ?L (disk s))(a := ?H)))(a := h0)" by (simp add: d_def ws)
    have z: "redo_writes a d = []" using h0 by (simp add: redo_writes_def d)
    have hd: "head_ok (disksize s) a d" using h0 az by (simp add: head_ok_def Let_def d word_less_nat_alt)
    have "apply_ws (redo_writes a d) d x = (if k \<le> n then disk s x else blk s x)" if "x < a" for x
    proof -
      have "((apply_ws ?L (disk s))(a := ?H)) y = disk s y" if "y < a" for y
        using Lx(2)[OF that] that by (auto simp: apply_ws_other)
      then show ?thesis unfolding z using home_new[OF l h, of x "(apply_ws ?L (disk s))(a := ?H)"] that 3
        by (auto simp: d a_def n_def)
    qed
    with hd show ?thesis by blast
  qed
qed

text \<open>A state after a reboot with disk \<open>d\<close>: \<open>initlog\<close> has found the same log, nothing is cached.\<close>

definition rebooted :: "'z logst_scheme \<Rightarrow> (u32 \<Rightarrow> u8 list) \<Rightarrow> 'y logst_scheme \<Rightarrow> bool" where
  "rebooted s d u \<longleftrightarrow> fresh u \<and> disk u = d \<and> disksize u = disksize s \<and> lg_start (lg u) = lg_start (lg s)"

lemma crash_recovers:
  assumes l: "log_ok s" and h: "held s = Map.empty" and h0: "word_at h0 0 = 0"
    and u: "rebooted s (apply_ws (take k (commit_writes s h0)) (disk s)) u"
  shows "wp recover_from_log (\<lambda>_ v. word_at (disk v (lg_start (lg s))) 0 = 0 \<and>
    (\<forall>x < lg_start (lg s). disk v x = (if k \<le> logn s then disk s x else blk s x))) u"
proof -
  let ?a = "lg_start (lg s)"
  have r: "fresh u" "disk u = apply_ws (take k (commit_writes s h0)) (disk s)" "disksize u = disksize s" "lg_start (lg u) = ?a"
    using u by (auto simp: rebooted_def)
  note c = crash_disk[OF l h h0, of k, folded r(2)]
  show ?thesis
  proof (rule wp_mono[OF recover_ok[OF r(1)]])
    fix v assume "\<exists>h0. word_at h0 0 = 0 \<and> length h0 = 512 \<and> wrote (redo_writes (lg_start (lg u)) (disk u) @ [(lg_start (lg u), h0)]) u v \<and>
      lg_start (lg v) = lg_start (lg u) \<and> lh_n (lg_lh (lg v)) = 0"
    then obtain e where e: "word_at e 0 = 0" "disk v = (apply_ws (redo_writes ?a (disk u)) (disk u))(?a := e)"
      by (auto simp: wrote_def r(4))
    with c show "word_at (disk v ?a) 0 = 0 \<and> (\<forall>x < ?a. disk v x = (if k \<le> logn s then disk s x else blk s x))" by simp
  qed (use c r in simp)
qed

lemma commit_wrote:
  assumes l: "log_ok s" and h: "held s = Map.empty" and h0: "word_at h0 0 = 0"
    and t: "wrote (commit_writes s h0) s t" "lg t = (lg s)\<lparr>lg_lh := (lg_lh (lg s))\<lparr>lh_n := 0\<rparr>\<rparr>"
  shows "log_ok t" "pin t = {}" "\<And>x. x < lg_start (lg s) \<Longrightarrow> disk t x = blk s x" "blk t = disk t"
proof -
  let ?ws = "commit_writes s h0" and ?a = "lg_start (lg s)"
  have "pin s \<subseteq> fst ` set ?ws" using log_okD(3)[OF l] by (auto simp: commit_writes_def image_Un image_image)
  then show p: "pin t = {}" using t(1) by (auto simp: wrote_def)
  have d: "disk t = apply_ws ?ws (disk s)" and b: "bio_ok t" "held t = Map.empty" "disksize t = disksize s"
    using t(1) h by (auto simp: wrote_def lframe_def)
  have a: "disk t ?a = h0" by (simp add: d commit_writes_def)
  show "disk t x = blk s x" if "x < ?a" for x
  proof -
    have "length (log_writes s (logn s)) = logn s" by (simp add: log_writes_def)
    then have nw: "\<not> length ?ws \<le> logn s" and tk: "take (length ?ws) ?ws = ?ws" by (simp_all add: commit_writes_def)
    have "redo_writes ?a (disk t) = []" using a h0 by (simp add: redo_writes_def)
    then show ?thesis using crash_disk[OF l h h0, of "length ?ws", unfolded tk, folded d] that nw by simp
  qed
  show "blk t = disk t" using free_clean[OF b(1)] b(2) p by auto
  show "log_ok t" using l b p a h0 t(2) by (auto simp: log_ok_def log_geom_def)
qed

section \<open>Properties\<close>

text \<open>
  C7. Atomicity of a transaction under crashes. \<open>commit\<close> returns with an empty log and every block
  on the disk as it was in the cache. If instead the machine stops after any number \<open>k\<close> of its disk
  writes and boots again, \<open>recover_from_log\<close> leaves the file system as it was before the transaction
  when the header had not been written, and as it is after it from that write on.
\<close>

theorem commit_crash_atomic:
  assumes "log_ok s" and "held s = Map.empty" and "0 < lh_n (lg_lh (lg s))"
  shows "\<exists>t ws. commit s = Ret () t \<and> wlog t = wlog s @ ws \<and> lh_n (lg_lh (lg t)) = 0 \<and> pin t = {} \<and>
    (\<forall>x < lg_start (lg s). disk t x = blk s x) \<and>
    (\<forall>k u. rebooted s (apply_ws (take k ws) (disk s)) u \<longrightarrow>
       (\<exists>v. recover_from_log u = Ret () v \<and> word_at (disk v (lg_start (lg s))) 0 = 0 \<and>
          (\<forall>x < lg_start (lg s). disk v x = (if k \<le> nat (lh_n (lg_lh (lg s))) then disk s x else blk s x))))"
proof -
  from wpDu[OF commit_ok[OF assms]] obtain t h0 where t: "commit s = Ret () t" "word_at h0 0 = 0"
    "wrote (commit_writes s h0) s t" "lg t = (lg s)\<lparr>lg_lh := (lg_lh (lg s))\<lparr>lh_n := 0\<rparr>\<rparr>" by blast
  let ?ws = "commit_writes s h0"
  note w = commit_wrote[OF assms(1,2) t(2-4)]
  have "\<exists>v. recover_from_log u = Ret () v \<and> word_at (disk v (lg_start (lg s))) 0 = 0 \<and>
      (\<forall>x < lg_start (lg s). disk v x = (if k \<le> logn s then disk s x else blk s x))"
    if "rebooted s (apply_ws (take k ?ws) (disk s)) u" for k u
    using wpDu[OF crash_recovers[OF assms(1,2) t(2) that]] by simp
  moreover have "wlog t = wlog s @ ?ws" "lh_n (lg_lh (lg t)) = 0" using t(3,4) by (simp_all add: wrote_def)
  ultimately show ?thesis using t(1) w(2,3) by (intro exI[of _ t] exI[of _ ?ws]) blast
qed

lemma log_enter_cases:
  assumes "0 \<le> lh_n h" "nat (lh_n h) < length (lh_sector h)"
  defines "xs \<equiv> take (nat (lh_n h)) (lh_sector h)"
  shows "sec \<in> set xs \<Longrightarrow> log_enter sec h = h"
    "sec \<notin> set xs \<Longrightarrow> lh_n (log_enter sec h) = lh_n h + 1 \<and> length (lh_sector (log_enter sec h)) = length (lh_sector h) \<and>
      take (nat (lh_n h + 1)) (lh_sector (log_enter sec h)) = xs @ [sec]"
proof -
  let ?n = "nat (lh_n h)"
  show "log_enter sec h = h" if "sec \<in> set xs"
  proof (cases "find_idx (\<lambda>x. x = sec) xs")
    case None
    then show ?thesis using that find_idx_None_iff[of "\<lambda>x. x = sec" xs] by auto
  next
    case (Some i)
    from find_idx_SomeD[OF this] have i: "i < ?n" "lh_sector h ! i = sec" by (auto simp: xs_def)
    then have "(lh_sector h)[i := sec] = lh_sector h" by (metis list_update_id)
    with Some i(1) show ?thesis by (simp add: log_enter_def Let_def xs_def)
  qed
  assume "sec \<notin> set xs"
  then have f: "find_idx (\<lambda>x. x = sec) xs = None" by (auto simp: find_idx_None_iff)
  have "nat (lh_n h + 1) = Suc ?n" using assms(1) by simp
  then show "lh_n (log_enter sec h) = lh_n h + 1 \<and> length (lh_sector (log_enter sec h)) = length (lh_sector h) \<and>
      take (nat (lh_n h + 1)) (lh_sector (log_enter sec h)) = xs @ [sec]"
    using f assms(2) by (simp add: log_enter_def Let_def xs_def take_Suc_conv_app_nth)
qed

lemma log_write_ok:
  assumes l: "log_ok s" and h: "held s sec = Some b" and sec: "sec < lg_start (lg s)"
    and o: "1 \<le> lg_outstanding (lg s)" "lh_n (lg_lh (lg s)) < lg_size (lg s) - 1"
  shows "wp (log_write b) (\<lambda>_ t. log_ok t \<and> lframe s t \<and> held t = held s \<and> blk t = blk s \<and> disk t = disk s \<and>
    wlog t = wlog s \<and> pin t = insert sec (pin s) \<and> lg t = (lg s)\<lparr>lg_lh := log_enter sec (lg_lh (lg s))\<rparr>) s"
proof -
  let ?h = "lg_lh (lg s)"
  let ?l = "(lg s)\<lparr>lg_lh := log_enter sec ?h\<rparr>"
  let ?s = "s\<lparr>lg := ?l\<rparr>"
  note D = log_okD[OF l] and H = heldD[OF log_okD(1)[OF l] h]
  have g: "length (lh_sector ?h) = 30" "0 \<le> lh_n ?h" "lg_dev (lg s) = 1" using D(2) by (auto simp: log_geom_def)
  have sz: "lg_size (lg s) \<le> 30" "unat (lg_start (lg s)) + nat (lg_size (lg s)) \<le> unat (disksize s)"
    "distinct (take (logn s) (lh_sector ?h))" "pin s = set (take (logn s) (lh_sector ?h))" using l by (auto simp: log_ok_def)
  have lt: "nat (lh_n ?h) < length (lh_sector ?h)" using g D(8) by simp
  note c = log_enter_cases[OF g(2) lt, of sec]
  let ?g = "log_enter sec ?h"
  have e: "length (lh_sector ?g) = 30" "0 \<le> lh_n ?g" "lh_n ?g < lg_size (lg s)" "distinct (take (nat (lh_n ?g)) (lh_sector ?g))"
    "set (take (nat (lh_n ?g)) (lh_sector ?g)) = insert sec (pin s)"
    using c g o sz(3,4) by (cases "sec \<in> pin s"; auto)+
  have below: "lh_sector ?g ! i < lg_start (lg s)" if "i < nat (lh_n ?g)" for i
  proof -
    have "i < 30" using that e sz(1) by linarith
    then have "lh_sector ?g ! i \<in> set (take (nat (lh_n ?g)) (lh_sector ?g))"
      using that e(1) by (auto simp: in_set_conv_nth intro!: exI[of _ i])
    then show ?thesis using e(5) sec D(6)[of "lh_sector ?g ! i"] by (auto simp: not_less[symmetric])
  qed
  have "wp (updb b (\<lambda>x. x\<lparr>b_dirty := True\<rparr>)) (\<lambda>_ t. log_ok t \<and> lframe s t \<and> held t = held s \<and> blk t = blk s \<and> disk t = disk s \<and>
    wlog t = wlog s \<and> pin t = insert sec (pin s) \<and> lg t = ?l) ?s"
  proof (rule wp_mono[OF bpin_ok[of ?s sec]])
    fix t assume "bio_ok t \<and> bframe ?s t \<and> held t = held ?s \<and> pin t = insert sec (pin ?s) \<and> blk t = blk ?s \<and> disk t = disk ?s \<and> wlog t = wlog ?s"
    then have t: "bio_ok t" "lframe s t" "lg t = ?l" "held t = held s" "pin t = insert sec (pin s)" "blk t = blk s" "disk t = disk s" "wlog t = wlog s"
      using lframe_trans[of s ?s t] by (simp_all add: bframe_log)
    then have "disksize t = disksize s" by (simp add: lframe_def)
    then have "log_ok t" using t e below g(3) sz D(7) by (auto simp: log_ok_def log_geom_def)
    with t show "log_ok t \<and> lframe s t \<and> held t = held s \<and> blk t = blk s \<and> disk t = disk s \<and>
      wlog t = wlog s \<and> pin t = insert sec (pin s) \<and> lg t = ?l" by simp
  qed (use D(1) h in simp_all)
  then show ?thesis using o sz(1) H unfolding log_write_def
    by (simp add: wp_Ret[OF getb_Ret] upd_lg_def not_le)
qed

text \<open>
  C9. \<open>log_write\<close> keeps the invariant of the log and the contents of every block: it enters the
  block in the header once, however often it is written in a transaction, and pins its buffer.
\<close>

theorem log_write_absorbs:
  assumes "log_ok s" and "held s sec = Some b" and "sec < lg_start (lg s)"
    and "1 \<le> lg_outstanding (lg s)" and "lh_n (lg_lh (lg s)) < lg_size (lg s) - 1"
  shows "\<exists>t u. log_write b s = Ret () t \<and> log_ok t \<and> pin t = insert sec (pin s) \<and> blk t = blk s \<and> disk t = disk s \<and>
    (sec \<in> pin s \<longrightarrow> lg t = lg s) \<and> (sec \<notin> pin s \<longrightarrow> lh_n (lg_lh (lg t)) = lh_n (lg_lh (lg s)) + 1) \<and>
    (lh_n (lg_lh (lg t)) < lg_size (lg t) - 1 \<longrightarrow> log_write b t = Ret () u \<and> lg u = lg t \<and> pin u = pin t)"
proof -
  from wpDu[OF log_write_ok[OF assms]] obtain t where t: "log_write b s = Ret () t" "log_ok t" "held t = held s" "blk t = blk s"
    "disk t = disk s" "pin t = insert sec (pin s)" "lg t = (lg s)\<lparr>lg_lh := log_enter sec (lg_lh (lg s))\<rparr>" by blast
  have c: "sec \<in> pin r \<Longrightarrow> log_enter sec (lg_lh (lg r)) = lg_lh (lg r)"
    "sec \<notin> pin r \<Longrightarrow> lh_n (log_enter sec (lg_lh (lg r))) = lh_n (lg_lh (lg r)) + 1" if "log_ok r" for r :: "'a logst_scheme"
    using that log_enter_cases[of "lg_lh (lg r)" sec] by (auto simp: log_ok_def log_geom_def)
  have same: "lg t = lg s" if "sec \<in> pin s" using c(1)[OF assms(1) that] t(7) by simp
  have new: "lh_n (lg_lh (lg t)) = lh_n (lg_lh (lg s)) + 1" if "sec \<notin> pin s" using c(2)[OF assms(1) that] t(7) by simp
  show ?thesis
  proof (cases "lh_n (lg_lh (lg t)) < lg_size (lg t) - 1")
    case True
    have "wp (log_write b) (\<lambda>_ u. log_ok u \<and> lframe t u \<and> held u = held t \<and> blk u = blk t \<and> disk u = disk t \<and>
      wlog u = wlog t \<and> pin u = insert sec (pin t) \<and> lg u = (lg t)\<lparr>lg_lh := log_enter sec (lg_lh (lg t))\<rparr>) t"
      by (rule log_write_ok[OF t(2) _ _ _ True]) (use assms t in simp_all)
    from wpDu[OF this] obtain u where u: "log_write b t = Ret () u" "pin u = insert sec (pin t)"
      "lg u = (lg t)\<lparr>lg_lh := log_enter sec (lg_lh (lg t))\<rparr>" by blast
    have "lg u = lg t" "pin u = pin t" using u c(1)[OF t(2)] t(6) by auto
    with u(1) t same new show ?thesis by blast
  qed (use t same new in blast)
qed

lemma commit_done:
  assumes l: "log_ok s" and h: "held s = Map.empty"
  shows "wp commit (\<lambda>_ t. log_ok t \<and> lframe s t \<and> held t = Map.empty \<and> pin t = {} \<and> lg t = (lg s)\<lparr>lg_lh := (lg_lh (lg s))\<lparr>lh_n := 0\<rparr>\<rparr> \<and>
    (\<forall>x < lg_start (lg s). disk t x = blk s x) \<and> blk t = disk t) s"
proof (cases "0 < lh_n (lg_lh (lg s))")
  case True
  show ?thesis
  proof (rule wp_mono[OF commit_ok[OF l h True]])
    fix t assume "\<exists>h0. word_at h0 0 = 0 \<and> length h0 = 512 \<and> wrote (commit_writes s h0) s t \<and> lg t = (lg s)\<lparr>lg_lh := (lg_lh (lg s))\<lparr>lh_n := 0\<rparr>\<rparr>"
    then obtain h0 where t: "word_at h0 0 = 0" "wrote (commit_writes s h0) s t" "lg t = (lg s)\<lparr>lg_lh := (lg_lh (lg s))\<lparr>lh_n := 0\<rparr>\<rparr>" by blast
    from commit_wrote[OF l h t] t h show "log_ok t \<and> lframe s t \<and> held t = Map.empty \<and> pin t = {} \<and>
      lg t = (lg s)\<lparr>lg_lh := (lg_lh (lg s))\<lparr>lh_n := 0\<rparr>\<rparr> \<and> (\<forall>x < lg_start (lg s). disk t x = blk s x) \<and> blk t = disk t"
      by (simp add: wrote_def)
  qed
next
  case False
  then have n: "lh_n (lg_lh (lg s)) = 0" using log_okD(2)[OF l] by (auto simp: log_geom_def)
  then have p: "pin s = {}" using log_okD(3)[OF l] by simp
  then have "blk s = disk s" using free_clean[OF log_okD(1)[OF l]] h by auto
  moreover have "lg s = (lg s)\<lparr>lg_lh := (lg_lh (lg s))\<lparr>lh_n := 0\<rparr>\<rparr>" using n by simp
  ultimately show ?thesis using l h p False by (simp add: commit_def)
qed

section \<open>The brackets of an operation\<close>

lemma logst_acq [simp]:
  "lg (acq l s) = lg s" "lg (rel l s) = lg s" "logst.more (acq l s) = logst.more s" "logst.more (rel l s) = logst.more s"
  "acq l (s\<lparr>lg := x\<rparr>) = (acq l s)\<lparr>lg := x\<rparr>" "rel l (s\<lparr>lg := x\<rparr>) = (rel l s)\<lparr>lg := x\<rparr>"
  "lk_free l (s\<lparr>lg := x\<rparr>) = lk_free l s" "lk_held l (s\<lparr>lg := x\<rparr>) = lk_held l s" "cli_ok (s\<lparr>lg := x\<rparr>) = cli_ok s"
  "the_cpu (s\<lparr>lg := x\<rparr>) = the_cpu s"
  by (simp_all add: acq_def rel_def lk_defs)

text \<open>A change of the locks and of the counters of \<open>log\<close> alone.\<close>

definition lquiet :: "'z logst_scheme \<Rightarrow> 'z logst_scheme \<Rightarrow> bool" where
  "lquiet s t \<longleftrightarrow> lframe s t \<and> bufs t = bufs s \<and> disk t = disk s \<and> wlog t = wlog s"

lemma lquiet_bio:
  assumes "lquiet s t" "bio_ok s"
  shows "bio_ok t" "blk t = blk s" "held t = held s" "pin t = pin s" "disk t = disk s" "wlog t = wlog s" "disksize t = disksize s"
  using assms quiet_cli_ok[of s t]
  by (auto simp: lquiet_def lframe_def bio_ok_def blk_def held_def pin_def quiet_def)

lemma lquiet_log_ok:
  assumes "lquiet s t" "log_ok s" "lg_lh (lg t) = lg_lh (lg s)" "lg_start (lg t) = lg_start (lg s)"
    "lg_size (lg t) = lg_size (lg s)" "lg_dev (lg t) = lg_dev (lg s)"
  shows "log_ok t"
  using assms(2-) lquiet_bio[OF assms(1) log_okD(1)[OF assms(2)]] by (simp add: log_ok_def log_geom_def)

lemma crit_log:
  assumes "lk_free Llog s" "cli_ok s"
  shows "lquiet s ((rel Llog (acq Llog s))\<lparr>lg := l\<rparr>)"
  using quiet_crit[OF assms] by (simp add: lquiet_def lframe_def quiet_def)

lemma crit_log_wake:
  assumes "lk_free Llog s" "lk_free Lptable s" "cli_ok s"
  shows "thn (acquire Llog) (thn (upd_lg f) (thn (wakeup ChLog) (release Llog))) s =
      Ret () ((rel Llog (rel Lptable (acq Lptable (acq Llog s))))\<lparr>lg := f (lg s), ptable := map (wakeup_proc ChLog) (ptable s)\<rparr>)"
    "lquiet s ((rel Llog (rel Lptable (acq Lptable (acq Llog s))))\<lparr>lg := l, ptable := map (wakeup_proc ChLog) (ptable s)\<rparr>)"
proof -
  have "0 \<le> ncli (the_cpu s)" using assms(3) by (simp add: cli_ok_def)
  then show "thn (acquire Llog) (thn (upd_lg f) (thn (wakeup ChLog) (release Llog))) s =
      Ret () ((rel Llog (rel Lptable (acq Lptable (acq Llog s))))\<lparr>lg := f (lg s), ptable := map (wakeup_proc ChLog) (ptable s)\<rparr>)"
    using assms by (simp add: mon_defs acquire_free release_held wakeup_Ret upd_lg_def)
  have "quiet s (rel Llog (rel Lptable (acq Lptable (acq Llog s))))" using quiet_crit2 assms by blast
  then have "quiet s ((rel Llog (rel Lptable (acq Lptable (acq Llog s))))\<lparr>ptable := map (wakeup_proc ChLog) (ptable s)\<rparr>)"
    by (rule quiet_woke) simp
  then show "lquiet s ((rel Llog (rel Lptable (acq Lptable (acq Llog s))))\<lparr>lg := l, ptable := map (wakeup_proc ChLog) (ptable s)\<rparr>)"
    by (simp add: lquiet_def lframe_def quiet_def)
qed

text \<open>
  \<open>begin_op\<close> admits an operation exactly when the blocks reserved for it and for the operations
  in progress fit in the log with those already in the header; it counts the operation and frees the
  lock. Otherwise it goes to sleep on the log, with the lock dropped and nothing counted.
\<close>

theorem begin_op_reserves:
  assumes "lk_free Llog s" and "lk_free Lptable s" and "cli_ok s" and "\<not> lg_committing (lg s)"
    and "cpu_proc (the_cpu s) = Some p" and "p < length (ptable s)" and "ncli (the_cpu s) = 0"
  shows "if lh_n (lg_lh (lg s)) + (lg_outstanding (lg s) + 1) * int MAXOPBLOCKS \<le> int LOGSIZE
    then \<exists>t. begin_op s = Ret () t \<and> lquiet s t \<and> lg t = (lg s)\<lparr>lg_outstanding := lg_outstanding (lg s) + 1\<rparr> \<and>
      lh_n (lg_lh (lg t)) + lg_outstanding (lg t) * int MAXOPBLOCKS \<le> int LOGSIZE
    else \<exists>t. begin_op s = Swt t \<and> lg t = lg s \<and> lk_free Llog t \<and> p_state (ptable t ! p) = SLEEPING \<and> p_chan (ptable t ! p) = ChLog"
proof (cases "lh_n (lg_lh (lg s)) + (lg_outstanding (lg s) + 1) * int MAXOPBLOCKS \<le> int LOGSIZE")
  case True
  have "begin_op s = Ret () ((rel Llog (acq Llog s))\<lparr>lg := (lg s)\<lparr>lg_outstanding := lg_outstanding (lg s) + 1\<rparr>\<rparr>)"
    using assms(1,3,4) True by (simp add: begin_op_def begin_op_loop_def mon_defs acquire_free release_held upd_lg_def)
  with True crit_log[OF assms(1,3)] show ?thesis by (auto simp: algebra_simps)
next
  case False
  have "sleep ChLog (Some Llog) (acq Llog s) = Swt ((rel Llog (acq Lptable (acq Llog s)))\<lparr>ptable :=
      (ptable s)[p := (ptable s ! p)\<lparr>p_chan := ChLog, p_state := SLEEPING\<rparr>]\<rparr>)"
    using assms by (simp add: sleep_Swt)
  with False assms show ?thesis
    by (auto simp: begin_op_def begin_op_loop_def mon_defs acquire_free)
qed

lemma end_op_last:
  assumes l: "log_ok s" and h: "held s = Map.empty" and lk: "lk_free Llog s" and c: "\<not> lg_committing (lg s)"
    and o: "lg_outstanding (lg s) = 1"
  shows "wp end_op (\<lambda>_ t. log_ok t \<and> lframe s t \<and> held t = Map.empty \<and> pin t = {} \<and> lh_n (lg_lh (lg t)) = 0 \<and> lg_outstanding (lg t) = 0 \<and>
    \<not> lg_committing (lg t) \<and> (\<forall>x < lg_start (lg s). disk t x = blk s x \<and> blk t x = blk s x)) s"
proof -
  note D = log_okD[OF l]
  have b: "lk_free Lptable s" "cli_ok s" using D(1) by (auto simp: bio_ok_def)
  let ?l = "(lg s)\<lparr>lg_outstanding := 0, lg_committing := True\<rparr>"
  let ?s = "(rel Llog (acq Llog s))\<lparr>lg := ?l\<rparr>"
  have qs: "lquiet s ?s" by (rule crit_log[OF lk b(2)])
  note ls = lquiet_log_ok[OF qs l] and bs = lquiet_bio[OF qs D(1)]
  let ?f = "\<lambda>l. l\<lparr>lg_committing := False\<rparr>"
  have "wp (thn commit (thn (acquire Llog) (thn (upd_lg ?f) (thn (wakeup ChLog) (release Llog)))))
    (\<lambda>_ t. log_ok t \<and> lframe s t \<and> held t = Map.empty \<and> pin t = {} \<and> lh_n (lg_lh (lg t)) = 0 \<and> lg_outstanding (lg t) = 0 \<and>
    \<not> lg_committing (lg t) \<and> (\<forall>x < lg_start (lg s). disk t x = blk s x \<and> blk t x = blk s x)) ?s"
  proof (rule wp_thnI[OF commit_done])
    fix t assume t: "log_ok t \<and> lframe ?s t \<and> held t = Map.empty \<and> pin t = {} \<and> lg t = (lg ?s)\<lparr>lg_lh := (lg_lh (lg ?s))\<lparr>lh_n := 0\<rparr>\<rparr> \<and>
      (\<forall>x < lg_start (lg ?s). disk t x = blk ?s x) \<and> blk t = disk t"
    have lt: "lk_free Llog t" "lk_free Lptable t" "cli_ok t" "lframe s t"
      using t qs lk b quiet_cli_ok[of s t] lframe_trans[of s ?s t] by (auto simp: lquiet_def lframe_def quiet_def)
    let ?u = "(rel Llog (rel Lptable (acq Lptable (acq Llog t))))\<lparr>lg := ?f (lg t), ptable := map (wakeup_proc ChLog) (ptable t)\<rparr>"
    note cw = crit_log_wake[OF lt(1-3)]
    have qu: "lquiet t ?u" by (rule cw(2))
    note bu = lquiet_bio[OF qu log_okD(1)]
    have lu: "log_ok ?u" by (rule lquiet_log_ok[OF qu]) (use t in simp_all)
    have "lframe s ?u" using lframe_trans[OF lt(4)] qu by (simp add: lquiet_def)
    with lu t bu bs show "wp (thn (acquire Llog) (thn (upd_lg ?f) (thn (wakeup ChLog) (release Llog))))
      (\<lambda>_ t. log_ok t \<and> lframe s t \<and> held t = Map.empty \<and> pin t = {} \<and> lh_n (lg_lh (lg t)) = 0 \<and> lg_outstanding (lg t) = 0 \<and>
      \<not> lg_committing (lg t) \<and> (\<forall>x < lg_start (lg s). disk t x = blk s x \<and> blk t x = blk s x)) t"
      unfolding wp_def cw(1) by simp
  qed (use ls bs h in simp_all)
  then show ?thesis using lk b c o
    by (simp add: end_op_def wp_Ret[OF acquire_free] wp_Ret[OF release_held] upd_lg_def)
qed

text \<open>
  C8. The last \<open>end_op\<close> commits: when one operation is in progress, \<open>end_op\<close> returns with no
  operation counted, the log empty, every block of the file system on the disk as it was in the cache,
  and the invariant of the log kept; with more than one it only takes the operation off the count.
\<close>

theorem end_op_commits:
  assumes "log_ok s" and "held s = Map.empty" and "lk_free Llog s" and "\<not> lg_committing (lg s)" and "1 \<le> lg_outstanding (lg s)"
  shows "\<exists>t. end_op s = Ret () t \<and> log_ok t \<and> lframe s t \<and> lg_outstanding (lg t) = lg_outstanding (lg s) - 1 \<and>
    (if lg_outstanding (lg s) = 1
     then lh_n (lg_lh (lg t)) = 0 \<and> (\<forall>x < lg_start (lg s). disk t x = blk s x \<and> blk t x = blk s x)
     else lg_lh (lg t) = lg_lh (lg s) \<and> blk t = blk s \<and> disk t = disk s)"
proof (cases "lg_outstanding (lg s) = 1")
  case True
  from wpDu[OF end_op_last[OF assms(1-4) True]] True show ?thesis by auto
next
  case False
  have b: "lk_free Lptable s" "cli_ok s" using log_okD(1)[OF assms(1)] by (auto simp: bio_ok_def)
  let ?f = "\<lambda>l. l\<lparr>lg_outstanding := lg_outstanding l - 1\<rparr>"
  let ?t = "(rel Llog (rel Lptable (acq Lptable (acq Llog s))))\<lparr>lg := ?f (lg s), ptable := map (wakeup_proc ChLog) (ptable s)\<rparr>"
  note cw = crit_log_wake[OF assms(3) b]
  have q: "lquiet s ?t" by (rule cw(2))
  have "0 \<le> ncli (the_cpu s)" using b(2) by (simp add: cli_ok_def)
  then have "end_op s = Ret () ?t"
    using assms(3-5) b False by (simp add: end_op_def mon_defs acquire_free release_held wakeup_Ret upd_lg_def)
  moreover have "log_ok ?t" by (rule lquiet_log_ok[OF q assms(1)]) simp_all
  ultimately show ?thesis using q False lquiet_bio[OF q log_okD(1)[OF assms(1)]] by (simp add: lquiet_def)
qed

section \<open>A transaction\<close>

lemma log_ok_cong:
  "log_ok s \<Longrightarrow> bio_ok t \<Longrightarrow> bframe s t \<Longrightarrow> pin t = pin s \<Longrightarrow> disk t = disk s \<Longrightarrow> log_ok t"
  for s t :: "'z logst_scheme"
  by (simp add: log_ok_def log_geom_def bframe_log lframe_def)

text \<open>The idiom of the file system: change a block in its buffer and enter it in the transaction.\<close>

definition logged :: "u32 \<Rightarrow> (u8 list \<Rightarrow> u8 list) \<Rightarrow> 'z logst_scheme \<Rightarrow> 'z logst_scheme \<Rightarrow> bool" where
  "logged sec f s t \<longleftrightarrow> log_ok t \<and> lframe s t \<and> held t = held s \<and> pin t = insert sec (pin s) \<and>
     blk t = (blk s)(sec := f (blk s sec)) \<and> disk t = disk s \<and> lg t = (lg s)\<lparr>lg_lh := log_enter sec (lg_lh (lg s))\<rparr>"

lemma log_start_size: "log_ok s \<Longrightarrow> sec < lg_start (lg s) \<Longrightarrow> sec < disksize s"
  using log_okD(2)[of s] by (auto simp: log_geom_def word_less_nat_alt)

lemma logged_held:
  assumes l: "log_ok s" and h: "held s sec = Some b" and sec: "sec < lg_start (lg s)"
    and o: "1 \<le> lg_outstanding (lg s)" "lh_n (lg_lh (lg s)) < lg_size (lg s) - 1" and f: "length (f (blk s sec)) = 512"
  shows "wp (thn (bstore b f) (log_write b)) (\<lambda>_. logged sec f s) s"
proof (rule wp_thnI[OF bc.store[OF log_okD(1)[OF l] h, of f, OF f]])
  fix t assume t: "bio_ok t \<and> bframe s t \<and> held t = held s \<and> pin t = pin s \<and> blk t = (blk s)(sec := f (blk s sec)) \<and> disk t = disk s \<and> wlog t = wlog s"
  then have lt: "log_ok t" "lg t = lg s" "lframe s t" using log_ok_cong[OF l] by (auto simp: bframe_log)
  show "wp (log_write b) (\<lambda>_. logged sec f s) t"
    by (rule wp_mono[OF log_write_ok[OF lt(1)]])
      (use t h sec o lt lframe_trans[OF lt(3)] in \<open>auto simp: logged_def\<close>)
qed

lemma logged_update:
  assumes l: "log_ok s" and h: "held s sec = None" and sec: "sec < lg_start (lg s)"
    and o: "1 \<le> lg_outstanding (lg s)" "lh_n (lg_lh (lg s)) < lg_size (lg s) - 1" and f: "length (f (blk s sec)) = 512"
    and room: "sec \<in> pin s \<or> card (dom (held s) \<union> pin s) < NBUF"
  shows "wp (bnd (bread 1 sec) (\<lambda>b. thn (bstore b f) (thn (log_write b) (brelse b)))) (\<lambda>_. logged sec f s) s"
proof (rule wp_bndI[OF bc.rd[OF log_okD(1)[OF l] log_start_size[OF l sec] h room]])
  fix b t assume t: "bio_ok t \<and> bframe s t \<and> held t = (held s)(sec \<mapsto> b) \<and> pin t = pin s \<and> blk t = blk s \<and> disk t = disk s \<and> wlog t = wlog s"
  then have lt: "log_ok t" "lg t = lg s" "lframe s t" using log_ok_cong[OF l] by (auto simp: bframe_log)
  have "wp (thn (bstore b f) (log_write b)) (\<lambda>_. logged sec f t) t"
    by (rule logged_held) (use lt t sec o f in simp_all)
  then have "wp (thn (bstore b f) (log_write b)) (\<lambda>_. wp (brelse b) (\<lambda>_. logged sec f s)) t"
  proof (rule wp_mono)
    fix u assume u: "logged sec f t u"
    have up: "((held s)(sec \<mapsto> b))(sec := None) = held s" using h by auto
    show "wp (brelse b) (\<lambda>_. logged sec f s) u"
    proof (rule wp_mono[OF bc.rls[of u sec]])
      fix v assume v: "bio_ok v \<and> bframe u v \<and> held v = (held u)(sec := None) \<and> pin v = pin u \<and> blk v = blk u \<and> disk v = disk u \<and> wlog v = wlog u"
      have "log_ok v" using u v log_ok_cong[of u v] by (simp add: logged_def)
      moreover have "lframe s v" using lframe_trans[OF lt(3) lframe_trans[of t u v]] u v by (simp add: logged_def bframe_log)
      ultimately show "logged sec f s v" using u v t lt up by (simp add: logged_def bframe_log)
    qed (use u t log_okD(1)[of u] in \<open>auto simp: logged_def\<close>)
  qed
  then show "wp (thn (bstore b f) (thn (log_write b) (brelse b))) (\<lambda>_. logged sec f s) t" by simp
qed


text \<open>A log of ten blocks from block 5 on, and the state in which block 3 is in the transaction.\<close>

definition logst_ex :: logst where
  "logst_ex = biost.extend biost_up (logst.fields
     \<lparr>lg_start = 5, lg_size = 10, lg_outstanding = 1, lg_committing = False, lg_dev = 1,
      lg_lh = \<lparr>lh_n = 0, lh_sector = replicate 30 0\<rparr>\<rparr>)"

definition logst_txn :: logst where
  "logst_txn = (case bnd (bread 1 3) (\<lambda>b. thn (bstore b (\<lambda>_. replicate 512 7)) (thn (log_write b) (brelse b))) logst_ex of
     Ret _ t \<Rightarrow> t | _ \<Rightarrow> logst_ex)"

lemma logst_ex_simps [simp]:
  "lg logst_ex = \<lparr>lg_start = 5, lg_size = 10, lg_outstanding = 1, lg_committing = False, lg_dev = 1,
      lg_lh = \<lparr>lh_n = 0, lh_sector = replicate 30 0\<rparr>\<rparr>"
  "blk logst_ex = blk biost_up" "held logst_ex = held biost_up" "pin logst_ex = pin biost_up" "bio_ok logst_ex = bio_ok biost_up"
  "disk logst_ex = disk biost_up" "disksize logst_ex = disksize biost_up" "lk_free l logst_ex = lk_free l biost_up"
  "the_cpu logst_ex = the_cpu biost_up" "cli_ok logst_ex = cli_ok biost_up" "ptable logst_ex = ptable biost_up"
  by (simp_all add: logst_ex_def biost.defs logst.defs blk_def held_def pin_def bio_ok_def lk_defs)

lemma logst_ex_ok: "log_ok logst_ex"
proof -
  have "word_at (replicate 512 0) 0 = 0" by (simp add: word_at_def bytes_at_def of_le32_def)
  then show ?thesis using biost_up_ok by (simp add: log_ok_def log_geom_def disk_ex_def)
qed

lemma logst_txn_ok: "log_ok logst_txn" "held logst_txn = Map.empty" "lh_n (lg_lh (lg logst_txn)) = 1" "blk logst_txn 3 = replicate 512 7"
  "lg_start (lg logst_txn) = 5" "lg_outstanding (lg logst_txn) = 1" "\<not> lg_committing (lg logst_txn)" "\<And>l. lk_free l logst_txn = lk_free l logst_ex"
  "disk logst_txn 3 = replicate 512 3"
proof -
  let ?Q = "\<lambda>_ t. log_ok t \<and> held t = Map.empty \<and> lh_n (lg_lh (lg t)) = 1 \<and> blk t 3 = replicate 512 7 \<and>
    lg_start (lg t) = 5 \<and> lg_outstanding (lg t) = 1 \<and> \<not> lg_committing (lg t) \<and> (\<forall>l. lk_free l t = lk_free l logst_ex) \<and> disk t 3 = replicate 512 3"
  have "wp (bnd (bread 1 3) (\<lambda>b. thn (bstore b (\<lambda>_. replicate 512 7)) (thn (log_write b) (brelse b)))) ?Q logst_ex"
  proof (rule wp_mono[OF logged_update[OF logst_ex_ok]])
    fix t assume t: "logged 3 (\<lambda>_. replicate 512 7) logst_ex t"
    then have "lh_n (log_enter 3 (lg_lh (lg logst_ex))) = 1" using log_enter_cases(2)[of "lg_lh (lg logst_ex)" 3] by simp
    with t show "?Q () t" using biost_up_ok by (auto simp: logged_def lframe_def quiet_def disk_ex_def)
  qed (use biost_up_ok in simp_all)
  from wpDu[OF this] obtain t where t: "bnd (bread 1 3) (\<lambda>b. thn (bstore b (\<lambda>_. replicate 512 7)) (thn (log_write b) (brelse b))) logst_ex =
    Ret () t" and Q: "?Q () t" by (elim exE conjE) simp
  have "logst_txn = t" by (simp add: logst_txn_def t)
  with Q show "log_ok logst_txn" "held logst_txn = Map.empty" "lh_n (lg_lh (lg logst_txn)) = 1" "blk logst_txn 3 = replicate 512 7"
    "lg_start (lg logst_txn) = 5" "lg_outstanding (lg logst_txn) = 1" "\<not> lg_committing (lg logst_txn)" "\<And>l. lk_free l logst_txn = lk_free l logst_ex"
    "disk logst_txn 3 = replicate 512 3"
    by simp_all
qed

theorem commit_crash_atomic_witness:
  "log_ok logst_txn \<and> (\<exists>t ws. commit logst_txn = Ret () t \<and> wlog t = wlog logst_txn @ ws \<and> disk t 3 = replicate 512 7)"
proof -
  obtain t ws where "commit logst_txn = Ret () t" "wlog t = wlog logst_txn @ ws" "\<forall>x < 5. disk t x = blk logst_txn x"
    using commit_crash_atomic[OF logst_txn_ok(1,2)] logst_txn_ok by auto
  then show ?thesis using logst_txn_ok(1,4) by auto
qed

lemma logst_ex_held:
  "\<exists>b t. bread 1 3 logst_ex = Ret b t \<and> log_ok t \<and> held t 3 = Some b \<and> lg t = lg logst_ex \<and> pin t = {}"
proof -
  have "wp (bread 1 3) (\<lambda>b t. log_ok t \<and> held t 3 = Some b \<and> lg t = lg logst_ex \<and> pin t = {}) logst_ex"
    by (rule wp_mono[OF bc.rd]) (use biost_up_ok log_ok_cong[OF logst_ex_ok] in \<open>auto simp: bframe_log\<close>)
  from wpD[OF this] show ?thesis .
qed

theorem log_write_absorbs_witness:
  "\<exists>b s t. bread 1 3 logst_ex = Ret b s \<and> log_ok s \<and> log_write b s = Ret () t \<and> log_ok t \<and> pin t = {3}"
proof -
  obtain b s where s: "bread 1 3 logst_ex = Ret b s" "log_ok s" "held s 3 = Some b" "lg s = lg logst_ex" "pin s = {}"
    using logst_ex_held by blast
  then show ?thesis using log_write_absorbs[OF s(2,3)] by auto
qed

theorem begin_op_reserves_witness:
  "lk_free Llog logst_ex \<and> (\<exists>t. begin_op logst_ex = Ret () t \<and> lg_outstanding (lg t) = 2)"
  using begin_op_reserves[of logst_ex 1] biost_up_proc procst_ex_fields by (auto simp: split: if_splits)

theorem end_op_commits_witness:
  "log_ok logst_txn \<and> (\<exists>t. end_op logst_txn = Ret () t \<and> log_ok t \<and> lg_outstanding (lg t) = 0 \<and> disk t 3 = replicate 512 7)"
proof -
  have lk: "lk_free Llog logst_txn" using logst_txn_ok(8) biost_up_proc(1) by simp
  have x: "(3 :: u32) < 5" by simp
  from end_op_commits[OF logst_txn_ok(1,2) lk logst_txn_ok(7)] logst_txn_ok(4-6) x obtain t where
    "end_op logst_txn = Ret () t" "log_ok t" "lg_outstanding (lg t) = 0" "disk t 3 = replicate 512 7" by auto
  then show ?thesis using logst_txn_ok(1) by blast
qed

end
