(* ===== verification/Fs.thy ===== *)
theory Fs
  imports Logtx Strings
begin

text \<open>
  The lower layers of \<^verbatim>\<open>fs.c\<close>: the bitmap of free blocks, the inodes on the disk and in the inode
  cache, and the map from the blocks of a file to the blocks of the disk. A pointer to an inode is
  its index in \<open>icache.inode\<close>.
\<close>

section \<open>State\<close>

abbreviation (input) ROOTINO :: u32 where "ROOTINO \<equiv> 1"
abbreviation (input) BSIZE :: u32 where "BSIZE \<equiv> 512"
abbreviation (input) NDIRECT :: nat where "NDIRECT \<equiv> 12"
abbreviation (input) NINDIRECT :: nat where "NINDIRECT \<equiv> 128"
abbreviation (input) MAXFILE :: nat where "MAXFILE \<equiv> 140"
abbreviation (input) IPB :: nat where "IPB \<equiv> 8"
abbreviation (input) BPB :: nat where "BPB \<equiv> 4096"
abbreviation (input) DIRSIZ :: nat where "DIRSIZ \<equiv> 14"
abbreviation (input) T_DIR :: u16 where "T_DIR \<equiv> 1"
abbreviation (input) T_FILE :: u16 where "T_FILE \<equiv> 2"
abbreviation (input) T_DEV :: u16 where "T_DEV \<equiv> 3"

definition IBLOCK :: "u32 \<Rightarrow> u32" where
  "IBLOCK i = i div of_nat IPB + 2"

definition BBLOCK :: "u32 \<Rightarrow> u32 \<Rightarrow> u32" where
  "BBLOCK b ninodes = b div of_nat BPB + ninodes div of_nat IPB + 3"

text \<open>An inode as it is on the disk, and its 64 bytes there. A \<open>short\<close> is kept as its 16 bits.\<close>

record dinode =
  d_type :: u16
  d_major :: u16
  d_minor :: u16
  d_nlink :: u16
  d_size :: u32
  d_addrs :: "u32 list"

definition enc_dinode :: "dinode \<Rightarrow> u8 list" where
  "enc_dinode di = le16 (d_type di) @ le16 (d_major di) @ le16 (d_minor di) @ le16 (d_nlink di) @ le32 (d_size di) @
     concat (map le32 (d_addrs di))"

definition dec_dinode :: "u8 list \<Rightarrow> dinode" where
  "dec_dinode x =
     \<lparr>d_type = of_le16 (bytes_at 0 2 x), d_major = of_le16 (bytes_at 2 2 x), d_minor = of_le16 (bytes_at 4 2 x),
      d_nlink = of_le16 (bytes_at 6 2 x), d_size = of_le32 (bytes_at 8 4 x),
      d_addrs = map (\<lambda>i. of_le32 (bytes_at (12 + 4 * i) 4 x)) [0..<NDIRECT + 1]\<rparr>"

text \<open>The inode cache. The flags \<open>I_BUSY\<close> and \<open>I_VALID\<close> are two booleans.\<close>

record inode =
  i_dev :: u32
  i_inum :: u32
  i_ref :: int
  i_busy :: bool
  i_valid :: bool
  i_type :: u16
  i_major :: u16
  i_minor :: u16
  i_nlink :: u16
  i_size :: u32
  i_addrs :: "u32 list"

record fsst = logst +
  icache :: "inode list"

definition geti :: "nat \<Rightarrow> (inode, 'z fsst_scheme) kmon" where
  "geti ip s = (if ip < length (icache s) then Ret (icache s ! ip) s else Ub)"

definition updi :: "nat \<Rightarrow> (inode \<Rightarrow> inode) \<Rightarrow> (unit, 'z fsst_scheme) kmon" where
  "updi ip f s = (if ip < length (icache s)
     then Ret () (s\<lparr>icache := (icache s)[ip := f (icache s ! ip)]\<rparr>) else Ub)"

section \<open>Blocks\<close>

definition bzero :: "u32 \<Rightarrow> u32 \<Rightarrow> (unit, 'z logst_scheme) kmon" where
  "bzero dev bno =
     bnd (bread dev bno) (\<lambda>bp.
     thn (bstore bp (\<lambda>_. replicate 512 0))
     (thn (log_write bp)
     (brelse bp)))"

text \<open>The test and the change of a bit of the bitmap: \<open>m = 1 << (bi % 8)\<close>.\<close>

definition bit_clear :: "u8 list \<Rightarrow> nat \<Rightarrow> bool" where
  "bit_clear d bi \<longleftrightarrow> d ! (bi div 8) AND push_bit (bi mod 8) 1 = 0"

definition mark_bit :: "nat \<Rightarrow> u8 list \<Rightarrow> u8 list" where
  "mark_bit bi d = d[bi div 8 := d ! (bi div 8) OR push_bit (bi mod 8) 1]"

definition unmark_bit :: "nat \<Rightarrow> u8 list \<Rightarrow> u8 list" where
  "unmark_bit bi d = d[bi div 8 := d ! (bi div 8) AND NOT (push_bit (bi mod 8) 1)]"

text \<open>
  \<open>balloc\<close> goes through the bitmap block by block: the list is that of the values of \<open>b\<close> in the
  outer loop, and the inner loop stops at the first clear bit below \<open>sb.size\<close>.
\<close>

fun balloc_loop :: "u32 \<Rightarrow> superblock \<Rightarrow> u32 list \<Rightarrow> (u32, 'z logst_scheme) kmon" where
  "balloc_loop dev sb [] = panic ''balloc: out of blocks''"
| "balloc_loop dev sb (b # bs) =
     bnd (bread dev (BBLOCK b (sb_ninodes sb))) (\<lambda>bp.
     bnd (bdata bp) (\<lambda>d.
       case find (\<lambda>bi. b + of_nat bi < sb_size sb \<and> bit_clear d bi) [0..<BPB] of
         Some bi \<Rightarrow>
           thn (bstore bp (mark_bit bi))
           (thn (log_write bp)
           (thn (brelse bp)
           (thn (bzero dev (b + of_nat bi))
           (ret (b + of_nat bi)))))
       | None \<Rightarrow> thn (brelse bp) (balloc_loop dev sb bs)))"

definition balloc :: "u32 \<Rightarrow> (u32, 'z logst_scheme) kmon" where
  "balloc dev =
     bnd (readsb dev) (\<lambda>sb.
     balloc_loop dev sb (map (\<lambda>i. of_nat (BPB * i)) [0..<(unat (sb_size sb) + BPB - 1) div BPB]))"

definition bfree :: "u32 \<Rightarrow> u32 \<Rightarrow> (unit, 'z logst_scheme) kmon" where
  "bfree dev b =
     bnd (readsb dev) (\<lambda>sb.
     bnd (bread dev (BBLOCK b (sb_ninodes sb))) (\<lambda>bp.
     bnd (bdata bp) (\<lambda>d.
     let bi = unat b mod BPB in
       if bit_clear d bi then panic ''freeing free block''
       else
         thn (bstore bp (unmark_bit bi))
         (thn (log_write bp)
         (brelse bp)))))"

section \<open>Inodes\<close>

definition iinit :: "(unit, 'z fsst_scheme) kmon" where
  "iinit = modify (upd_lock Licache (initlock (LkStr ''icache'')))"

text \<open>The inode in a block of inodes, and the block with another inode there.\<close>

definition dinode_at :: "u8 list \<Rightarrow> u32 \<Rightarrow> dinode" where
  "dinode_at d inum = dec_dinode (bytes_at (64 * (unat inum mod IPB)) 64 d)"

definition put_dinode :: "u32 \<Rightarrow> dinode \<Rightarrow> u8 list \<Rightarrow> u8 list" where
  "put_dinode inum di d = put_at (64 * (unat inum mod IPB)) (enc_dinode di) d"

definition iget :: "u32 \<Rightarrow> u32 \<Rightarrow> (nat, 'z fsst_scheme) kmon" where
  "iget dev inum =
     thn (acquire Licache)
     (bnd (gets icache) (\<lambda>c.
       case find_idx (\<lambda>x. 0 < i_ref x \<and> i_dev x = dev \<and> i_inum x = inum) c of
         Some ip \<Rightarrow>
           thn (updi ip (\<lambda>x. x\<lparr>i_ref := i_ref x + 1\<rparr>))
           (thn (release Licache)
           (ret ip))
       | None \<Rightarrow>
           (case find_idx (\<lambda>x. i_ref x = 0) c of
              None \<Rightarrow> panic ''iget: no inodes''
            | Some ip \<Rightarrow>
                thn (updi ip (\<lambda>x. x\<lparr>i_dev := dev, i_inum := inum, i_ref := 1, i_busy := False, i_valid := False\<rparr>))
                (thn (release Licache)
                (ret ip)))))"

text \<open>\<open>ialloc\<close> tries the inode numbers from 1 on.\<close>

fun ialloc_loop :: "u32 \<Rightarrow> u16 \<Rightarrow> nat list \<Rightarrow> (nat, 'z fsst_scheme) kmon" where
  "ialloc_loop dev ty [] = panic ''ialloc: no inodes''"
| "ialloc_loop dev ty (inum # is) =
     bnd (bread dev (IBLOCK (of_nat inum))) (\<lambda>bp.
     bnd (bdata bp) (\<lambda>d.
       if d_type (dinode_at d (of_nat inum)) = 0
       then
         thn (bstore bp (put_dinode (of_nat inum)
                \<lparr>d_type = ty, d_major = 0, d_minor = 0, d_nlink = 0, d_size = 0, d_addrs = replicate (NDIRECT + 1) 0\<rparr>))
         (thn (log_write bp)
         (thn (brelse bp)
         (iget dev (of_nat inum))))
       else thn (brelse bp) (ialloc_loop dev ty is)))"

definition ialloc :: "u32 \<Rightarrow> u16 \<Rightarrow> (nat, 'z fsst_scheme) kmon" where
  "ialloc dev ty = bnd (readsb dev) (\<lambda>sb. ialloc_loop dev ty [1..<unat (sb_ninodes sb)])"

definition dinode_of :: "inode \<Rightarrow> dinode" where
  "dinode_of x = \<lparr>d_type = i_type x, d_major = i_major x, d_minor = i_minor x, d_nlink = i_nlink x, d_size = i_size x,
     d_addrs = i_addrs x\<rparr>"

definition iupdate :: "nat \<Rightarrow> (unit, 'z fsst_scheme) kmon" where
  "iupdate ip =
     bnd (geti ip) (\<lambda>x.
     bnd (bread (i_dev x) (IBLOCK (i_inum x))) (\<lambda>bp.
     thn (bstore bp (put_dinode (i_inum x) (dinode_of x)))
     (thn (log_write bp)
     (brelse bp))))"

definition idup :: "nat \<Rightarrow> (nat, 'z fsst_scheme) kmon" where
  "idup ip =
     thn (acquire Licache)
     (thn (updi ip (\<lambda>x. x\<lparr>i_ref := i_ref x + 1\<rparr>))
     (thn (release Licache)
     (ret ip)))"

text \<open>
  \<open>ilock\<close> sleeps while the inode is busy; \<open>ilock_loop\<close> is its body from the test of \<open>I_BUSY\<close> on,
  and \<open>ilock_return\<close> the next turn after the sleep.
\<close>

definition iload :: "nat \<Rightarrow> (unit, 'z fsst_scheme) kmon" where
  "iload ip =
     bnd (geti ip) (\<lambda>x.
     bnd (bread (i_dev x) (IBLOCK (i_inum x))) (\<lambda>bp.
     bnd (bdata bp) (\<lambda>d.
     let di = dinode_at d (i_inum x) in
     thn (updi ip (\<lambda>x. x\<lparr>i_type := d_type di, i_major := d_major di, i_minor := d_minor di, i_nlink := d_nlink di,
            i_size := d_size di, i_addrs := d_addrs di\<rparr>))
     (thn (brelse bp)
     (thn (updi ip (\<lambda>x. x\<lparr>i_valid := True\<rparr>))
     (if d_type di = 0 then panic ''ilock: no type'' else skip))))))"

definition ilock_loop :: "nat \<Rightarrow> (unit, 'z fsst_scheme) kmon" where
  "ilock_loop ip =
     bnd (geti ip) (\<lambda>x.
       if i_busy x then sleep (ChInode ip) (Some Licache)
       else
         thn (updi ip (\<lambda>x. x\<lparr>i_busy := True\<rparr>))
         (thn (release Licache)
         (bnd (geti ip) (\<lambda>x. if \<not> i_valid x then iload ip else skip))))"

definition ilock :: "nat \<Rightarrow> (unit, 'z fsst_scheme) kmon" where
  "ilock ip =
     bnd (geti ip) (\<lambda>x.
       if i_ref x < 1 then panic ''ilock''
       else thn (acquire Licache) (ilock_loop ip))"

definition ilock_return :: "bool \<Rightarrow> nat \<Rightarrow> (unit, 'z fsst_scheme) kmon" where
  "ilock_return ie ip = thn (sleep_return ie Licache) (ilock_loop ip)"

definition iunlock :: "nat \<Rightarrow> (unit, 'z fsst_scheme) kmon" where
  "iunlock ip =
     bnd (geti ip) (\<lambda>x.
       if \<not> i_busy x \<or> i_ref x < 1 then panic ''iunlock''
       else
         thn (acquire Licache)
         (thn (updi ip (\<lambda>x. x\<lparr>i_busy := False\<rparr>))
         (thn (wakeup (ChInode ip))
         (release Licache))))"

section \<open>The blocks of a file\<close>

definition set_addr :: "nat \<Rightarrow> nat \<Rightarrow> u32 \<Rightarrow> (unit, 'z fsst_scheme) kmon" where
  "set_addr ip i a = updi ip (\<lambda>x. x\<lparr>i_addrs := (i_addrs x)[i := a]\<rparr>)"

text \<open>The block at \<open>ip->addrs[i]\<close>, allocated when there is none.\<close>

definition addr_at :: "nat \<Rightarrow> nat \<Rightarrow> (u32, 'z fsst_scheme) kmon" where
  "addr_at ip i =
     bnd (geti ip) (\<lambda>x.
       if i_addrs x ! i = 0
       then bnd (balloc (i_dev x)) (\<lambda>a. thn (set_addr ip i a) (ret a))
       else ret (i_addrs x ! i))"

definition bmap :: "nat \<Rightarrow> u32 \<Rightarrow> (u32, 'z fsst_scheme) kmon" where
  "bmap ip bn =
     (if bn < of_nat NDIRECT then addr_at ip (unat bn)
      else
        let bn = bn - of_nat NDIRECT in
        if bn < of_nat NINDIRECT
        then
          bnd (addr_at ip NDIRECT) (\<lambda>addr.
          bnd (geti ip) (\<lambda>x.
          bnd (bread (i_dev x) addr) (\<lambda>bp.
          bnd (bdata bp) (\<lambda>d.
          bnd (if word_at d (unat bn) = 0
               then
                 bnd (balloc (i_dev x)) (\<lambda>a.
                 thn (bstore bp (set_word (unat bn) a))
                 (thn (log_write bp)
                 (ret a)))
               else ret (word_at d (unat bn))) (\<lambda>a.
          thn (brelse bp)
          (ret a))))))
        else panic ''bmap: out of range'')"

definition itrunc :: "nat \<Rightarrow> (unit, 'z fsst_scheme) kmon" where
  "itrunc ip =
     thn (forM [0..<NDIRECT] (\<lambda>i.
        bnd (geti ip) (\<lambda>x.
          if i_addrs x ! i \<noteq> 0 then thn (bfree (i_dev x) (i_addrs x ! i)) (set_addr ip i 0) else skip)))
     (thn (bnd (geti ip) (\<lambda>x.
        if i_addrs x ! NDIRECT \<noteq> 0
        then
          bnd (bread (i_dev x) (i_addrs x ! NDIRECT)) (\<lambda>bp.
          thn (forM [0..<NINDIRECT] (\<lambda>j.
             bnd (bdata bp) (\<lambda>d. if word_at d j \<noteq> 0 then bfree (i_dev x) (word_at d j) else skip)))
          (thn (brelse bp)
          (thn (bfree (i_dev x) (i_addrs x ! NDIRECT))
          (set_addr ip NDIRECT 0))))
        else skip))
     (thn (updi ip (\<lambda>x. x\<lparr>i_size := 0\<rparr>))
     (iupdate ip)))"

definition iput :: "nat \<Rightarrow> (unit, 'z fsst_scheme) kmon" where
  "iput ip =
     thn (acquire Licache)
     (thn (bnd (geti ip) (\<lambda>x.
        if i_ref x = 1 \<and> i_valid x \<and> i_nlink x = 0
        then
          if i_busy x then panic ''iput busy''
          else
            thn (updi ip (\<lambda>x. x\<lparr>i_busy := True\<rparr>))
            (thn (release Licache)
            (thn (itrunc ip)
            (thn (updi ip (\<lambda>x. x\<lparr>i_type := 0\<rparr>))
            (thn (iupdate ip)
            (thn (acquire Licache)
            (thn (updi ip (\<lambda>x. x\<lparr>i_busy := False, i_valid := False\<rparr>))
            (wakeup (ChInode ip))))))))
        else skip))
     (thn (updi ip (\<lambda>x. x\<lparr>i_ref := i_ref x - 1\<rparr>))
     (release Licache)))"

definition iunlockput :: "nat \<Rightarrow> (unit, 'z fsst_scheme) kmon" where
  "iunlockput ip = thn (iunlock ip) (iput ip)"

record stat =
  st_type :: u16
  st_dev :: u32
  st_ino :: u32
  st_nlink :: u16
  st_size :: u32

definition stati :: "nat \<Rightarrow> (stat, 'z fsst_scheme) kmon" where
  "stati ip = bnd (geti ip) (\<lambda>x.
     ret \<lparr>st_type = i_type x, st_dev = i_dev x, st_ino = i_inum x, st_nlink = i_nlink x, st_size = i_size x\<rparr>)"

end
