(* ===== verification/Console.thy ===== *)
theory Console
  imports Fs
begin

text \<open>
  The console of \<^verbatim>\<open>console.c\<close>: the screen and the serial line it writes to, the line editor behind
  the keyboard interrupt, and the console as a device file. The hardware is the screen memory with its
  cursor register and the sequence of the bytes sent to the serial port.
\<close>

section \<open>State\<close>

text \<open>The device switch: the only functions ever stored in it are those of the console.\<close>

datatype devfn = Consoleread | Consolewrite

record devsw =
  dev_read :: "devfn option"
  dev_write :: "devfn option"

record consst = fsst +
  cons_locking :: bool
  panicked :: bool
  uart :: bool
  serial :: "u8 list"
  cga_pos :: nat
  crt :: "nat \<Rightarrow> u16"
  in_buf :: "u8 list"
  in_r :: u32
  in_w :: u32
  in_e :: u32
  devtab :: "devsw list"

abbreviation (input) INPUT_BUF :: nat where "INPUT_BUF \<equiv> 128"
abbreviation (input) BACKSPACE :: int where "BACKSPACE \<equiv> 256"

section \<open>Output\<close>

definition uartputc :: "int \<Rightarrow> (unit, 'z consst_scheme) kmon" where
  "uartputc c = bnd (gets uart) (\<lambda>u. if \<not> u then skip else modify (\<lambda>s. s\<lparr>serial := serial s @ [of_int c]\<rparr>))"

text \<open>
  \<open>cgaputc\<close> reads the cursor from the controller, writes the cell or moves the cursor, scrolls when
  the last line is reached, and stores the cursor back.
\<close>

definition cga_write :: "int \<Rightarrow> nat \<times> (nat \<Rightarrow> u16) \<Rightarrow> nat \<times> (nat \<Rightarrow> u16)" where
  "cga_write c pm =
     (let (pos, m) = pm in
      if c = 10 then (pos + (80 - pos mod 80), m)
      else if c = BACKSPACE then (pos - 1, m)
      else (pos + 1, m(pos := of_int c AND 0xff OR 0x0700)))"

definition cga_scroll :: "nat \<times> (nat \<Rightarrow> u16) \<Rightarrow> nat \<times> (nat \<Rightarrow> u16)" where
  "cga_scroll pm =
     (let (pos, m) = pm in
      if pos div 80 \<ge> 24
      then (pos - 80, \<lambda>i. if pos - 80 \<le> i \<and> i < 24 * 80 then 0 else if i < 23 * 80 then m (i + 80) else m i)
      else (pos, m))"

definition cgaputc :: "int \<Rightarrow> (unit, 'z consst_scheme) kmon" where
  "cgaputc c = modify (\<lambda>s.
     let (pos, m) = cga_scroll (cga_write c (cga_pos s, crt s)) in s\<lparr>cga_pos := pos, crt := m(pos := 0x0720)\<rparr>)"

definition consputc :: "int \<Rightarrow> (unit, 'z consst_scheme) kmon" where
  "consputc c =
     bnd (gets panicked) (\<lambda>p.
       if p then (\<lambda>s. Spn)
       else
         thn (if c = BACKSPACE then thn (uartputc 8) (thn (uartputc 32) (uartputc 8)) else uartputc c)
         (cgaputc c))"

section \<open>Formatted output\<close>

text \<open>
  The digits that \<open>printint\<close> puts in \<open>buf\<close>, the last digit first; \<open>None\<close> when they overrun its 16
  bytes, which \<open>printint\<close> itself does not check.
\<close>

definition digit :: "nat \<Rightarrow> u8" where
  "digit d = (if d < 10 then 48 + of_nat d else 87 + of_nat d)"

fun printint_loop :: "nat \<Rightarrow> nat \<Rightarrow> nat \<Rightarrow> u8 list option" where
  "printint_loop 0 b x = None"
| "printint_loop (Suc room) b x =
     (if x div b = 0 then Some [digit (x mod b)]
      else map_option (\<lambda>ds. digit (x mod b) # ds) (printint_loop room b (x div b)))"

definition printint_chars :: "u32 \<Rightarrow> nat \<Rightarrow> bool \<Rightarrow> u8 list option" where
  "printint_chars xx b sign =
     (let neg = sign \<and> sint xx < 0;
          x = if neg then - xx else xx
      in case printint_loop 16 b (unat x) of
           None \<Rightarrow> None
         | Some buf \<Rightarrow> if neg then (if length buf < 16 then Some (rev (buf @ [45])) else None) else Some (rev buf))"

text \<open>An argument of \<open>cprintf\<close> is a word or a string, where \<open>None\<close> is the null pointer.\<close>

datatype carg = CInt u32 | CStr "u8 list option"

definition null_str :: "u8 list" where
  "null_str = [40, 110, 117, 108, 108, 41]"

fun cprintf_chars :: "u8 list \<Rightarrow> carg list \<Rightarrow> u8 list option" where
  "cprintf_chars [] args = Some []"
| "cprintf_chars (c # fmt) args =
     (if c \<noteq> 37 then map_option (\<lambda>cs. c # cs) (cprintf_chars fmt args)
      else case fmt of
        [] \<Rightarrow> Some []
      | k # fmt' \<Rightarrow>
          if k = 100 then
            (case args of CInt x # args' \<Rightarrow>
               (case (printint_chars x 10 True, cprintf_chars fmt' args') of
                  (Some a, Some b) \<Rightarrow> Some (a @ b) | _ \<Rightarrow> None) | _ \<Rightarrow> None)
          else if k = 120 \<or> k = 112 then
            (case args of CInt x # args' \<Rightarrow>
               (case (printint_chars x 16 False, cprintf_chars fmt' args') of
                  (Some a, Some b) \<Rightarrow> Some (a @ b) | _ \<Rightarrow> None) | _ \<Rightarrow> None)
          else if k = 115 then
            (case args of CStr x # args' \<Rightarrow>
               map_option (\<lambda>b. (case x of None \<Rightarrow> null_str | Some str \<Rightarrow> str) @ b) (cprintf_chars fmt' args') | _ \<Rightarrow> None)
          else if k = 37 then map_option (\<lambda>b. 37 # b) (cprintf_chars fmt' args)
          else map_option (\<lambda>b. 37 # k # b) (cprintf_chars fmt' args))"

definition cprintf :: "u8 list \<Rightarrow> carg list \<Rightarrow> (unit, 'z consst_scheme) kmon" where
  "cprintf fmt args =
     bnd (gets cons_locking) (\<lambda>locking.
     thn (if locking then acquire Lcons else skip)
     (thn (case cprintf_chars fmt args of None \<Rightarrow> undefd | Some cs \<Rightarrow> forM cs (\<lambda>c. consputc (uint c)))
     (if locking then release Lcons else skip)))"

text \<open>The process listing of \<open>procdump\<close>, which \<open>^P\<close> prints.\<close>

definition state_name :: "procstate \<Rightarrow> u8 list" where
  "state_name st = map (\<lambda>c. of_nat (of_char c)) (case st of
     UNUSED \<Rightarrow> ''unused'' | EMBRYO \<Rightarrow> ''embryo'' | SLEEPING \<Rightarrow> ''sleep '' | RUNNABLE \<Rightarrow> ''runble''
   | RUNNING \<Rightarrow> ''run   '' | ZOMBIE \<Rightarrow> ''zombie'')"

definition cstr :: "u8 list \<Rightarrow> u8 list" where
  "cstr xs = takeWhile (\<lambda>c. c \<noteq> 0) xs"

definition str8 :: "string \<Rightarrow> u8 list" where
  "str8 cs = map (\<lambda>c. of_nat (of_char c)) cs"

definition procdump :: "(unit, 'z consst_scheme) kmon" where
  "procdump =
     bnd (gets (\<lambda>s. length (ptable s))) (\<lambda>n.
     forM [0..<n] (\<lambda>i.
       bnd (getp i) (\<lambda>p.
         if p_state p = UNUSED then skip
         else
           thn (cprintf (str8 ''%d %s %s'') [CInt (of_int (p_pid p)), CStr (Some (state_name (p_state p))), CStr (Some (cstr (p_name p)))])
           (thn (if p_state p = SLEEPING
                 then bnd (gets stkmem) (\<lambda>m.
                        forM (takeWhile (\<lambda>pc. pc \<noteq> 0) (getcallerpcs m (c_ebp (p_context p) + 8)))
                          (\<lambda>pc. cprintf (str8 '' %p'') [CInt pc]))
                 else skip)
           (cprintf [10] [])))))"

section \<open>Input\<close>

text \<open>\<open>^U\<close>: erase back to the start of the line. At most \<open>INPUT_BUF\<close> characters are uncommitted.\<close>

fun kill_line :: "nat \<Rightarrow> (unit, 'z consst_scheme) kmon" where
  "kill_line 0 = (\<lambda>s. Spn)"
| "kill_line (Suc fuel) =
     bnd (gets (\<lambda>s. in_e s \<noteq> in_w s \<and> in_buf s ! unat ((in_e s - 1) mod of_nat INPUT_BUF) \<noteq> 10)) (\<lambda>go.
       if go
       then thn (modify (\<lambda>s. s\<lparr>in_e := in_e s - 1\<rparr>))
            (thn (consputc BACKSPACE)
            (kill_line fuel))
       else skip)"

definition console_char :: "int \<Rightarrow> (unit, 'z consst_scheme) kmon" where
  "console_char c =
     (if c = 16 then procdump
      else if c = 21 then kill_line (Suc INPUT_BUF)
      else if c = 8 \<or> c = 127 then
        bnd (gets (\<lambda>s. in_e s \<noteq> in_w s)) (\<lambda>some.
          if some then thn (modify (\<lambda>s. s\<lparr>in_e := in_e s - 1\<rparr>)) (consputc BACKSPACE) else skip)
      else
        bnd (gets (\<lambda>s. c \<noteq> 0 \<and> in_e s - in_r s < of_nat INPUT_BUF)) (\<lambda>room.
          if room
          then
            let c = if c = 13 then 10 else c in
            thn (modify (\<lambda>s. s\<lparr>in_buf := (in_buf s)[unat (in_e s mod of_nat INPUT_BUF) := of_int c], in_e := in_e s + 1\<rparr>))
            (thn (consputc c)
            (bnd (gets (\<lambda>s. c = 10 \<or> c = 4 \<or> in_e s = in_r s + of_nat INPUT_BUF)) (\<lambda>full.
               if full then thn (modify (\<lambda>s. s\<lparr>in_w := in_e s\<rparr>)) (wakeup ChInput) else skip)))
          else skip))"

text \<open>The characters that \<open>getc\<close> delivers before it returns a negative number.\<close>

definition consoleintr :: "int list \<Rightarrow> (unit, 'z consst_scheme) kmon" where
  "consoleintr cs =
     thn (acquire Linput)
     (thn (forM cs console_char)
     (release Linput))"

section \<open>The console as a device\<close>

text \<open>
  \<open>consoleread\<close> with \<open>n\<close> bytes still to read; the result is its value and the bytes it has stored
  from \<open>dst\<close> on. \<open>consoleread_return\<close> is the loop after its sleep.
\<close>

definition consoleread_end :: "nat \<Rightarrow> nat \<Rightarrow> nat \<Rightarrow> u8 list \<Rightarrow> (int \<times> u8 list, 'z consst_scheme) kmon" where
  "consoleread_end ip target n bs =
     thn (release Linput)
     (thn (ilock ip)
     (ret (int target - int n, bs)))"

fun consoleread_loop :: "nat \<Rightarrow> nat \<Rightarrow> nat \<Rightarrow> u8 list \<Rightarrow> (int \<times> u8 list, 'z consst_scheme) kmon" where
  "consoleread_loop ip target 0 bs = consoleread_end ip target 0 bs"
| "consoleread_loop ip target (Suc n) bs =
     bnd (gets (\<lambda>s. in_r s = in_w s)) (\<lambda>none.
       if none
       then
         bnd (bnd myproc getp) (\<lambda>p.
           if p_killed p
           then thn (release Linput) (thn (ilock ip) (ret (-1, bs)))
           else thn (sleep ChInput (Some Linput)) (ret (0, bs)))
       else
         bnd (gets (\<lambda>s. in_buf s ! unat (in_r s mod of_nat INPUT_BUF))) (\<lambda>c.
         thn (modify (\<lambda>s. s\<lparr>in_r := in_r s + 1\<rparr>))
         (if c = 4
          then thn (if Suc n < target then modify (\<lambda>s. s\<lparr>in_r := in_r s - 1\<rparr>) else skip)
               (consoleread_end ip target (Suc n) bs)
          else if c = 10 then consoleread_end ip target n (bs @ [c])
          else consoleread_loop ip target n (bs @ [c]))))"

definition consoleread :: "nat \<Rightarrow> int \<Rightarrow> (int \<times> u8 list, 'z consst_scheme) kmon" where
  "consoleread ip n =
     thn (iunlock ip)
     (thn (acquire Linput)
     (consoleread_loop ip (nat n) (nat n) []))"

definition consoleread_return :: "bool \<Rightarrow> nat \<Rightarrow> nat \<Rightarrow> nat \<Rightarrow> u8 list \<Rightarrow> (int \<times> u8 list, 'z consst_scheme) kmon" where
  "consoleread_return ie ip target n bs = thn (sleep_return ie Linput) (consoleread_loop ip target n bs)"

definition consolewrite :: "nat \<Rightarrow> u8 list \<Rightarrow> (int, 'z consst_scheme) kmon" where
  "consolewrite ip buf =
     thn (iunlock ip)
     (thn (acquire Lcons)
     (thn (forM buf (\<lambda>c. consputc (uint c)))
     (thn (release Lcons)
     (thn (ilock ip)
     (ret (int (length buf)))))))"

definition consoleinit :: "(unit, 'z consst_scheme) kmon" where
  "consoleinit =
     thn (modify (upd_lock Lcons (initlock (LkStr ''console''))))
     (thn (modify (upd_lock Linput (initlock (LkStr ''input''))))
     (modify (\<lambda>s. s\<lparr>devtab := (devtab s)[1 := \<lparr>dev_read = Some Consoleread, dev_write = Some Consolewrite\<rparr>],
        cons_locking := True\<rparr>)))"

end
