(* ===== verification/Dir.thy ===== *)
theory Dir
  imports Console
begin

text \<open>
  The upper layers of \<^verbatim>\<open>fs.c\<close>: reading and writing the contents of a file, directories, and path
  names. The bytes behind the \<open>dst\<close> and \<open>src\<close> pointers of \<open>readi\<close> and \<open>writei\<close> are lists, the
  first returned and the second given. A string is the list of its bytes before the zero.
\<close>

section \<open>File contents\<close>

text \<open>
  One turn of the loop of \<open>readi\<close> reads at least one byte, so the number of bytes is fuel enough;
  \<open>left\<close> is \<open>n - tot\<close>.
\<close>

fun readi_loop :: "nat \<Rightarrow> nat \<Rightarrow> u32 \<Rightarrow> u32 \<Rightarrow> (u8 list, 'z consst_scheme) kmon" where
  "readi_loop fuel ip off left =
     (if left = 0 then ret []
      else case fuel of 0 \<Rightarrow> (\<lambda>s. Spn) | Suc fuel \<Rightarrow>
        bnd (bmap ip (off div BSIZE)) (\<lambda>a.
        bnd (geti ip) (\<lambda>x.
        bnd (bread (i_dev x) a) (\<lambda>bp.
        let m = min left (BSIZE - off mod BSIZE) in
        bnd (bdata bp) (\<lambda>d.
        thn (brelse bp)
        (bnd (readi_loop fuel ip (off + m) (left - m)) (\<lambda>r.
        ret (bytes_at (unat (off mod BSIZE)) (unat m) d @ r))))))))"

declare readi_loop.simps [simp del]

definition readi :: "nat \<Rightarrow> u32 \<Rightarrow> u32 \<Rightarrow> (int \<times> u8 list, 'z consst_scheme) kmon" where
  "readi ip off n =
     bnd (geti ip) (\<lambda>x.
       if i_type x = T_DEV
       then
         bnd (gets devtab) (\<lambda>dev.
           if sint (i_major x) < 0 \<or> sint (i_major x) \<ge> int NDEV \<or> dev_read (dev ! nat (sint (i_major x))) = None
           then ret (-1, [])
           else consoleread ip (sint n))
       else if off > i_size x \<or> off + n < off then ret (-1, [])
       else
         let n = (if off + n > i_size x then i_size x - off else n) in
         bnd (readi_loop (unat n) ip off n) (\<lambda>bs.
         ret (sint n, bs)))"

fun writei_loop :: "nat \<Rightarrow> nat \<Rightarrow> u32 \<Rightarrow> u8 list \<Rightarrow> (unit, 'z consst_scheme) kmon" where
  "writei_loop fuel ip off src =
     (if src = [] then skip
      else case fuel of 0 \<Rightarrow> (\<lambda>s. Spn) | Suc fuel \<Rightarrow>
        bnd (bmap ip (off div BSIZE)) (\<lambda>a.
        bnd (geti ip) (\<lambda>x.
        bnd (bread (i_dev x) a) (\<lambda>bp.
        let m = min (length src) (512 - unat (off mod BSIZE)) in
        thn (bstore bp (put_at (unat (off mod BSIZE)) (take m src)))
        (thn (log_write bp)
        (thn (brelse bp)
        (writei_loop fuel ip (off + of_nat m) (drop m src))))))))"

declare writei_loop.simps [simp del]

definition writei :: "nat \<Rightarrow> u8 list \<Rightarrow> u32 \<Rightarrow> (int, 'z consst_scheme) kmon" where
  "writei ip src off =
     bnd (geti ip) (\<lambda>x.
     let n = of_nat (length src) in
       if i_type x = T_DEV
       then
         bnd (gets devtab) (\<lambda>dev.
           if sint (i_major x) < 0 \<or> sint (i_major x) \<ge> int NDEV \<or> dev_write (dev ! nat (sint (i_major x))) = None
           then ret (-1)
           else consolewrite ip src)
       else if off > i_size x \<or> off + n < off then ret (-1)
       else if off + n > of_nat MAXFILE * BSIZE then ret (-1)
       else
         thn (writei_loop (length src) ip off src)
         (bnd (geti ip) (\<lambda>x.
          thn (if n > 0 \<and> off + n > i_size x
               then thn (updi ip (\<lambda>x. x\<lparr>i_size := off + n\<rparr>)) (iupdate ip)
               else skip)
          (ret (sint n)))))"

section \<open>Directories\<close>

record dirent =
  de_inum :: u16
  de_name :: "u8 list"

definition dec_dirent :: "u8 list \<Rightarrow> dirent" where
  "dec_dirent x = \<lparr>de_inum = of_le16 (bytes_at 0 2 x), de_name = bytes_at 2 DIRSIZ x\<rparr>"

definition enc_dirent :: "dirent \<Rightarrow> u8 list" where
  "enc_dirent de = le16 (de_inum de) @ de_name de"

definition namecmp :: "u8 list \<Rightarrow> u8 list \<Rightarrow> int" where
  "namecmp s t = strncmp (arr s) (arr t) (of_nat DIRSIZ)"

text \<open>The offsets of the entries of a directory of the given size.\<close>

definition dir_offs :: "u32 \<Rightarrow> u32 list" where
  "dir_offs sz = map (\<lambda>i. of_nat (16 * i)) [0..<(unat sz + 15) div 16]"

fun dirlookup_loop :: "nat \<Rightarrow> u8 list \<Rightarrow> u32 list \<Rightarrow> ((nat \<times> u32) option, 'z consst_scheme) kmon" where
  "dirlookup_loop dp name [] = ret None"
| "dirlookup_loop dp name (off # offs) =
     bnd (readi dp off 16) (\<lambda>(r, bs).
       if r \<noteq> 16 then panic ''dirlink read''
       else
         let de = dec_dirent bs in
         if de_inum de = 0 then dirlookup_loop dp name offs
         else if namecmp name (de_name de) = 0
         then bnd (geti dp) (\<lambda>x. bnd (iget (i_dev x) (ucast (de_inum de))) (\<lambda>ip. ret (Some (ip, off))))
         else dirlookup_loop dp name offs)"

text \<open>The inode of the entry and, for the callers that pass \<open>poff\<close>, its offset.\<close>

definition dirlookup :: "nat \<Rightarrow> u8 list \<Rightarrow> ((nat \<times> u32) option, 'z consst_scheme) kmon" where
  "dirlookup dp name =
     bnd (geti dp) (\<lambda>x.
       if i_type x \<noteq> T_DIR then panic ''dirlookup not DIR''
       else dirlookup_loop dp name (dir_offs (i_size x)))"

text \<open>The offset of the first empty entry, or of the end of the directory.\<close>

fun dirlink_loop :: "nat \<Rightarrow> u32 \<Rightarrow> u32 list \<Rightarrow> (u32, 'z consst_scheme) kmon" where
  "dirlink_loop dp end [] = ret end"
| "dirlink_loop dp end (off # offs) =
     bnd (readi dp off 16) (\<lambda>(r, bs).
       if r \<noteq> 16 then panic ''dirlink read''
       else if de_inum (dec_dirent bs) = 0 then ret off
       else dirlink_loop dp end offs)"

definition dirlink :: "nat \<Rightarrow> u8 list \<Rightarrow> u32 \<Rightarrow> (int, 'z consst_scheme) kmon" where
  "dirlink dp name inum =
     bnd (dirlookup dp name) (\<lambda>r.
       case r of
         Some (ip, off) \<Rightarrow> thn (iput ip) (ret (-1))
       | None \<Rightarrow>
           bnd (geti dp) (\<lambda>x.
           bnd (dirlink_loop dp (of_nat (16 * ((unat (i_size x) + 15) div 16))) (dir_offs (i_size x))) (\<lambda>off.
           bnd (writei dp (enc_dirent \<lparr>de_inum = ucast inum, de_name = strncpy (arr name) (int DIRSIZ)\<rparr>) off) (\<lambda>w.
             if w \<noteq> 16 then panic ''dirlink'' else ret 0))))"

section \<open>Paths\<close>

text \<open>
  The next element of a path and what follows it, without leading slashes; the element is cut to
  \<open>DIRSIZ\<close> bytes, as \<open>name\<close> has no room for more.
\<close>

definition skipelem :: "u8 list \<Rightarrow> (u8 list \<times> u8 list) option" where
  "skipelem path =
     (let path = dropWhile (\<lambda>c. c = 47) path in
      if path = [] then None
      else
        let s = takeWhile (\<lambda>c. c \<noteq> 47) path;
            path = dropWhile (\<lambda>c. c \<noteq> 47) path
        in Some (take DIRSIZ s, dropWhile (\<lambda>c. c = 47) path))"

lemma skipelem_shorter: "skipelem path = Some (name, rest) \<Longrightarrow> length rest < length path"
proof -
  assume s: "skipelem path = Some (name, rest)"
  define p where "p = dropWhile (\<lambda>c. c = 47) path"
  have p: "p \<noteq> []" "rest = dropWhile (\<lambda>c. c = 47) (dropWhile (\<lambda>c. c \<noteq> 47) p)"
    using s by (auto simp: skipelem_def p_def Let_def split: if_splits)
  then have h: "hd p \<noteq> 47" using hd_dropWhile[of "\<lambda>c. c = 47" path] by (auto simp: p_def)
  have "length rest \<le> length (dropWhile (\<lambda>c. c \<noteq> 47) p)" using p(2) by (simp add: length_dropWhile_le)
  also have "\<dots> < length p" using p(1) h by (cases p) (simp_all add: le_imp_less_Suc length_dropWhile_le)
  also have "\<dots> \<le> length path" by (simp add: p_def length_dropWhile_le)
  finally show ?thesis .
qed

text \<open>
  The walk of \<open>namex\<close> from the inode \<open>ip\<close>; with \<open>nameiparent\<close> the result carries the final
  element, which the code leaves in \<open>name\<close>.
\<close>

function namex_loop :: "bool \<Rightarrow> u8 list \<Rightarrow> nat \<Rightarrow> ((nat \<times> u8 list) option, 'z consst_scheme) kmon" where
  "namex_loop parent path ip =
     (case skipelem path of
        None \<Rightarrow> if parent then thn (iput ip) (ret None) else ret (Some (ip, []))
      | Some (name, rest) \<Rightarrow>
          thn (ilock ip)
          (bnd (geti ip) (\<lambda>x.
             if i_type x \<noteq> T_DIR then thn (iunlockput ip) (ret None)
             else if parent \<and> rest = [] then thn (iunlock ip) (ret (Some (ip, name)))
             else
               bnd (dirlookup ip name) (\<lambda>r.
                 case r of
                   None \<Rightarrow> thn (iunlockput ip) (ret None)
                 | Some (next, off) \<Rightarrow> thn (iunlockput ip) (namex_loop parent rest next)))))"
  by pat_completeness auto
termination
  by (relation "measure (\<lambda>(parent, path, ip). length path)") (auto dest: skipelem_shorter)

declare namex_loop.simps [simp del]

definition namex :: "bool \<Rightarrow> u8 list \<Rightarrow> ((nat \<times> u8 list) option, 'z consst_scheme) kmon" where
  "namex parent path =
     bnd (if path \<noteq> [] \<and> hd path = 47 then iget ROOTDEV ROOTINO
          else bnd (bnd myproc getp) (\<lambda>p. bnd (deref (p_cwd p)) idup)) (\<lambda>ip.
     namex_loop parent path ip)"

definition namei :: "u8 list \<Rightarrow> (nat option, 'z consst_scheme) kmon" where
  "namei path = bnd (namex False path) (\<lambda>r. ret (map_option fst r))"

definition nameiparent :: "u8 list \<Rightarrow> ((nat \<times> u8 list) option, 'z consst_scheme) kmon" where
  "nameiparent path = namex True path"

end
