(* ===== verification/File.thy ===== *)
theory File
  imports Dir
begin

text \<open>
  Pipes (\<^verbatim>\<open>pipe.c\<close>) and open files (\<^verbatim>\<open>file.c\<close>, \<^verbatim>\<open>file.h\<close>). A pointer to a file is its index in
  \<open>ftable.file\<close>; a pipe is named by the address of the page that \<open>kalloc\<close> gave it.
\<close>

section \<open>State\<close>

abbreviation (input) PIPESIZE :: nat where "PIPESIZE \<equiv> 512"

record pipe =
  pp_data :: "u8 list"
  pp_nread :: u32
  pp_nwrite :: u32
  pp_readopen :: bool
  pp_writeopen :: bool

datatype fdtype = FD_NONE | FD_PIPE | FD_INODE

record kfile =
  f_type :: fdtype
  f_ref :: int
  f_readable :: bool
  f_writable :: bool
  f_pipe :: u32
  f_ip :: "nat option"
  f_off :: u32

record filest = consst +
  ftable :: "kfile list"
  pipes :: "u32 \<Rightarrow> pipe"

definition getf :: "nat \<Rightarrow> (kfile, 'z filest_scheme) kmon" where
  "getf f s = (if f < length (ftable s) then Ret (ftable s ! f) s else Ub)"

definition updf :: "nat \<Rightarrow> (kfile \<Rightarrow> kfile) \<Rightarrow> (unit, 'z filest_scheme) kmon" where
  "updf f g s = (if f < length (ftable s)
     then Ret () (s\<lparr>ftable := (ftable s)[f := g (ftable s ! f)]\<rparr>) else Ub)"

definition getpipe :: "u32 \<Rightarrow> (pipe, 'z filest_scheme) kmon" where
  "getpipe p = gets (\<lambda>s. pipes s p)"

definition updpipe :: "u32 \<Rightarrow> (pipe \<Rightarrow> pipe) \<Rightarrow> (unit, 'z filest_scheme) kmon" where
  "updpipe p g = modify (\<lambda>s. s\<lparr>pipes := (pipes s)(p := g (pipes s p))\<rparr>)"

definition killed :: "(bool, 'z procst_scheme) kmon" where
  "killed = bnd (bnd myproc getp) (\<lambda>p. ret (p_killed p))"

section \<open>Pipes\<close>

definition pipeclose :: "u32 \<Rightarrow> bool \<Rightarrow> (unit, 'z filest_scheme) kmon" where
  "pipeclose p writable =
     thn (acquire (Lpipe p))
     (thn (if writable
           then thn (updpipe p (\<lambda>x. x\<lparr>pp_writeopen := False\<rparr>)) (wakeup (ChPread p))
           else thn (updpipe p (\<lambda>x. x\<lparr>pp_readopen := False\<rparr>)) (wakeup (ChPwrite p)))
     (bnd (getpipe p) (\<lambda>x.
        if \<not> pp_readopen x \<and> \<not> pp_writeopen x
        then thn (release (Lpipe p)) (kfree p)
        else release (Lpipe p))))"

text \<open>
  \<open>pipewrite\<close> with the bytes \<open>bs\<close> still to write out of \<open>n\<close>; \<open>pipewrite_return\<close> is the rest after
  its sleep on a full pipe.
\<close>

fun pipewrite_loop :: "u32 \<Rightarrow> int \<Rightarrow> u8 list \<Rightarrow> (int, 'z filest_scheme) kmon" where
  "pipewrite_loop p n [] =
     thn (wakeup (ChPread p))
     (thn (release (Lpipe p))
     (ret n))"
| "pipewrite_loop p n (b # bs) =
     bnd (getpipe p) (\<lambda>x.
       if pp_nwrite x = pp_nread x + of_nat PIPESIZE
       then
         bnd killed (\<lambda>k.
           if \<not> pp_readopen x \<or> k
           then thn (release (Lpipe p)) (ret (-1))
           else
             thn (wakeup (ChPread p))
             (thn (sleep (ChPwrite p) (Some (Lpipe p)))
             (ret 0)))
       else
         thn (updpipe p (\<lambda>x. x\<lparr>pp_data := (pp_data x)[unat (pp_nwrite x mod of_nat PIPESIZE) := b],
                pp_nwrite := pp_nwrite x + 1\<rparr>))
         (pipewrite_loop p n bs))"

text \<open>The bytes at the address given are as many as \<open>n\<close> says, none for a negative one.\<close>

definition pipewrite :: "u32 \<Rightarrow> u8 list \<Rightarrow> int \<Rightarrow> (int, 'z filest_scheme) kmon" where
  "pipewrite p bs n = thn (acquire (Lpipe p)) (pipewrite_loop p n bs)"

definition pipewrite_return :: "bool \<Rightarrow> u32 \<Rightarrow> int \<Rightarrow> u8 list \<Rightarrow> (int, 'z filest_scheme) kmon" where
  "pipewrite_return ie p n bs = thn (sleep_return ie (Lpipe p)) (pipewrite_loop p n bs)"

fun piperead_copy :: "u32 \<Rightarrow> nat \<Rightarrow> (u8 list, 'z filest_scheme) kmon" where
  "piperead_copy p 0 = ret []"
| "piperead_copy p (Suc n) =
     bnd (getpipe p) (\<lambda>x.
       if pp_nread x = pp_nwrite x then ret []
       else
         thn (updpipe p (\<lambda>x. x\<lparr>pp_nread := pp_nread x + 1\<rparr>))
         (bnd (piperead_copy p n) (\<lambda>bs.
         ret (pp_data x ! unat (pp_nread x mod of_nat PIPESIZE) # bs))))"

definition piperead_loop :: "u32 \<Rightarrow> int \<Rightarrow> (int \<times> u8 list, 'z filest_scheme) kmon" where
  "piperead_loop p n =
     bnd (getpipe p) (\<lambda>x.
       if pp_nread x = pp_nwrite x \<and> pp_writeopen x
       then
         bnd killed (\<lambda>k.
           if k then thn (release (Lpipe p)) (ret (-1, []))
           else thn (sleep (ChPread p) (Some (Lpipe p))) (ret (0, [])))
       else
         bnd (piperead_copy p (nat n)) (\<lambda>bs.
         thn (wakeup (ChPwrite p))
         (thn (release (Lpipe p))
         (ret (int (length bs), bs)))))"

definition piperead :: "u32 \<Rightarrow> int \<Rightarrow> (int \<times> u8 list, 'z filest_scheme) kmon" where
  "piperead p n = thn (acquire (Lpipe p)) (piperead_loop p n)"

definition piperead_return :: "bool \<Rightarrow> u32 \<Rightarrow> int \<Rightarrow> (int \<times> u8 list, 'z filest_scheme) kmon" where
  "piperead_return ie p n = thn (sleep_return ie (Lpipe p)) (piperead_loop p n)"

section \<open>Open files\<close>

definition fileinit :: "(unit, 'z filest_scheme) kmon" where
  "fileinit = modify (upd_lock Lftable (initlock (LkStr ''ftable'')))"

definition filealloc :: "(nat option, 'z filest_scheme) kmon" where
  "filealloc =
     thn (acquire Lftable)
     (bnd (gets (\<lambda>s. find_idx (\<lambda>f. f_ref f = 0) (ftable s))) (\<lambda>r.
       case r of
         Some f \<Rightarrow> thn (updf f (\<lambda>x. x\<lparr>f_ref := 1\<rparr>)) (thn (release Lftable) (ret (Some f)))
       | None \<Rightarrow> thn (release Lftable) (ret None)))"

definition filedup :: "nat \<Rightarrow> (nat, 'z filest_scheme) kmon" where
  "filedup f =
     thn (acquire Lftable)
     (bnd (getf f) (\<lambda>x.
       if f_ref x < 1 then panic ''filedup''
       else
         thn (updf f (\<lambda>x. x\<lparr>f_ref := f_ref x + 1\<rparr>))
         (thn (release Lftable)
         (ret f))))"

text \<open>The flag of \<open>fileclose\<close>, which only \<open>exit\<close> sets, excuses a file that is closed already.\<close>

definition fileclose :: "nat \<Rightarrow> bool \<Rightarrow> (unit, 'z filest_scheme) kmon" where
  "fileclose f excuse =
     thn (acquire Lftable)
     (bnd (getf f) (\<lambda>x.
       if excuse \<and> f_ref x = 0 then release Lftable
       else if f_ref x < 1 then panic ''fileclose''
       else
         thn (updf f (\<lambda>x. x\<lparr>f_ref := f_ref x - 1\<rparr>))
         (if f_ref x - 1 > 0 then release Lftable
          else
            bnd (getf f) (\<lambda>ff.
            thn (updf f (\<lambda>x. x\<lparr>f_ref := 0, f_type := FD_NONE\<rparr>))
            (thn (release Lftable)
            (if f_type ff = FD_PIPE then pipeclose (f_pipe ff) (f_writable ff)
             else if f_type ff = FD_INODE
             then
               thn begin_op
               (thn (bnd (deref (f_ip ff)) iput)
               end_op)
             else skip))))))"

definition filestat :: "nat \<Rightarrow> (int \<times> stat option, 'z filest_scheme) kmon" where
  "filestat f =
     bnd (getf f) (\<lambda>x.
       if f_type x = FD_INODE
       then
         bnd (deref (f_ip x)) (\<lambda>ip.
         thn (ilock ip)
         (bnd (stati ip) (\<lambda>st.
         thn (iunlock ip)
         (ret (0, Some st)))))
       else ret (-1, None))"

definition fileread :: "nat \<Rightarrow> int \<Rightarrow> (int \<times> u8 list, 'z filest_scheme) kmon" where
  "fileread f n =
     bnd (getf f) (\<lambda>x.
       if \<not> f_readable x then ret (-1, [])
       else if f_type x = FD_PIPE then piperead (f_pipe x) n
       else if f_type x = FD_INODE
       then
         bnd (deref (f_ip x)) (\<lambda>ip.
         thn (ilock ip)
         (bnd (readi ip (f_off x) (of_int n)) (\<lambda>(r, bs).
         thn (if r > 0 then updf f (\<lambda>x. x\<lparr>f_off := f_off x + of_int r\<rparr>) else skip)
         (thn (iunlock ip)
         (ret (r, bs))))))
       else panic ''fileread'')"

text \<open>
  \<open>filewrite\<close> writes at most \<open>((LOGSIZE-1-1-2) / 2) * 512\<close> bytes in one transaction; \<open>i\<close> bytes are
  written, \<open>bs\<close> remain.
\<close>

abbreviation (input) FILEWRITE_MAX :: nat where "FILEWRITE_MAX \<equiv> (LOGSIZE - 1 - 1 - 2) div 2 * 512"

fun filewrite_loop :: "nat \<Rightarrow> nat \<Rightarrow> nat \<Rightarrow> int \<Rightarrow> u8 list \<Rightarrow> (int, 'z filest_scheme) kmon" where
  "filewrite_loop fuel f ip i bs =
     (if bs = [] then ret i
      else case fuel of 0 \<Rightarrow> (\<lambda>s. Spn) | Suc fuel \<Rightarrow>
        let n1 = min (length bs) FILEWRITE_MAX in
        thn begin_op
        (thn (ilock ip)
        (bnd (getf f) (\<lambda>x.
        bnd (writei ip (take n1 bs) (f_off x)) (\<lambda>r.
        thn (if r > 0 then updf f (\<lambda>x. x\<lparr>f_off := f_off x + of_int r\<rparr>) else skip)
        (thn (iunlock ip)
        (thn end_op
        (if r < 0 then ret i
         else if r \<noteq> int n1 then panic ''short filewrite''
         else filewrite_loop fuel f ip (i + r) (drop n1 bs)))))))))"

declare filewrite_loop.simps [simp del]

definition filewrite :: "nat \<Rightarrow> u8 list \<Rightarrow> int \<Rightarrow> (int, 'z filest_scheme) kmon" where
  "filewrite f bs n =
     bnd (getf f) (\<lambda>x.
       if \<not> f_writable x then ret (-1)
       else if f_type x = FD_PIPE then pipewrite (f_pipe x) bs n
       else if f_type x = FD_INODE
       then
         bnd (deref (f_ip x)) (\<lambda>ip.
         bnd (filewrite_loop (length bs) f ip 0 bs) (\<lambda>i.
         ret (if i = n then n else -1)))
       else panic ''filewrite'')"

definition pipealloc_bad :: "u32 \<Rightarrow> nat option \<Rightarrow> nat option \<Rightarrow> ((nat \<times> nat) option, 'z filest_scheme) kmon" where
  "pipealloc_bad p f0 f1 =
     thn (if p \<noteq> 0 then kfree p else skip)
     (thn (case f0 of Some f \<Rightarrow> fileclose f False | None \<Rightarrow> skip)
     (thn (case f1 of Some f \<Rightarrow> fileclose f False | None \<Rightarrow> skip)
     (ret None)))"

text \<open>The two files of a new pipe, or \<open>None\<close> where the code returns -1.\<close>

definition pipealloc :: "((nat \<times> nat) option, 'z filest_scheme) kmon" where
  "pipealloc =
     bnd filealloc (\<lambda>f0.
       case f0 of None \<Rightarrow> pipealloc_bad 0 None None
       | Some g0 \<Rightarrow>
           bnd filealloc (\<lambda>f1.
             case f1 of None \<Rightarrow> pipealloc_bad 0 f0 None
             | Some g1 \<Rightarrow>
                 bnd kalloc (\<lambda>p.
                   if p = 0 then pipealloc_bad 0 f0 f1
                   else
                     thn (updpipe p (\<lambda>x. x\<lparr>pp_readopen := True, pp_writeopen := True, pp_nwrite := 0, pp_nread := 0\<rparr>))
                     (thn (modify (upd_lock (Lpipe p) (initlock (LkStr ''pipe''))))
                     (thn (updf g0 (\<lambda>x. x\<lparr>f_type := FD_PIPE, f_readable := True, f_writable := False, f_pipe := p\<rparr>))
                     (thn (updf g1 (\<lambda>x. x\<lparr>f_type := FD_PIPE, f_readable := False, f_writable := True, f_pipe := p\<rparr>))
                     (ret (Some (g0, g1)))))))))"

end
