(* ===== verification/Process.thy ===== *)
theory Process
  imports File Vm
begin

text \<open>
  The life of processes and kernel threads in \<^verbatim>\<open>proc.c\<close>: creation by \<open>fork\<close>, which makes a thread
  when \<open>ctflag\<close> is set, \<open>exit\<close>, \<open>wait\<close>, and the return value of a thread.
\<close>

section \<open>State\<close>

text \<open>
  \<open>ticks\<close> is the clock of \<^verbatim>\<open>trap.c\<close>, \<open>forkret_first\<close> the static variable of \<open>forkret\<close>; the last
  two fields are the addresses of \<open>forkret\<close> and \<open>trapret\<close> in the kernel image.
\<close>

record kst = filest +
  ticks :: u32
  forkret_first :: bool
  sym_forkret :: u32
  sym_trapret :: u32

section \<open>User addresses\<close>

text \<open>
  The kernel reads and writes the memory of the current process at its virtual addresses, through the
  page table in \<open>cr3\<close>. An address that is not mapped, or not writable, is a page fault in the kernel,
  on which \<open>trap\<close> panics.
\<close>

definition mmu :: "bool \<Rightarrow> u32 \<Rightarrow> (u32, 'z memst_scheme) kmon" where
  "mmu wr va =
     (if va \<ge> KERNBASE then ret va
      else
        bnd (gets (\<lambda>s. p2v (cr3 (the_cpu s)))) (\<lambda>pgdir.
        bnd (rd32 (pgdir + 4 * PDX va)) (\<lambda>pde.
          if pde AND PTE_P = 0 \<or> wr \<and> pde AND PTE_W = 0 then panic ''trap''
          else
            bnd (rd32 (p2v (PTE_ADDR pde) + 4 * PTX va)) (\<lambda>pte.
              if pte AND PTE_P = 0 \<or> wr \<and> pte AND PTE_W = 0 then panic ''trap''
              else ret (p2v (PTE_ADDR pte) + va AND 0xfff)))))"

definition uload8 :: "u32 \<Rightarrow> (u8, 'z memst_scheme) kmon" where
  "uload8 va = bnd (mmu False va) (\<lambda>a. gets (\<lambda>s. mem s a))"

definition ustore8 :: "u32 \<Rightarrow> u8 \<Rightarrow> (unit, 'z memst_scheme) kmon" where
  "ustore8 va b = bnd (mmu True va) (\<lambda>a. upd_mem (\<lambda>m. m(a := b)))"

fun uload :: "u32 \<Rightarrow> nat \<Rightarrow> (u8 list, 'z memst_scheme) kmon" where
  "uload va 0 = ret []"
| "uload va (Suc n) = bnd (uload8 va) (\<lambda>b. bnd (uload (va + 1) n) (\<lambda>bs. ret (b # bs)))"

fun ustore :: "u32 \<Rightarrow> u8 list \<Rightarrow> (unit, 'z memst_scheme) kmon" where
  "ustore va [] = skip"
| "ustore va (b # bs) = thn (ustore8 va b) (ustore (va + 1) bs)"

definition uload32 :: "u32 \<Rightarrow> (u32, 'z memst_scheme) kmon" where
  "uload32 va = bnd (uload va 4) (\<lambda>bs. ret (of_le32 bs))"

definition ustore32 :: "u32 \<Rightarrow> u32 \<Rightarrow> (unit, 'z memst_scheme) kmon" where
  "ustore32 va v = ustore va (le32 v)"

section \<open>Creation\<close>

definition SZ_TF :: u32 where "SZ_TF = 76"

definition zero_context :: kcontext where
  "zero_context = \<lparr>c_edi = 0, c_esi = 0, c_ebx = 0, c_ebp = 0, c_eip = 0\<rparr>"

definition zero_tf :: trapframe where
  "zero_tf = \<lparr>tf_edi = 0, tf_esi = 0, tf_ebp = 0, tf_oesp = 0, tf_ebx = 0, tf_edx = 0, tf_ecx = 0, tf_eax = 0,
     tf_gs = 0, tf_fs = 0, tf_es = 0, tf_ds = 0, tf_trapno = 0, tf_err = 0, tf_eip = 0, tf_cs = 0, tf_eflags = 0,
     tf_esp = 0, tf_ss = 0\<rparr>"

text \<open>
  The trap frame and the context of a process are fields of its entry; of the kernel stack only the
  word that makes \<open>forkret\<close> return to \<open>trapret\<close> is written.
\<close>

definition allocproc :: "(nat option, 'z kst_scheme) kmon" where
  "allocproc =
     thn (acquire Lptable)
     (bnd (gets (\<lambda>s. find_idx (\<lambda>p. p_state p = UNUSED) (ptable s))) (\<lambda>r.
       case r of
         None \<Rightarrow> thn (release Lptable) (ret None)
       | Some p \<Rightarrow>
           bnd (gets nextpid) (\<lambda>n.
           thn (updp p (\<lambda>q. q\<lparr>p_state := EMBRYO, p_pid := n\<rparr>))
           (thn (modify (\<lambda>s. s\<lparr>nextpid := n + 1\<rparr>))
           (thn (release Lptable)
           (bnd kalloc (\<lambda>ks.
           thn (updp p (\<lambda>q. q\<lparr>p_kstack := ks\<rparr>))
           (if ks = 0
            then thn (updp p (\<lambda>q. q\<lparr>p_state := UNUSED\<rparr>)) (ret None)
            else
              bnd (gets sym_trapret) (\<lambda>tr.
              bnd (gets sym_forkret) (\<lambda>fr.
              thn (wr32 (ks + KSTACKSIZE - SZ_TF - 4) tr)
              (thn (updp p (\<lambda>q. q\<lparr>p_context := zero_context\<lparr>c_eip := fr\<rparr>\<rparr>))
              (ret (Some p)))))))))))))"

text \<open>\<open>name[0..]\<close> gets a string: the bytes that \<open>safestrcpy\<close> writes, over the old ones.\<close>

definition set_name :: "u8 list \<Rightarrow> proc \<Rightarrow> proc" where
  "set_name str p = p\<lparr>p_name := put_at 0 (safestrcpy (arr str) 16) (p_name p)\<rparr>"

definition userinit :: "u8 list \<Rightarrow> (unit, 'z kst_scheme) kmon" where
  "userinit initcode =
     bnd allocproc (\<lambda>r.
     thn (modify (\<lambda>s. s\<lparr>initproc := r\<rparr>))
     (bnd (deref r) (\<lambda>p.
      bnd setupkvm (\<lambda>pg.
      thn (updp p (\<lambda>q. q\<lparr>p_pgdir := pg\<rparr>))
      (if pg = 0 then panic ''userinit: out of memory?''
       else
         thn (inituvm pg initcode)
         (thn (updp p (\<lambda>q. set_name (str8 ''initcode'') (q\<lparr>p_sz := PGSIZE,
            p_tf := zero_tf\<lparr>tf_cs := 0x23, tf_ds := 0x2b, tf_es := 0x2b, tf_ss := 0x2b, tf_eflags := 0x200,
              tf_esp := PGSIZE, tf_eip := 0\<rparr>\<rparr>)))
         (bnd (namei (str8 ''/'')) (\<lambda>cwd.
          updp p (\<lambda>q. q\<lparr>p_cwd := cwd, p_state := RUNNABLE\<rparr>)))))))))"

definition growproc :: "int \<Rightarrow> (int, 'z kst_scheme) kmon" where
  "growproc n =
     bnd myproc (\<lambda>me.
     bnd (getp me) (\<lambda>p.
     bnd (if n > 0 then bnd (allocuvm (p_pgdir p) (p_sz p) (p_sz p + of_int n)) (\<lambda>sz. ret (if sz = 0 then None else Some sz))
          else if n < 0 then bnd (deallocuvm (p_pgdir p) (p_sz p) (p_sz p + of_int n)) (\<lambda>sz. ret (if sz = 0 then None else Some sz))
          else ret (Some (p_sz p))) (\<lambda>r.
       case r of
         None \<Rightarrow> ret (-1)
       | Some sz \<Rightarrow>
           thn (if p_type p \<noteq> 0 then bnd (deref (p_parent p)) (\<lambda>pa. updp pa (\<lambda>q. q\<lparr>p_sz := sz\<rparr>)) else skip)
           (thn (updp me (\<lambda>q. q\<lparr>p_sz := sz\<rparr>))
           (thn (switchuvm me)
           (ret 0))))))"

text \<open>No mutex and no condition variable of a new process is in use.\<close>

definition fresh_sync :: "proc \<Rightarrow> proc" where
  "fresh_sync p = p\<lparr>p_mutexlist := map (\<lambda>x. x\<lparr>lockingthread := -1, mx_lock := (mx_lock x)\<lparr>lk_id := -1\<rparr>\<rparr>) (p_mutexlist p),
     p_condvarlist := map (\<lambda>c. c\<lparr>cv_id := -1, waitingthreadlist := replicate MAXTHRDS (-1)\<rparr>) (p_condvarlist p)\<rparr>"

definition fork_ofile :: "nat \<Rightarrow> nat \<Rightarrow> nat \<Rightarrow> (unit, 'z kst_scheme) kmon" where
  "fork_ofile me np i =
     bnd (getp me) (\<lambda>p.
       case p_ofile p ! i of
         None \<Rightarrow> skip
       | Some f \<Rightarrow>
           bnd (if p_ctflag p then ret f else filedup f) (\<lambda>g.
           updp np (\<lambda>q. q\<lparr>p_ofile := (p_ofile q)[i := Some g]\<rparr>)))"

text \<open>
  The address space of the new entry \<open>np\<close>: that of the caller for a thread, a copy of it for a
  process. The result is false when the copy fails and the entry has been given back.
\<close>

definition fork_space :: "nat \<Rightarrow> proc \<Rightarrow> u32 \<Rightarrow> (bool, 'z kst_scheme) kmon" where
  "fork_space np p thrdattr =
     (if p_ctflag p
      then
        thn (updp np (\<lambda>q. q\<lparr>p_pgdir := p_pgdir p, p_type := 1, p_threadattr := sint thrdattr, p_threadretval := -1\<rparr>))
        (ret True)
      else
        bnd (copyuvm (p_pgdir p) (p_sz p)) (\<lambda>pg.
        thn (updp np (\<lambda>q. q\<lparr>p_pgdir := pg\<rparr>))
        (if pg = 0
         then
           thn (bnd (getp np) (\<lambda>q. kfree (p_kstack q)))
           (thn (updp np (\<lambda>q. q\<lparr>p_kstack := 0, p_state := UNUSED\<rparr>))
           (ret False))
         else
           thn (updp np (\<lambda>q. q\<lparr>p_type := 0, p_tcount := 0\<rparr>))
           (ret True))))"

text \<open>The user stack of a new thread: its two arguments and a return address of zero.\<close>

definition fork_stack :: "nat \<Rightarrow> nat \<Rightarrow> u32 \<Rightarrow> u32 \<Rightarrow> u32 \<Rightarrow> u32 \<Rightarrow> (unit, 'z kst_scheme) kmon" where
  "fork_stack me np ustack wrapperaddr arg1 arg2 =
     thn (updp np (\<lambda>q. q\<lparr>p_tf := (p_tf q)\<lparr>tf_eip := wrapperaddr\<rparr>\<rparr>))
     (thn (updp me (\<lambda>q. q\<lparr>p_ustack := ustack\<rparr>))
     (thn (ustore32 (ustack - 4) arg2)
     (thn (ustore32 (ustack - 8) arg1)
     (thn (ustore32 (ustack - 12) 0)
     (thn (updp np (\<lambda>q. q\<lparr>p_tf := (p_tf q)\<lparr>tf_esp := ustack - 12\<rparr>\<rparr>))
     (updp me (\<lambda>q. q\<lparr>p_tcount := p_tcount q + 1\<rparr>)))))))"

definition fork_cwd :: "nat \<Rightarrow> proc \<Rightarrow> (unit, 'z kst_scheme) kmon" where
  "fork_cwd np p =
     (if p_ctflag p
      then updp np (\<lambda>q. q\<lparr>p_cwd := p_cwd p\<rparr>)
      else bnd (bnd (deref (p_cwd p)) idup) (\<lambda>ip. updp np (\<lambda>q. q\<lparr>p_cwd := Some ip\<rparr>)))"

definition fork :: "u32 \<Rightarrow> u32 \<Rightarrow> u32 \<Rightarrow> u32 \<Rightarrow> u32 \<Rightarrow> (int, 'z kst_scheme) kmon" where
  "fork ustack thrdattr wrapperaddr arg1 arg2 =
     bnd allocproc (\<lambda>r.
       case r of
         None \<Rightarrow> ret (-1)
       | Some np \<Rightarrow>
           bnd myproc (\<lambda>me.
           bnd (getp me) (\<lambda>p.
           bnd (fork_space np p thrdattr) (\<lambda>ok.
             if \<not> ok then ret (-1)
             else
               thn (updp np fresh_sync)
               (thn (updp np (\<lambda>q. q\<lparr>p_sz := p_sz p,
                  p_parent := (if p_type p \<noteq> 0 \<and> p_ctflag p then p_parent p else Some me), p_tf := p_tf p\<rparr>))
               (thn (if p_ctflag p then fork_stack me np ustack wrapperaddr arg1 arg2 else skip)
               (thn (updp np (\<lambda>q. q\<lparr>p_tf := (p_tf q)\<lparr>tf_eax := 0\<rparr>\<rparr>))
               (thn (forM [0..<NOFILE] (fork_ofile me np))
               (thn (fork_cwd np p)
               (thn (updp np (set_name (p_name p)))
               (bnd (getp np) (\<lambda>q.
                thn (acquire Lptable)
                (thn (updp np (\<lambda>q. q\<lparr>p_state := RUNNABLE\<rparr>))
                (thn (release Lptable)
                (ret (p_pid q))))))))))))))))"

section \<open>Exit and wait\<close>

text \<open>The mutexes and condition variables of an entry that becomes free, and its other fields.\<close>

definition drop_sync :: "proc \<Rightarrow> proc" where
  "drop_sync p = p\<lparr>p_mutexlist := map (\<lambda>x. x\<lparr>mx_lock := (mx_lock x)\<lparr>lk_id := -1\<rparr>\<rparr>) (p_mutexlist p),
     p_condvarlist := map (\<lambda>c. c\<lparr>cv_id := -1\<rparr>) (p_condvarlist p)\<rparr>"

definition clear_proc :: "proc \<Rightarrow> proc" where
  "clear_proc p = p\<lparr>p_state := UNUSED, p_pid := 0, p_parent := None, p_name := (p_name p)[0 := 0], p_killed := False,
     p_wrapper := 0, p_ctflag := False, p_ustack := 0, p_type := 0, p_threadattr := 0, p_threadretval := 0, p_chan := ChNull\<rparr>"

text \<open>Freeing the kernel stack of entry \<open>i\<close> and the rest of the entry, common to the three reapers.\<close>

definition free_entry :: "nat \<Rightarrow> (unit, 'z kst_scheme) kmon" where
  "free_entry i =
     thn (updp i clear_proc)
     (thn (bnd (getp i) (\<lambda>p. kfree (p_kstack p)))
     (thn (updp i (\<lambda>p. p\<lparr>p_kstack := 0\<rparr>))
     (updp i drop_sync)))"

definition cleanupzombiethreads :: "(unit, 'z kst_scheme) kmon" where
  "cleanupzombiethreads =
     bnd myproc (\<lambda>me.
     thn (acquire Lptable)
     (thn (bnd (gets (\<lambda>s. find_idx (\<lambda>p. p_type p \<noteq> 0 \<and> p_state p = ZOMBIE \<and> p_parent p = Some me) (ptable s))) (\<lambda>r.
        case r of
          None \<Rightarrow> skip
        | Some i \<Rightarrow>
            thn (updp me (\<lambda>q. q\<lparr>p_tcount := p_tcount q - 1\<rparr>))
            (free_entry i)))
     (release Lptable)))"

definition chan_of_parent :: "nat option \<Rightarrow> chan" where
  "chan_of_parent p = (case p of None \<Rightarrow> ChNull | Some i \<Rightarrow> ChProc i)"

text \<open>
  The end of \<open>exit\<close>, with \<open>ptable.lock\<close> held: while threads are left, reap one and yield;
  \<open>exit_return\<close> is the next turn after the yield.
\<close>

definition exit_loop :: "(unit, 'z kst_scheme) kmon" where
  "exit_loop =
     bnd myproc (\<lambda>me.
     bnd (getp me) (\<lambda>p.
       if p_tcount p \<noteq> 0
       then
         thn (release Lptable)
         (thn cleanupzombiethreads
         yield)
       else
         thn (wakeup1 (chan_of_parent (p_parent p)))
         (thn (updp me (\<lambda>q. q\<lparr>p_state := ZOMBIE\<rparr>))
         (thn sched
         (panic ''zombie exit'')))))"

definition exit_return :: "bool \<Rightarrow> (unit, 'z kst_scheme) kmon" where
  "exit_return ie = thn (yield_return ie) (thn (acquire Lptable) exit_loop)"

definition exit_close :: "nat \<Rightarrow> nat \<Rightarrow> (unit, 'z kst_scheme) kmon" where
  "exit_close me fd =
     bnd (getp me) (\<lambda>p.
       case p_ofile p ! fd of
         None \<Rightarrow> skip
       | Some f \<Rightarrow>
           thn (if p_type p = 0 then fileclose f True else skip)
           (updp me (\<lambda>q. q\<lparr>p_ofile := (p_ofile q)[fd := None]\<rparr>)))"

definition exit_pass :: "nat \<Rightarrow> nat \<Rightarrow> (unit, 'z kst_scheme) kmon" where
  "exit_pass me i =
     bnd (getp i) (\<lambda>p.
       if p_type p \<noteq> 1 \<and> p_parent p = Some me
       then
         bnd (gets initproc) (\<lambda>ini.
         thn (updp i (\<lambda>q. q\<lparr>p_parent := ini\<rparr>))
         (if p_state p = ZOMBIE then wakeup1 (chan_of_parent ini) else skip))
       else skip)"

definition exit :: "(unit, 'z kst_scheme) kmon" where
  "exit =
     bnd myproc (\<lambda>me.
     bnd (gets initproc) (\<lambda>ini.
       if ini = Some me then panic ''init exiting''
       else
         thn (forM [0..<NOFILE] (exit_close me))
         (bnd (getp me) (\<lambda>p.
          thn (if p_type p = 0 then thn begin_op (thn (bnd (deref (p_cwd p)) iput) end_op) else skip)
          (thn (updp me (\<lambda>q. q\<lparr>p_cwd := None\<rparr>))
          (thn (acquire Lptable)
          (thn (if p_type p = 0 then bnd (gets (\<lambda>s. length (ptable s))) (\<lambda>n. forM [0..<n] (exit_pass me)) else skip)
          (thn (if p_type p \<noteq> 0 \<and> p_threadattr p \<noteq> 0 then updp me (\<lambda>q. q\<lparr>p_pgdir := 0\<rparr>) else skip)
          exit_loop))))))))"

text \<open>
  \<open>wait\<close> looks at the children of the caller, or of its parent when the caller is a thread, and with
  \<open>tid\<close> only at that one. It reaps a process; a thread is left for \<open>getthreadretval\<close>.
\<close>

definition waits_for :: "nat \<Rightarrow> proc \<Rightarrow> u32 \<Rightarrow> proc \<Rightarrow> bool" where
  "waits_for me self tid p \<longleftrightarrow>
     \<not> (p_parent p \<noteq> Some me \<and> p_type self = 0 \<or> p_type self \<noteq> 0 \<and> p_parent p \<noteq> p_parent self) \<and>
     (tid = 0 \<or> tid = of_int (p_pid p))"

definition reap :: "nat \<Rightarrow> (unit, 'z kst_scheme) kmon" where
  "reap i =
     bnd (getp i) (\<lambda>p.
     thn (freevm (p_pgdir p))
     (thn (updp i (\<lambda>q. q\<lparr>p_pgdir := 0, p_tcount := 0\<rparr>))
     (free_entry i)))"

definition wait_loop :: "u32 \<Rightarrow> (int, 'z kst_scheme) kmon" where
  "wait_loop tid =
     bnd myproc (\<lambda>me.
     bnd (getp me) (\<lambda>self.
     bnd (gets ptable) (\<lambda>ps.
       case find_idx (\<lambda>p. waits_for me self tid p \<and> p_state p = ZOMBIE) ps of
         Some i \<Rightarrow>
           bnd (getp i) (\<lambda>p.
           thn (if p_type p = 0 then reap i else skip)
           (thn (release Lptable)
           (ret (p_pid p))))
       | None \<Rightarrow>
           if find_idx (waits_for me self tid) ps = None \<or> p_killed self
           then thn (release Lptable) (ret (-1))
           else if tid \<noteq> 0 then thn (release Lptable) (thn yield (ret 0))
           else thn (sleep (ChProc me) (Some Lptable)) (ret 0))))"

definition wait :: "u32 \<Rightarrow> (int, 'z kst_scheme) kmon" where
  "wait tid = thn (acquire Lptable) (wait_loop tid)"

text \<open>The next turn of the loop, after \<open>yield\<close> when \<open>tid\<close> is given and after \<open>sleep\<close> otherwise.\<close>

definition wait_return :: "bool \<Rightarrow> u32 \<Rightarrow> (int, 'z kst_scheme) kmon" where
  "wait_return ie tid =
     thn (if tid \<noteq> 0 then thn (yield_return ie) (acquire Lptable) else sleep_return ie Lptable)
     (wait_loop tid)"

definition getthreadretval :: "int \<Rightarrow> (int, 'z kst_scheme) kmon" where
  "getthreadretval tid =
     thn (acquire Lptable)
     (bnd (bnd (gets (\<lambda>s. find_idx (\<lambda>p. p_type p \<noteq> 0 \<and> p_pid p = tid) (ptable s))) (\<lambda>r.
        case r of
          None \<Rightarrow> ret (-1)
        | Some i \<Rightarrow>
            bnd (getp i) (\<lambda>p.
            thn (if p_threadattr p > 0
                 then updp i (\<lambda>q. q\<lparr>p_threadattr := 0, p_threadretval := 0\<rparr>)
                 else
                   thn (bnd (deref (p_parent p)) (\<lambda>pa. updp pa (\<lambda>q. q\<lparr>p_tcount := p_tcount q - 1\<rparr>)))
                   (thn (updp i (\<lambda>q. q\<lparr>p_pgdir := 0\<rparr>))
                   (free_entry i)))
            (ret (p_threadretval p)))))
     (\<lambda>retval.
      thn (release Lptable)
      (ret retval)))"

definition forkret :: "(unit, 'z kst_scheme) kmon" where
  "forkret =
     thn (release Lptable)
     (bnd (gets forkret_first) (\<lambda>f.
       if f then thn (modify (\<lambda>s. s\<lparr>forkret_first := False\<rparr>)) initlog else skip))"

end
