(* ===== verification/Syscall.thy ===== *)
theory Syscall
  imports Process Kthread
begin

text \<open>
  The arguments of system calls (\<^verbatim>\<open>syscall.c\<close>) and the calls on processes and kernel threads
  (\<^verbatim>\<open>sysproc.c\<close>). A fetch that the code makes return -1 is \<open>None\<close>; a string is fetched with its
  bytes, which the code reads again through the pointer.
\<close>

section \<open>Arguments\<close>

definition me :: "(proc, 'z procst_scheme) kmon" where
  "me = bnd myproc getp"

definition updme :: "(proc \<Rightarrow> proc) \<Rightarrow> (unit, 'z procst_scheme) kmon" where
  "updme f = bnd myproc (\<lambda>i. updp i f)"

definition fetchint :: "u32 \<Rightarrow> (u32 option, 'z memst_scheme) kmon" where
  "fetchint addr =
     bnd me (\<lambda>p.
       if addr \<ge> p_sz p \<or> addr + 4 > p_sz p then ret None
       else bnd (uload32 addr) (\<lambda>v. ret (Some v)))"

text \<open>The bytes from \<open>s\<close> to the first zero, when there is one before the end of the process memory.\<close>

fun fetchstr_loop :: "nat \<Rightarrow> u32 \<Rightarrow> (u8 list option, 'z memst_scheme) kmon" where
  "fetchstr_loop 0 s = ret None"
| "fetchstr_loop (Suc left) s =
     bnd (uload8 s) (\<lambda>c.
       if c = 0 then ret (Some [])
       else bnd (fetchstr_loop left (s + 1)) (\<lambda>r. ret (map_option (\<lambda>cs. c # cs) r)))"

definition fetchstr :: "u32 \<Rightarrow> (u8 list option, 'z memst_scheme) kmon" where
  "fetchstr addr =
     bnd me (\<lambda>p.
       if addr \<ge> p_sz p then ret None
       else fetchstr_loop (unat (p_sz p - addr)) addr)"

definition argint :: "nat \<Rightarrow> (u32 option, 'z memst_scheme) kmon" where
  "argint n = bnd me (\<lambda>p. fetchint (tf_esp (p_tf p) + 4 + 4 * of_nat n))"

definition argptr :: "nat \<Rightarrow> u32 \<Rightarrow> (u32 option, 'z memst_scheme) kmon" where
  "argptr n sz =
     bnd (argint n) (\<lambda>r.
       case r of
         None \<Rightarrow> ret None
       | Some i \<Rightarrow> bnd me (\<lambda>p. ret (if i \<ge> p_sz p \<or> i + sz > p_sz p then None else Some i)))"

definition argstr :: "nat \<Rightarrow> (u8 list option, 'z memst_scheme) kmon" where
  "argstr n =
     bnd (argint n) (\<lambda>r.
       case r of
         None \<Rightarrow> ret None
       | Some addr \<Rightarrow> fetchstr addr)"

text \<open>
  Most calls on threads ignore a failed \<open>argint\<close>: the variable keeps its initial value, or has none
  at all.
\<close>

definition argint_or :: "nat \<Rightarrow> u32 \<Rightarrow> (u32, 'z memst_scheme) kmon" where
  "argint_or n v = bnd (argint n) (\<lambda>r. ret (case r of None \<Rightarrow> v | Some i \<Rightarrow> i))"

definition argint_uninit :: "nat \<Rightarrow> (u32, 'z memst_scheme) kmon" where
  "argint_uninit n = bnd (argint n) (\<lambda>r. case r of None \<Rightarrow> undefd | Some i \<Rightarrow> ret i)"

section \<open>Processes\<close>

definition sys_fork :: "(int, 'z kst_scheme) kmon" where
  "sys_fork =
     bnd me (\<lambda>p.
       if p_type p \<noteq> 0 \<or> p_tcount p \<noteq> 0 then ret (-1)
       else
         thn (updme (\<lambda>q. q\<lparr>p_ctflag := False\<rparr>))
         (fork 0 0 0 0 0))"

definition sys_exit :: "(int, 'z kst_scheme) kmon" where
  "sys_exit = thn exit (ret 0)"

definition sys_wait :: "(int, 'z kst_scheme) kmon" where
  "sys_wait = wait 0"

definition sys_kill :: "(int, 'z kst_scheme) kmon" where
  "sys_kill =
     bnd (argint 0) (\<lambda>r.
       case r of
         None \<Rightarrow> ret (-1)
       | Some pid \<Rightarrow> kill (sint pid))"

definition sys_getpid :: "(int, 'z kst_scheme) kmon" where
  "sys_getpid = bnd me (\<lambda>p. ret (p_pid p))"

definition sys_sbrk :: "(int, 'z kst_scheme) kmon" where
  "sys_sbrk =
     bnd (argint 0) (\<lambda>r.
       case r of
         None \<Rightarrow> ret (-1)
       | Some n \<Rightarrow>
           bnd me (\<lambda>p.
           bnd (growproc (sint n)) (\<lambda>g.
             if g < 0 then ret (-1) else ret (sint (p_sz p)))))"

text \<open>
  The loop of \<open>sys_sleep\<close> with \<open>tickslock\<close> held; \<open>sys_sleep_return\<close> is its next turn. The count is
  compared as an unsigned number.
\<close>

definition sys_sleep_loop :: "u32 \<Rightarrow> u32 \<Rightarrow> (int, 'z kst_scheme) kmon" where
  "sys_sleep_loop ticks0 n =
     bnd (gets ticks) (\<lambda>t.
       if t - ticks0 < n
       then
         bnd me (\<lambda>p.
           if p_killed p then thn (release Lticks) (ret (-1))
           else thn (sleep ChTicks (Some Lticks)) (ret 0))
       else thn (release Lticks) (ret 0))"

definition sys_sleep :: "(int, 'z kst_scheme) kmon" where
  "sys_sleep =
     bnd (argint 0) (\<lambda>r.
       case r of
         None \<Rightarrow> ret (-1)
       | Some n \<Rightarrow>
           thn (acquire Lticks)
           (bnd (gets ticks) (\<lambda>ticks0.
            sys_sleep_loop ticks0 n)))"

definition sys_sleep_return :: "bool \<Rightarrow> u32 \<Rightarrow> u32 \<Rightarrow> (int, 'z kst_scheme) kmon" where
  "sys_sleep_return ie ticks0 n = thn (sleep_return ie Lticks) (sys_sleep_loop ticks0 n)"

definition sys_uptime :: "(int, 'z kst_scheme) kmon" where
  "sys_uptime =
     thn (acquire Lticks)
     (bnd (gets ticks) (\<lambda>xticks.
      thn (release Lticks)
      (ret (sint xticks))))"

definition sys_getppid :: "(int, 'z kst_scheme) kmon" where
  "sys_getppid =
     bnd me (\<lambda>p.
       case p_parent p of
         None \<Rightarrow> ret 0
       | Some pa \<Rightarrow> bnd (getp pa) (\<lambda>q. ret (p_pid q)))"

section \<open>Kernel threads\<close>

definition sys_kthread_create :: "(int, 'z kst_scheme) kmon" where
  "sys_kthread_create =
     bnd (argint_or 0 0) (\<lambda>ustack.
     bnd (argint_or 1 0) (\<lambda>thrdattr.
     bnd (argint_or 2 0) (\<lambda>wrapper.
     bnd (argint_or 3 0) (\<lambda>arg1.
     bnd (argint_or 4 0) (\<lambda>arg2.
     thn (updme (\<lambda>q. q\<lparr>p_ctflag := True\<rparr>))
     (fork ustack thrdattr wrapper arg1 arg2))))))"

definition sys_kthread_join :: "(int, 'z kst_scheme) kmon" where
  "sys_kthread_join = bnd (argint_or 0 0) wait"

definition sys_kthread_saveretval :: "(int, 'z kst_scheme) kmon" where
  "sys_kthread_saveretval =
     bnd (argint_uninit 0) (\<lambda>retval.
     thn (updme (\<lambda>q. q\<lparr>p_threadretval := sint retval\<rparr>))
     (ret 0))"

definition sys_kthread_fetchretval :: "(int, 'z kst_scheme) kmon" where
  "sys_kthread_fetchretval = bnd (argint_or 0 0) (\<lambda>thread. getthreadretval (sint thread))"

definition sys_kthread_mutex_init :: "(int, 'z kst_scheme) kmon" where
  "sys_kthread_mutex_init = mutex_init"

definition sys_kthread_mutex_destroy :: "(int, 'z kst_scheme) kmon" where
  "sys_kthread_mutex_destroy = bnd (argint_uninit 0) (\<lambda>mutex. mutex_destroy (sint mutex))"

definition sys_kthread_mutex_lock :: "(int, 'z kst_scheme) kmon" where
  "sys_kthread_mutex_lock = bnd (argint_or 0 0) (\<lambda>mutex. mutex_lock (sint mutex))"

definition sys_kthread_mutex_unlock :: "(int, 'z kst_scheme) kmon" where
  "sys_kthread_mutex_unlock = bnd (argint_or 0 0) (\<lambda>mutex. mutex_unlock (sint mutex))"

definition sys_kthread_cond_init :: "(int, 'z kst_scheme) kmon" where
  "sys_kthread_cond_init = condvar_init"

definition sys_kthread_cond_destroy :: "(int, 'z kst_scheme) kmon" where
  "sys_kthread_cond_destroy = bnd (argint_or 0 0) (\<lambda>condvar. condvar_destroy (sint condvar))"

definition sys_kthread_cond_wait :: "(int, 'z kst_scheme) kmon" where
  "sys_kthread_cond_wait =
     bnd (argint_or 0 0) (\<lambda>condvar.
     bnd (argint_or 1 0) (\<lambda>mutex.
     condvar_wait (sint condvar) (sint mutex)))"

definition sys_kthread_cond_signal :: "(int, 'z kst_scheme) kmon" where
  "sys_kthread_cond_signal = bnd (argint_or 0 0) (\<lambda>condvar. condvar_signal (sint condvar))"

definition sys_kthread_cond_broadcast :: "(int, 'z kst_scheme) kmon" where
  "sys_kthread_cond_broadcast = bnd (argint_or 0 0) (\<lambda>condvar. condvar_broadcast (sint condvar))"

definition sys_kthread_exit :: "(int, 'z kst_scheme) kmon" where
  "sys_kthread_exit =
     bnd (argint_or 0 0) (\<lambda>retval.
     thn (updme (\<lambda>q. q\<lparr>p_threadretval := sint retval\<rparr>))
     (thn exit
     (ret 0)))"

end
