(* ===== verification/Exec.thy ===== *)
theory Exec
  imports Syscall
begin

text \<open>
  Loading a program: \<open>exec\<close> of \<^verbatim>\<open>exec.c\<close> with the headers of \<^verbatim>\<open>elf.h\<close>, and \<open>loaduvm\<close> of
  \<^verbatim>\<open>vm.c\<close>, which reads a segment from a file. The argument strings are given by their bytes.
\<close>

record elfhdr =
  e_magic :: u32
  e_entry :: u32
  e_phoff :: u32
  e_phnum :: u16

definition dec_elfhdr :: "u8 list \<Rightarrow> elfhdr" where
  "dec_elfhdr x = \<lparr>e_magic = of_le32 (bytes_at 0 4 x), e_entry = of_le32 (bytes_at 24 4 x),
     e_phoff = of_le32 (bytes_at 28 4 x), e_phnum = of_le16 (bytes_at 44 2 x)\<rparr>"

record proghdr =
  ph_type :: u32
  ph_off :: u32
  ph_vaddr :: u32
  ph_filesz :: u32
  ph_memsz :: u32

definition dec_proghdr :: "u8 list \<Rightarrow> proghdr" where
  "dec_proghdr x = \<lparr>ph_type = of_le32 (bytes_at 0 4 x), ph_off = of_le32 (bytes_at 4 4 x),
     ph_vaddr = of_le32 (bytes_at 8 4 x), ph_filesz = of_le32 (bytes_at 16 4 x), ph_memsz = of_le32 (bytes_at 20 4 x)\<rparr>"

abbreviation (input) ELF_MAGIC :: u32 where "ELF_MAGIC \<equiv> 0x464C457F"

text \<open>The page numbers from \<open>addr\<close> on; the index of the code wraps to zero on a last partial page.\<close>

fun loaduvm_loop :: "u32 \<Rightarrow> u32 \<Rightarrow> nat \<Rightarrow> u32 \<Rightarrow> u32 \<Rightarrow> nat list \<Rightarrow> (int, 'z consst_scheme) kmon" where
  "loaduvm_loop pgdir addr ip offset sz [] = (if sz \<le> 0xfffff000 then ret 0 else (\<lambda>s. Spn))"
| "loaduvm_loop pgdir addr ip offset sz (k # ks) =
     (let i = of_nat (4096 * k) in
      bnd (walkpgdir pgdir (addr + i) False) (\<lambda>pte.
        if pte = 0 then panic ''loaduvm: address should exist''
        else
          bnd (rd32 pte) (\<lambda>e.
          let pa = PTE_ADDR e; n = (if sz - i < PGSIZE then sz - i else PGSIZE) in
          bnd (readi ip (offset + i) n) (\<lambda>(r, bs).
          thn (upd_mem (\<lambda>m. mwr m (p2v pa) bs))
          (if of_int r \<noteq> n then ret (-1) else loaduvm_loop pgdir addr ip offset sz ks)))))"

definition loaduvm :: "u32 \<Rightarrow> u32 \<Rightarrow> nat \<Rightarrow> u32 \<Rightarrow> u32 \<Rightarrow> (int, 'z consst_scheme) kmon" where
  "loaduvm pgdir addr ip offset sz =
     (if addr mod PGSIZE \<noteq> 0 then panic ''loaduvm: addr must be page aligned''
      else loaduvm_loop pgdir addr ip offset sz [0..<(unat sz + 4095) div 4096])"

text \<open>The program headers: the size of the image, or \<open>None\<close> where the code goes to \<open>bad\<close>.\<close>

fun exec_load :: "nat \<Rightarrow> nat \<Rightarrow> u32 \<Rightarrow> u32 \<Rightarrow> u32 \<Rightarrow> (u32 option, 'z consst_scheme) kmon" where
  "exec_load 0 ip pgdir off sz = ret (Some sz)"
| "exec_load (Suc n) ip pgdir off sz =
     bnd (readi ip off 32) (\<lambda>(r, bs).
       if r \<noteq> 32 then ret None
       else
         let ph = dec_proghdr bs in
         if ph_type ph \<noteq> 1 then exec_load n ip pgdir (off + 32) sz
         else if ph_memsz ph < ph_filesz ph then ret None
         else
           bnd (allocuvm pgdir sz (ph_vaddr ph + ph_memsz ph)) (\<lambda>sz.
             if sz = 0 then ret None
             else
               bnd (loaduvm pgdir (ph_vaddr ph) ip (ph_off ph) (ph_filesz ph)) (\<lambda>l.
                 if l < 0 then ret None else exec_load n ip pgdir (off + 32) sz)))"

text \<open>The argument strings on the new stack, each aligned to a word: the addresses and the new stack pointer.\<close>

fun exec_args :: "u32 \<Rightarrow> nat \<Rightarrow> u32 \<Rightarrow> u8 list list \<Rightarrow> ((u32 list \<times> u32) option, 'z consst_scheme) kmon" where
  "exec_args pgdir argc esp [] = ret (Some ([], esp))"
| "exec_args pgdir argc esp (a # as) =
     (if argc \<ge> MAXARG then ret None
      else
        let esp = (esp - (of_nat (length a) + 1)) AND NOT 3 in
        bnd (copyout pgdir esp (a @ [0])) (\<lambda>c.
          if c < 0 then ret None
          else
            bnd (exec_args pgdir (Suc argc) esp as) (\<lambda>r.
              ret (map_option (\<lambda>(us, esp1). (esp # us, esp1)) r))))"

text \<open>The name after the last slash of the path.\<close>

definition last_elem :: "u8 list \<Rightarrow> u8 list" where
  "last_elem path = rev (takeWhile (\<lambda>c. c \<noteq> 47) (rev path))"

definition exec_bad :: "u32 \<Rightarrow> nat option \<Rightarrow> (int, 'z kst_scheme) kmon" where
  "exec_bad pgdir ip =
     thn (if pgdir \<noteq> 0 then freevm pgdir else skip)
     (thn (case ip of Some i \<Rightarrow> thn (iunlockput i) end_op | None \<Rightarrow> skip)
     (ret (-1)))"

text \<open>The stack of the new image, after the program is loaded up to \<open>sz\<close>.\<close>

definition exec_stack :: "u8 list \<Rightarrow> u8 list list \<Rightarrow> elfhdr \<Rightarrow> u32 \<Rightarrow> u32 \<Rightarrow> (int, 'z kst_scheme) kmon" where
  "exec_stack path argv elf pgdir sz =
     bnd (allocuvm pgdir (PGROUNDUP sz) (PGROUNDUP sz + 2 * PGSIZE)) (\<lambda>sz.
       if sz = 0 then exec_bad pgdir None
       else
         thn (clearpteu pgdir (sz - 2 * PGSIZE))
         (bnd (exec_args pgdir 0 sz argv) (\<lambda>r.
           case r of
             None \<Rightarrow> exec_bad pgdir None
           | Some (us, esp) \<Rightarrow>
               let argc = of_nat (length argv);
                   ustack = [0xffffffff, argc, esp - (argc + 1) * 4] @ us @ [0];
                   esp = esp - (3 + argc + 1) * 4
               in
               bnd (copyout pgdir esp (concat (map le32 ustack))) (\<lambda>c.
                 if c < 0 then exec_bad pgdir None
                 else
                   thn (updme (set_name (last_elem path)))
                   (bnd me (\<lambda>p.
                    thn (updme (\<lambda>q. q\<lparr>p_pgdir := pgdir, p_sz := sz,
                       p_tf := (p_tf q)\<lparr>tf_eip := e_entry elf, tf_esp := esp\<rparr>\<rparr>))
                    (thn (bnd myproc switchuvm)
                    (thn (freevm (p_pgdir p))
                    (ret 0)))))))))"

text \<open>
  The length of the header is compared as an unsigned number, so that a \<open>readi\<close> that fails with -1
  passes the test and leaves the header undefined.
\<close>

definition exec :: "u8 list \<Rightarrow> u8 list list \<Rightarrow> (int, 'z kst_scheme) kmon" where
  "exec path argv =
     thn begin_op
     (bnd (namei path) (\<lambda>r.
       case r of
         None \<Rightarrow> thn end_op (ret (-1))
       | Some ip \<Rightarrow>
           thn (ilock ip)
           (bnd (readi ip 0 52) (\<lambda>(r, bs).
             if (of_int r :: u32) < 52 then exec_bad 0 (Some ip)
             else if length bs < 52 then undefd
             else
               let elf = dec_elfhdr bs in
               if e_magic elf \<noteq> ELF_MAGIC then exec_bad 0 (Some ip)
               else
                 bnd setupkvm (\<lambda>pgdir.
                   if pgdir = 0 then exec_bad 0 (Some ip)
                   else
                     bnd (exec_load (unat (e_phnum elf)) ip pgdir (e_phoff elf) 0) (\<lambda>l.
                       case l of
                         None \<Rightarrow> exec_bad pgdir (Some ip)
                       | Some sz \<Rightarrow>
                           thn (iunlockput ip)
                           (thn end_op
                           (exec_stack path argv elf pgdir sz))))))))"

end
