(* ===== verification/Sysfile.thy ===== *)
theory Sysfile
  imports Exec
begin

text \<open>
  The system calls on files (\<^verbatim>\<open>sysfile.c\<close>). A pointer to a file, an inode or an argument that the
  code makes zero or reports by -1 is \<open>None\<close>. The buffer of \<open>sys_write\<close> is read before and the one of
  \<open>sys_read\<close> written after the work on the file.
\<close>

section \<open>Descriptors\<close>

definition argfd :: "nat \<Rightarrow> ((nat \<times> nat) option, 'z kst_scheme) kmon" where
  "argfd n =
     bnd (argint n) (\<lambda>r.
       case r of
         None \<Rightarrow> ret None
       | Some fd \<Rightarrow>
           if sint fd < 0 \<or> sint fd \<ge> int NOFILE then ret None
           else bnd me (\<lambda>p. ret (map_option (\<lambda>f. (unat fd, f)) (p_ofile p ! unat fd))))"

definition set_ofile :: "nat \<Rightarrow> nat option \<Rightarrow> proc \<Rightarrow> proc" where
  "set_ofile fd f q = q\<lparr>p_ofile := (p_ofile q)[fd := f]\<rparr>"

definition fdalloc :: "nat \<Rightarrow> (nat option, 'z procst_scheme) kmon" where
  "fdalloc f =
     bnd me (\<lambda>p.
       case find_idx (\<lambda>x. x = None) (take NOFILE (p_ofile p)) of
         None \<Rightarrow> ret None
       | Some fd \<Rightarrow> thn (updme (set_ofile fd (Some f))) (ret (Some fd)))"

definition sys_dup :: "(int, 'z kst_scheme) kmon" where
  "sys_dup =
     bnd (argfd 0) (\<lambda>r.
       case r of
         None \<Rightarrow> ret (-1)
       | Some (_, f) \<Rightarrow>
           bnd (fdalloc f) (\<lambda>r.
             case r of
               None \<Rightarrow> ret (-1)
             | Some fd \<Rightarrow> thn (bnd (filedup f) (\<lambda>_. skip)) (ret (int fd))))"

text \<open>The three arguments of \<open>sys_read\<close> and \<open>sys_write\<close>, in the order of the checks.\<close>

definition arg_rw :: "((nat \<times> u32 \<times> u32) option, 'z kst_scheme) kmon" where
  "arg_rw =
     bnd (argfd 0) (\<lambda>r.
       case r of
         None \<Rightarrow> ret None
       | Some (_, f) \<Rightarrow>
           bnd (argint 2) (\<lambda>r.
             case r of
               None \<Rightarrow> ret None
             | Some n \<Rightarrow> bnd (argptr 1 n) (\<lambda>r. ret (map_option (\<lambda>p. (f, p, n)) r))))"

definition sys_read :: "(int, 'z kst_scheme) kmon" where
  "sys_read =
     bnd arg_rw (\<lambda>a.
       case a of
         None \<Rightarrow> ret (-1)
       | Some (f, p, n) \<Rightarrow>
           bnd (fileread f (sint n)) (\<lambda>(r, bs).
           thn (ustore p bs)
           (ret r)))"

definition sys_write :: "(int, 'z kst_scheme) kmon" where
  "sys_write =
     bnd arg_rw (\<lambda>a.
       case a of
         None \<Rightarrow> ret (-1)
       | Some (f, p, n) \<Rightarrow>
           bnd (uload p (nat (sint n))) (\<lambda>bs.
           filewrite f bs (sint n)))"

text \<open>The descriptor of the caller, and for a thread also that of its parent, is cleared before the file is closed.\<close>

definition close_fd :: "nat \<Rightarrow> nat \<Rightarrow> (int, 'z kst_scheme) kmon" where
  "close_fd fd f =
     thn (updme (set_ofile fd None))
     (bnd me (\<lambda>p.
      thn (if p_type p = 1 then bnd (deref (p_parent p)) (\<lambda>pa. updp pa (set_ofile fd None)) else skip)
      (thn (fileclose f False)
      (ret 0))))"

definition sys_close :: "(int, 'z kst_scheme) kmon" where
  "sys_close =
     bnd (argfd 0) (\<lambda>r.
       case r of
         None \<Rightarrow> ret (-1)
       | Some (fd, f) \<Rightarrow> close_fd fd f)"

text \<open>\<open>struct stat\<close> has two bytes of padding after \<open>type\<close> and \<open>nlink\<close>, which are not written.\<close>

definition put_stat :: "u32 \<Rightarrow> stat \<Rightarrow> (unit, 'z memst_scheme) kmon" where
  "put_stat a st =
     thn (ustore (a + 4) (le32 (st_dev st)))
     (thn (ustore (a + 8) (le32 (st_ino st)))
     (thn (ustore a (le16 (st_type st)))
     (thn (ustore (a + 12) (le16 (st_nlink st)))
     (ustore (a + 16) (le32 (st_size st))))))"

definition sys_fstat :: "(int, 'z kst_scheme) kmon" where
  "sys_fstat =
     bnd (argfd 0) (\<lambda>r.
       case r of
         None \<Rightarrow> ret (-1)
       | Some (_, f) \<Rightarrow>
           bnd (argptr 1 20) (\<lambda>r.
             case r of
               None \<Rightarrow> ret (-1)
             | Some a \<Rightarrow>
                 bnd (filestat f) (\<lambda>(r, st).
                 thn (case st of None \<Rightarrow> skip | Some st \<Rightarrow> put_stat a st)
                 (ret r))))"

section \<open>Links\<close>

definition add_nlink :: "u16 \<Rightarrow> inode \<Rightarrow> inode" where
  "add_nlink k x = x\<lparr>i_nlink := i_nlink x + k\<rparr>"

definition link_bad :: "nat \<Rightarrow> (int, 'z kst_scheme) kmon" where
  "link_bad ip =
     thn (ilock ip)
     (thn (updi ip (add_nlink (-1)))
     (thn (iupdate ip)
     (thn (iunlockput ip)
     (thn end_op
     (ret (-1))))))"

definition sys_link :: "(int, 'z kst_scheme) kmon" where
  "sys_link =
     bnd (argstr 0) (\<lambda>r. case r of None \<Rightarrow> ret (-1) | Some old \<Rightarrow>
     bnd (argstr 1) (\<lambda>r. case r of None \<Rightarrow> ret (-1) | Some new \<Rightarrow>
     thn begin_op
     (bnd (namei old) (\<lambda>r.
       case r of
         None \<Rightarrow> thn end_op (ret (-1))
       | Some ip \<Rightarrow>
           thn (ilock ip)
           (bnd (geti ip) (\<lambda>x.
             if i_type x = T_DIR then thn (iunlockput ip) (thn end_op (ret (-1)))
             else
               thn (updi ip (add_nlink 1))
               (thn (iupdate ip)
               (thn (iunlock ip)
               (bnd (nameiparent new) (\<lambda>r.
                 case r of
                   None \<Rightarrow> link_bad ip
                 | Some (dp, name) \<Rightarrow>
                     thn (ilock dp)
                     (bnd (geti dp) (\<lambda>y.
                      bnd (geti ip) (\<lambda>x.
                      bnd (if i_dev y \<noteq> i_dev x then ret (-1) else dirlink dp name (i_inum x)) (\<lambda>l.
                        if l < 0 then thn (iunlockput dp) (link_bad ip)
                        else
                          thn (iunlockput dp)
                          (thn (iput ip)
                          (thn end_op
                          (ret 0)))))))))))))))))"

fun isdirempty_loop :: "nat \<Rightarrow> u32 list \<Rightarrow> (bool, 'z consst_scheme) kmon" where
  "isdirempty_loop dp [] = ret True"
| "isdirempty_loop dp (off # offs) =
     bnd (readi dp off 16) (\<lambda>(r, bs).
       if r \<noteq> 16 then panic ''isdirempty: readi''
       else if de_inum (dec_dirent bs) \<noteq> 0 then ret False
       else isdirempty_loop dp offs)"

definition isdirempty :: "nat \<Rightarrow> (bool, 'z consst_scheme) kmon" where
  "isdirempty dp = bnd (geti dp) (\<lambda>x. isdirempty_loop dp (drop 2 (dir_offs (i_size x))))"

definition unlink_bad :: "nat \<Rightarrow> (int, 'z kst_scheme) kmon" where
  "unlink_bad dp = thn (iunlockput dp) (thn end_op (ret (-1)))"

text \<open>The rest of \<open>sys_unlink\<close> with both inodes locked and the entry of \<open>ip\<close> at \<open>off\<close> in \<open>dp\<close>.\<close>

definition unlink_entry :: "nat \<Rightarrow> nat \<Rightarrow> u32 \<Rightarrow> (int, 'z kst_scheme) kmon" where
  "unlink_entry dp ip off =
     bnd (writei dp (replicate 16 0) off) (\<lambda>w.
       if w \<noteq> 16 then panic ''unlink: writei''
       else
         bnd (geti ip) (\<lambda>x.
         thn (if i_type x = T_DIR then thn (updi dp (add_nlink (-1))) (iupdate dp) else skip)
         (thn (iunlockput dp)
         (thn (updi ip (add_nlink (-1)))
         (thn (iupdate ip)
         (thn (iunlockput ip)
         (thn end_op
         (ret 0))))))))"

definition sys_unlink :: "(int, 'z kst_scheme) kmon" where
  "sys_unlink =
     bnd (argstr 0) (\<lambda>r. case r of None \<Rightarrow> ret (-1) | Some path \<Rightarrow>
     thn begin_op
     (bnd (nameiparent path) (\<lambda>r.
       case r of
         None \<Rightarrow> thn end_op (ret (-1))
       | Some (dp, name) \<Rightarrow>
           thn (ilock dp)
           (if namecmp name (str8 ''.'') = 0 \<or> namecmp name (str8 ''..'') = 0 then unlink_bad dp
            else
              bnd (dirlookup dp name) (\<lambda>r.
                case r of
                  None \<Rightarrow> unlink_bad dp
                | Some (ip, off) \<Rightarrow>
                    thn (ilock ip)
                    (bnd (geti ip) (\<lambda>x.
                      if sint (i_nlink x) < 1 then panic ''unlink: nlink < 1''
                      else
                        bnd (if i_type x = T_DIR then isdirempty ip else ret True) (\<lambda>e.
                          if \<not> e then thn (iunlockput ip) (unlink_bad dp)
                          else unlink_entry dp ip off))))))))"

section \<open>Creating and opening\<close>

definition create_new :: "nat \<Rightarrow> u8 list \<Rightarrow> u16 \<Rightarrow> u16 \<Rightarrow> u16 \<Rightarrow> (nat option, 'z consst_scheme) kmon" where
  "create_new dp name ty major minor =
     bnd (geti dp) (\<lambda>d.
     bnd (ialloc (i_dev d) ty) (\<lambda>ip.
     thn (ilock ip)
     (thn (updi ip (\<lambda>x. x\<lparr>i_major := major, i_minor := minor, i_nlink := 1\<rparr>))
     (thn (iupdate ip)
     (bnd (geti ip) (\<lambda>x.
      thn (if ty = T_DIR
           then
             thn (updi dp (add_nlink 1))
             (thn (iupdate dp)
             (bnd (dirlink ip (str8 ''.'') (i_inum x)) (\<lambda>l1.
              bnd (if l1 < 0 then ret (-1) else dirlink ip (str8 ''..'') (i_inum d)) (\<lambda>l2.
                if l2 < 0 then panic ''create dots'' else skip))))
           else skip)
      (bnd (dirlink dp name (i_inum x)) (\<lambda>l.
        if l < 0 then panic ''create: dirlink''
        else
          thn (iunlockput dp)
          (ret (Some ip))))))))))"

definition create :: "u8 list \<Rightarrow> u16 \<Rightarrow> u16 \<Rightarrow> u16 \<Rightarrow> (nat option, 'z consst_scheme) kmon" where
  "create path ty major minor =
     bnd (nameiparent path) (\<lambda>r.
       case r of
         None \<Rightarrow> ret None
       | Some (dp, name) \<Rightarrow>
           thn (ilock dp)
           (bnd (dirlookup dp name) (\<lambda>r.
             case r of
               Some (ip, _) \<Rightarrow>
                 thn (iunlockput dp)
                 (thn (ilock ip)
                 (bnd (geti ip) (\<lambda>x.
                   if ty = T_FILE \<and> i_type x = T_FILE then ret (Some ip)
                   else thn (iunlockput ip) (ret None))))
             | None \<Rightarrow> create_new dp name ty major minor)))"

text \<open>The inode that \<open>sys_open\<close> opens, locked.\<close>

definition open_inode :: "u8 list \<Rightarrow> u32 \<Rightarrow> (nat option, 'z consst_scheme) kmon" where
  "open_inode path omode =
     (if omode AND 0x200 \<noteq> 0 then create path T_FILE 0 0
      else
        bnd (namei path) (\<lambda>r.
          case r of
            None \<Rightarrow> ret None
          | Some ip \<Rightarrow>
              thn (ilock ip)
              (bnd (geti ip) (\<lambda>x.
                if i_type x = T_DIR \<and> omode \<noteq> 0 then thn (iunlockput ip) (ret None)
                else ret (Some ip)))))"

definition open_bad :: "nat \<Rightarrow> (int, 'z kst_scheme) kmon" where
  "open_bad ip = thn (iunlockput ip) (thn end_op (ret (-1)))"

definition sys_open :: "(int, 'z kst_scheme) kmon" where
  "sys_open =
     bnd (argstr 0) (\<lambda>r. case r of None \<Rightarrow> ret (-1) | Some path \<Rightarrow>
     bnd (argint 1) (\<lambda>r. case r of None \<Rightarrow> ret (-1) | Some omode \<Rightarrow>
     thn begin_op
     (bnd (open_inode path omode) (\<lambda>r.
       case r of
         None \<Rightarrow> thn end_op (ret (-1))
       | Some ip \<Rightarrow>
           bnd filealloc (\<lambda>r.
             case r of
               None \<Rightarrow> open_bad ip
             | Some f \<Rightarrow>
                 bnd (fdalloc f) (\<lambda>r.
                   case r of
                     None \<Rightarrow> thn (fileclose f False) (open_bad ip)
                   | Some fd \<Rightarrow>
                       thn (iunlock ip)
                       (thn end_op
                       (thn (updf f (\<lambda>x. x\<lparr>f_type := FD_INODE, f_ip := Some ip, f_off := 0,
                               f_readable := omode AND 1 = 0,
                               f_writable := omode AND 1 \<noteq> 0 \<or> omode AND 2 \<noteq> 0\<rparr>))
                       (ret (int fd))))))))))"

text \<open>The end of \<open>sys_mkdir\<close> and \<open>sys_mknod\<close>.\<close>

definition created :: "nat option \<Rightarrow> (int, 'z kst_scheme) kmon" where
  "created r =
     (case r of
        None \<Rightarrow> thn end_op (ret (-1))
      | Some ip \<Rightarrow>
          thn (iunlockput ip)
          (thn end_op
          (ret 0)))"

definition sys_mkdir :: "(int, 'z kst_scheme) kmon" where
  "sys_mkdir =
     thn begin_op
     (bnd (bnd (argstr 0) (\<lambda>r.
        case r of
          None \<Rightarrow> ret None
        | Some path \<Rightarrow> create path T_DIR 0 0)) created)"

definition sys_mknod :: "(int, 'z kst_scheme) kmon" where
  "sys_mknod =
     thn begin_op
     (bnd
       (bnd (argstr 0) (\<lambda>r. case r of None \<Rightarrow> ret None | Some path \<Rightarrow>
        bnd (argint 1) (\<lambda>r. case r of None \<Rightarrow> ret None | Some major \<Rightarrow>
        bnd (argint 2) (\<lambda>r. case r of None \<Rightarrow> ret None | Some minor \<Rightarrow>
        create path T_DEV (ucast major) (ucast minor)))))
       created)"

definition sys_chdir :: "(int, 'z kst_scheme) kmon" where
  "sys_chdir =
     thn begin_op
     (bnd (bnd (argstr 0) (\<lambda>r.
        case r of
          None \<Rightarrow> ret None
        | Some path \<Rightarrow> namei path)) (\<lambda>r.
       case r of
         None \<Rightarrow> thn end_op (ret (-1))
       | Some ip \<Rightarrow>
           thn (ilock ip)
           (bnd (geti ip) (\<lambda>x.
             if i_type x \<noteq> T_DIR then thn (iunlockput ip) (thn end_op (ret (-1)))
             else
               thn (iunlock ip)
               (bnd me (\<lambda>p.
                thn (bnd (deref (p_cwd p)) iput)
                (thn end_op
                (thn (updme (\<lambda>q. q\<lparr>p_cwd := Some ip\<rparr>))
                (ret 0)))))))))"

section \<open>Programs and pipes\<close>

fun exec_argv :: "u32 \<Rightarrow> nat list \<Rightarrow> (u8 list list option, 'z memst_scheme) kmon" where
  "exec_argv uargv [] = ret None"
| "exec_argv uargv (i # is) =
     bnd (fetchint (uargv + 4 * of_nat i)) (\<lambda>r.
       case r of
         None \<Rightarrow> ret None
       | Some uarg \<Rightarrow>
           if uarg = 0 then ret (Some [])
           else
             bnd (fetchstr uarg) (\<lambda>r.
               case r of
                 None \<Rightarrow> ret None
               | Some a \<Rightarrow> bnd (exec_argv uargv is) (\<lambda>r. ret (map_option (\<lambda>as. a # as) r))))"

definition sys_exec :: "(int, 'z kst_scheme) kmon" where
  "sys_exec =
     bnd (argstr 0) (\<lambda>r. case r of None \<Rightarrow> ret (-1) | Some path \<Rightarrow>
     bnd (argint 1) (\<lambda>r. case r of None \<Rightarrow> ret (-1) | Some uargv \<Rightarrow>
     bnd (exec_argv uargv [0..<MAXARG]) (\<lambda>r. case r of None \<Rightarrow> ret (-1) | Some argv \<Rightarrow>
     exec path argv)))"

definition pipe_bad :: "nat \<Rightarrow> nat \<Rightarrow> nat option \<Rightarrow> (int, 'z kst_scheme) kmon" where
  "pipe_bad rf wrf fd0 =
     thn (case fd0 of None \<Rightarrow> skip | Some fd \<Rightarrow> updme (set_ofile fd None))
     (thn (fileclose rf False)
     (thn (fileclose wrf False)
     (ret (-1))))"

definition sys_pipe :: "(int, 'z kst_scheme) kmon" where
  "sys_pipe =
     bnd (argptr 0 8) (\<lambda>r. case r of None \<Rightarrow> ret (-1) | Some fd \<Rightarrow>
     bnd pipealloc (\<lambda>r. case r of None \<Rightarrow> ret (-1) | Some (rf, wrf) \<Rightarrow>
     bnd (fdalloc rf) (\<lambda>r. case r of None \<Rightarrow> pipe_bad rf wrf None | Some fd0 \<Rightarrow>
     bnd (fdalloc wrf) (\<lambda>r. case r of None \<Rightarrow> pipe_bad rf wrf (Some fd0) | Some fd1 \<Rightarrow>
     thn (ustore32 fd (of_nat fd0))
     (thn (ustore32 (fd + 4) (of_nat fd1))
     (ret 0))))))"

end
