(* ===== verification/Trap.thy ===== *)
theory Trap
  imports Sysfile
begin

text \<open>
  The table of system calls (\<^verbatim>\<open>syscall.c\<close>) and the trap handler (\<^verbatim>\<open>trap.c\<close>). The characters that
  the keyboard or the serial line delivers and the register \<open>cr2\<close> come from the machine and are
  arguments; the end-of-interrupt message to the local APIC has no effect on the state.
\<close>

definition syscalls :: "((int, 'z kst_scheme) kmon) option list" where
  "syscalls =
     [None, Some sys_fork, Some sys_exit, Some sys_wait, Some sys_pipe, Some sys_read, Some sys_kill, Some sys_exec,
      Some sys_fstat, Some sys_chdir, Some sys_dup, Some sys_getpid, Some sys_sbrk, Some sys_sleep, Some sys_uptime,
      Some sys_open, Some sys_write, Some sys_mknod, Some sys_unlink, Some sys_link, Some sys_mkdir, Some sys_close,
      Some sys_kthread_join, Some sys_kthread_create, Some sys_kthread_mutex_init, Some sys_kthread_mutex_destroy,
      Some sys_kthread_mutex_lock, Some sys_kthread_mutex_unlock, Some sys_kthread_cond_init,
      Some sys_kthread_cond_destroy, Some sys_kthread_cond_wait, Some sys_kthread_cond_signal,
      Some sys_kthread_cond_broadcast, Some sys_kthread_exit, Some sys_kthread_saveretval,
      Some sys_kthread_fetchretval]"

definition set_eax :: "int \<Rightarrow> proc \<Rightarrow> proc" where
  "set_eax r q = q\<lparr>p_tf := (p_tf q)\<lparr>tf_eax := of_int r\<rparr>\<rparr>"

definition syscall :: "(unit, 'z kst_scheme) kmon" where
  "syscall =
     bnd me (\<lambda>p.
       let num = sint (tf_eax (p_tf p)); tab = syscalls in
       case (if 0 < num \<and> num < int (length tab) then tab ! nat num else None) of
         Some f \<Rightarrow> bnd f (\<lambda>r. updme (set_eax r))
       | None \<Rightarrow>
           thn (cprintf (str8 ''%d %s: unknown sys call %d'' @ [10])
                  [CInt (of_int (p_pid p)), CStr (Some (cstr (p_name p))), CInt (of_int num)])
           (updme (set_eax (-1))))"

definition tvinit :: "(unit, 'z kst_scheme) kmon" where
  "tvinit = modify (upd_lock Lticks (initlock (LkStr ''time'')))"

text \<open>The interrupt handler of the memory disk.\<close>

definition ideintr :: "(unit, 'z biost_scheme) kmon" where
  "ideintr = skip"

definition uartintr :: "int list \<Rightarrow> (unit, 'z consst_scheme) kmon" where
  "uartintr cs = bnd (gets uart) (\<lambda>u. consoleintr (if u then cs else []))"

definition killed_user :: "trapframe \<Rightarrow> (bool, 'z kst_scheme) kmon" where
  "killed_user tf =
     bnd (gets (\<lambda>s. cpu_proc (the_cpu s))) (\<lambda>p.
       case p of
         None \<Rightarrow> ret False
       | Some i \<Rightarrow> bnd (getp i) (\<lambda>q. ret (p_killed q \<and> tf_cs tf AND 3 = 3)))"

text \<open>One tick of the clock, on CPU 0.\<close>

definition clock_tick :: "(unit, 'z kst_scheme) kmon" where
  "clock_tick =
     thn (acquire Lticks)
     (thn (modify (\<lambda>s. s\<lparr>ticks := ticks s + 1\<rparr>))
     (thn (wakeup ChTicks)
     (release Lticks)))"

definition trap_default :: "u32 \<Rightarrow> trapframe \<Rightarrow> (unit, 'z kst_scheme) kmon" where
  "trap_default cr2 tf =
     bnd (gets the_cpu) (\<lambda>c.
       case (if tf_cs tf AND 3 = 0 then None else cpu_proc c) of
         None \<Rightarrow>
           thn (cprintf (str8 ''unexpected trap %d from cpu %d eip %x (cr2=0x%x)'' @ [10])
                  [CInt (tf_trapno tf), CInt (ucast (cpu_id c)), CInt (tf_eip tf), CInt cr2])
           (panic ''trap'')
       | Some i \<Rightarrow>
           bnd (getp i) (\<lambda>p.
           thn (cprintf (str8 ''pid %d %s: trap %d err %d on cpu %d eip 0x%x addr 0x%x--kill proc'' @ [10])
                  [CInt (of_int (p_pid p)), CStr (Some (cstr (p_name p))), CInt (tf_trapno tf), CInt (tf_err tf),
                   CInt (ucast (cpu_id c)), CInt (tf_eip tf), CInt cr2])
           (updp i (\<lambda>q. q\<lparr>p_killed := True\<rparr>))))"

definition trap_irq :: "int list \<Rightarrow> u32 \<Rightarrow> trapframe \<Rightarrow> (unit, 'z kst_scheme) kmon" where
  "trap_irq cs cr2 tf =
     (if tf_trapno tf = 32 + 0 then bnd (gets the_cpu) (\<lambda>c. if cpu_id c = 0 then clock_tick else skip)
      else if tf_trapno tf = 32 + 14 then ideintr
      else if tf_trapno tf = 32 + 14 + 1 then skip
      else if tf_trapno tf = 32 + 1 then consoleintr cs
      else if tf_trapno tf = 32 + 4 then uartintr cs
      else if tf_trapno tf = 32 + 7 \<or> tf_trapno tf = 32 + 31
      then bnd (gets the_cpu) (\<lambda>c.
             cprintf (str8 ''cpu%d: spurious interrupt at %x:%x'' @ [10])
               [CInt (ucast (cpu_id c)), CInt (ucast (tf_cs tf)), CInt (tf_eip tf)])
      else trap_default cr2 tf)"

text \<open>The end of \<open>trap\<close>: the last check, which also follows the return from \<open>yield\<close>.\<close>

definition trap_end :: "trapframe \<Rightarrow> (unit, 'z kst_scheme) kmon" where
  "trap_end tf = bnd (killed_user tf) (\<lambda>k. if k then exit else skip)"

definition trap_return :: "bool \<Rightarrow> trapframe \<Rightarrow> (unit, 'z kst_scheme) kmon" where
  "trap_return ie tf = thn (yield_return ie) (trap_end tf)"

definition exit_if_killed :: "(unit, 'z kst_scheme) kmon" where
  "exit_if_killed = bnd killed (\<lambda>k. if k then exit else skip)"

definition trap :: "int list \<Rightarrow> u32 \<Rightarrow> trapframe \<Rightarrow> (unit, 'z kst_scheme) kmon" where
  "trap cs cr2 tf =
     (if tf_trapno tf = 64
      then
        thn exit_if_killed
        (thn (updme (\<lambda>q. q\<lparr>p_tf := tf\<rparr>))
        (thn syscall
        exit_if_killed))
      else
        thn (trap_irq cs cr2 tf)
        (thn (trap_end tf)
        (thn (bnd (gets (\<lambda>s. cpu_proc (the_cpu s))) (\<lambda>p.
                case p of
                  None \<Rightarrow> skip
                | Some i \<Rightarrow> bnd (getp i) (\<lambda>q. if p_state q = RUNNING \<and> tf_trapno tf = 32 + 0 then yield else skip)))
        (trap_end tf))))"

end
