(* ===== verification/Kexample.thy ===== *)
theory Kexample
  imports Process
begin

text \<open>
  A concrete state of the whole kernel, on which the theorems about it are instantiated: three
  processes of which the second runs, a small disk with its log, and empty tables of inodes, files and
  pipes. The counters of the pipes are about to wrap around.
\<close>

definition inode_zero :: inode where
  "inode_zero = \<lparr>i_dev = 0, i_inum = 0, i_ref = 0, i_busy = False, i_valid = False, i_type = 0, i_major = 0, i_minor = 0,
     i_nlink = 0, i_size = 0, i_addrs = replicate 13 0\<rparr>"

definition kfile_zero :: kfile where
  "kfile_zero = \<lparr>f_type = FD_NONE, f_ref = 0, f_readable = False, f_writable = False, f_pipe = 0, f_ip = None, f_off = 0\<rparr>"

definition pipe_zero :: pipe where
  "pipe_zero = \<lparr>pp_data = replicate 512 0, pp_nread = 0xfffffffe, pp_nwrite = 0xfffffffe, pp_readopen = True, pp_writeopen = True\<rparr>"

definition fsst_ex :: fsst where
  "fsst_ex = logst.extend logst_ex (fsst.fields (replicate 50 inode_zero))"

definition consst_ex :: consst where
  "consst_ex = fsst.extend fsst_ex (consst.fields True False True [] 0 (\<lambda>_. 0) (replicate 128 0) 0 0 0
     (replicate 10 \<lparr>dev_read = None, dev_write = None\<rparr>))"

definition filest_ex :: filest where
  "filest_ex = consst.extend consst_ex (filest.fields (replicate 100 kfile_zero) (\<lambda>_. pipe_zero))"

definition kst_ex :: kst where
  "kst_ex = filest.extend filest_ex (kst.fields 7 False 0x80103000 0x80104000)"

lemmas ex_defs = kst_ex_def kst.defs filest_ex_def filest.defs consst_ex_def consst.defs fsst_ex_def fsst.defs logst.defs

lemma kst_ex_simps [simp]:
  "lk_free l kst_ex" "cli_ok kst_ex" "the_cpu kst_ex = the_cpu procst_ex" "ptable kst_ex = ptable procst_ex"
  "ftable kst_ex = replicate 100 kfile_zero" "pipes kst_ex = (\<lambda>_. pipe_zero)" "icache kst_ex = replicate 50 inode_zero"
  "lg kst_ex = lg logst_ex" "ticks kst_ex = 7"
proof -
  have "lk_free l kst_ex = lk_free l logst_ex" "cli_ok kst_ex = cli_ok logst_ex" "the_cpu kst_ex = the_cpu logst_ex"
    "ptable kst_ex = ptable logst_ex"
    by (simp_all add: ex_defs lk_defs)
  then show "lk_free l kst_ex" "cli_ok kst_ex" "the_cpu kst_ex = the_cpu procst_ex" "ptable kst_ex = ptable procst_ex"
    using biost_up_proc by simp_all
qed (simp_all add: ex_defs)

lemma kst_ex_runs [simp]: "runs (Suc 0) kst_ex" "ncli (the_cpu procst_ex) = 0"
  using procst_ex_ok(3) by (simp_all add: runs_def procst_ex_fields)

lemma kst_ex_more: "cpus kst_ex = cpus procst_ex" "initproc kst_ex = Some 0" "disk kst_ex = disk_ex" "mem kst_ex = mem memst_ex"
  "freelist kst_ex = 0x80202000" "kend kst_ex = 0x80200000" "use_lock kst_ex"
proof -
  obtain bs where "binit biost_ex = Ret () ((upd_lock Lbcache (initlock (LkStr ''bcache'')) biost_ex)\<lparr>bufs := bs\<rparr>)"
    using wpDu[OF binit_wp[of biost_ex]] biost_ex_pre(1,2) by auto
  then have up: "biost_up = (upd_lock Lbcache (initlock (LkStr ''bcache'')) biost_ex)\<lparr>bufs := bs\<rparr>" by (simp add: biost_up_def)
  show "cpus kst_ex = cpus procst_ex" "initproc kst_ex = Some 0" "disk kst_ex = disk_ex" "mem kst_ex = mem memst_ex"
    "freelist kst_ex = 0x80202000" "kend kst_ex = 0x80200000" "use_lock kst_ex"
    by (simp_all add: ex_defs logst_ex_def logst.defs biost.defs up upd_lock_def biost_ex_def memst.defs memst_ex_def procst.defs procst_ex_def lockst.defs)
qed

end
