(* ===== verification/Ring.thy ===== *)
theory Ring
  imports Params
begin

text \<open>
  Ring buffers with free-running 32-bit counters, as pipes and the console input have them: the byte
  with count \<open>c\<close> lies at index \<open>c % N\<close>, and the counters wrap around at \<open>2^32\<close>.
\<close>

section \<open>The bytes between two counters\<close>

definition ring :: "u8 list \<Rightarrow> u32 \<Rightarrow> u32 \<Rightarrow> u8 list" where
  "ring d r w = map (\<lambda>i. d ! unat ((r + of_nat i) mod of_nat (length d))) [0..<unat (w - r)]"

lemma length_ring [simp]: "length (ring d r w) = unat (w - r)"
  by (simp add: ring_def)

lemma ring_empty [simp]: "ring d r r = []"
  by (simp add: ring_def)

lemma ring_Nil_iff: "ring d r w = [] \<longleftrightarrow> r = w"
  by (auto simp: ring_def unat_eq_0)

lemma unat_add_one: "unat (x :: u32) < 4294967295 \<Longrightarrow> unat (x + 1) = Suc (unat x)"
  by (simp add: unat_word_ariths)

lemma unat_gap:
  fixes r w :: u32
  shows "unat (w - r) < 4294967295 \<Longrightarrow> unat (w + 1 - r) = Suc (unat (w - r))"
    and "r \<noteq> w \<Longrightarrow> Suc (unat (w - (r + 1))) = unat (w - r)"
    and "r \<noteq> w \<Longrightarrow> Suc (unat (w - 1 - r)) = unat (w - r)"
proof -
  show "unat (w - r) < 4294967295 \<Longrightarrow> unat (w + 1 - r) = Suc (unat (w - r))"
    using unat_add_one[of "w - r"] by (simp add: algebra_simps)
  have "Suc (unat (w - r - 1)) = unat (w - r)" if "r \<noteq> w"
    using that unat_gt_0[of "w - r"] by (simp add: unat_pred)
  then show "r \<noteq> w \<Longrightarrow> Suc (unat (w - (r + 1))) = unat (w - r)"
    and "r \<noteq> w \<Longrightarrow> Suc (unat (w - 1 - r)) = unat (w - r)"
    by (simp_all add: algebra_simps)
qed

section \<open>Rings of a size that divides the range of the counters\<close>

locale ring_buffer =
  fixes N :: nat
  assumes size_dvd: "N dvd 4294967296" and size_less: "N < 4294967296"
begin

lemma size_pos: "0 < N"
  using size_dvd by (cases N) auto

lemma index: "unat ((r + of_nat i :: u32) mod of_nat N) = (unat r + i) mod N"
proof -
  have "unat (of_nat N :: u32) = N" using size_less by (simp add: unat_of_nat)
  then have "unat ((r + of_nat i) mod of_nat N) = unat (r + of_nat i) mod N" by (simp add: unat_mod)
  also have "unat (r + of_nat i) = (unat r + i) mod 4294967296"
    by (simp add: unat_word_ariths unat_of_nat mod_simps)
  finally show ?thesis using mod_mod_cancel[OF size_dvd] by simp
qed

lemma index0: "unat ((r :: u32) mod of_nat N) = unat r mod N"
  using index[of r 0] by simp

lemma index_less: "unat ((r :: u32) mod of_nat N) < N"
  by (simp add: index0 size_pos)

lemma index_end: "unat ((w :: u32) mod of_nat N) = (unat r + unat (w - r)) mod N"
  using index[of r "unat (w - r)"] by simp

lemma ring_nth: "length d = N \<Longrightarrow> i < unat (w - r) \<Longrightarrow> ring d r w ! i = d ! ((unat r + i) mod N)"
  by (simp add: ring_def index)

text \<open>A slot outside the stretch in use may change.\<close>

lemma slot_free: "i < k \<Longrightarrow> k < N \<Longrightarrow> (a + i) mod N \<noteq> (a + k) mod N" for a :: nat
proof
  assume i: "i < k" "k < N" and e: "(a + i) mod N = (a + k) mod N"
  then have "N dvd (a + k) - (a + i)" using mod_eq_dvd_iff_nat[of "a + i" "a + k" N] by simp
  then show False using i nat_dvd_not_less[of "k - i" N] by simp
qed

lemma ring_put:
  assumes "length d = N" "unat (w - r) < N"
  shows "ring (d[unat (w mod of_nat N) := b]) r (w + 1) = ring d r w @ [b]"
proof (rule nth_equalityI)
  have g: "unat (w + 1 - r) = Suc (unat (w - r))" using unat_gap(1) assms(2) size_less by simp
  then show "length (ring (d[unat (w mod of_nat N) := b]) r (w + 1)) = length (ring d r w @ [b])" by simp
  fix i assume "i < length (ring (d[unat (w mod of_nat N) := b]) r (w + 1))"
  then have i: "i < Suc (unat (w - r))" using g by simp
  have e: "unat (w mod of_nat N) = (unat r + unat (w - r)) mod N" by (rule index_end)
  have l: "length (d[unat (w mod of_nat N) := b]) = N" using assms(1) by simp
  have "ring (d[unat (w mod of_nat N) := b]) r (w + 1) ! i = d[unat (w mod of_nat N) := b] ! ((unat r + i) mod N)"
    using ring_nth[OF l] i g by simp
  also have "\<dots> = (ring d r w @ [b]) ! i"
  proof (cases "i = unat (w - r)")
    case True
    then show ?thesis using assms(1) size_pos by (simp add: e nth_append)
  next
    case False
    then have j: "i < unat (w - r)" using i by simp
    then have "(unat r + unat (w - r)) mod N \<noteq> (unat r + i) mod N" using slot_free[OF j assms(2)] by metis
    then show ?thesis using j assms(1) by (simp add: e nth_append ring_nth)
  qed
  finally show "ring (d[unat (w mod of_nat N) := b]) r (w + 1) ! i = (ring d r w @ [b]) ! i" .
qed

lemma ring_get:
  assumes "length d = N" "r \<noteq> w"
  shows "ring d r w = d ! unat (r mod of_nat N) # ring d (r + 1) w"
proof (rule nth_equalityI)
  show "length (ring d r w) = length (d ! unat (r mod of_nat N) # ring d (r + 1) w)"
    using unat_gap(2)[OF assms(2)] by simp
  fix i assume i: "i < length (ring d r w)"
  show "ring d r w ! i = (d ! unat (r mod of_nat N) # ring d (r + 1) w) ! i"
  proof (cases i)
    case 0
    then show ?thesis using i assms(1) by (simp add: ring_nth index0)
  next
    case (Suc j)
    then have "j < unat (w - (r + 1))" using i unat_gap(2)[OF assms(2)] by simp
    moreover have "(r + 1) + of_nat j = r + of_nat i" using Suc by (simp add: algebra_simps)
    ultimately show ?thesis using i Suc assms(1) by (simp add: ring_def algebra_simps)
  qed
qed

lemma ring_unput:
  assumes "length d = N" "r \<noteq> w"
  shows "ring d r (w - 1) = butlast (ring d r w)"
proof -
  have "unat (w - r) = Suc (unat (w - 1 - r))" using unat_gap(3)[OF assms(2)] by simp
  then show ?thesis by (simp add: ring_def)
qed

end

interpretation pipe_ring: ring_buffer 512
  by unfold_locales simp_all

interpretation input_ring: ring_buffer 128
  by unfold_locales simp_all

end
