(* ===== verification/Pipefifo.thy ===== *)
theory Pipefifo
  imports Kexample Ring
begin

text \<open>
  A pipe is a bounded queue of bytes: \<open>pipewrite\<close> appends to it and \<open>piperead\<close> takes from its front,
  whatever the values of the two wrapping counters.
\<close>

section \<open>The queue of a pipe\<close>

definition pipe_ok :: "pipe \<Rightarrow> bool" where
  "pipe_ok x \<longleftrightarrow> length (pp_data x) = PIPESIZE \<and> unat (pp_nwrite x - pp_nread x) \<le> PIPESIZE"

definition pipe_bytes :: "pipe \<Rightarrow> u8 list" where
  "pipe_bytes x = ring (pp_data x) (pp_nread x) (pp_nwrite x)"

definition same_ends :: "pipe \<Rightarrow> pipe \<Rightarrow> bool" where
  "same_ends x y \<longleftrightarrow> pp_readopen y = pp_readopen x \<and> pp_writeopen y = pp_writeopen x"

lemma filest_upd_locks [simp]:
  "lk_free l (s\<lparr>pipes := x\<rparr>) = lk_free l s" "lk_held l (s\<lparr>pipes := x\<rparr>) = lk_held l s"
  "holding l (s\<lparr>pipes := x\<rparr>) = holding l s" "cli_ok (s\<lparr>pipes := x\<rparr>) = cli_ok s"
  "the_cpu (s\<lparr>pipes := x\<rparr>) = the_cpu s"
  "lk_free l (s\<lparr>ftable := y\<rparr>) = lk_free l s" "lk_held l (s\<lparr>ftable := y\<rparr>) = lk_held l s"
  "holding l (s\<lparr>ftable := y\<rparr>) = holding l s" "cli_ok (s\<lparr>ftable := y\<rparr>) = cli_ok s"
  "the_cpu (s\<lparr>ftable := y\<rparr>) = the_cpu s"
  by (simp_all add: lk_defs)

lemma filest_upd_acq [simp]:
  "acq l (s\<lparr>pipes := x\<rparr>) = (acq l s)\<lparr>pipes := x\<rparr>" "rel l (s\<lparr>pipes := x\<rparr>) = (rel l s)\<lparr>pipes := x\<rparr>"
  "acq l (s\<lparr>ftable := y\<rparr>) = (acq l s)\<lparr>ftable := y\<rparr>" "rel l (s\<lparr>ftable := y\<rparr>) = (rel l s)\<lparr>ftable := y\<rparr>"
  "pipes (acq l s) = pipes s" "pipes (rel l s) = pipes s" "ftable (acq l s) = ftable s" "ftable (rel l s) = ftable s"
  by (simp_all add: acq_def rel_def)

lemma quiet_filest [simp]: "quiet s (t\<lparr>pipes := x\<rparr>) = quiet s t" "quiet s (t\<lparr>ftable := y\<rparr>) = quiet s t"
  by (simp_all add: quiet_def)

lemma pipe_full_iff: "pp_nwrite x = pp_nread x + 512 \<longleftrightarrow> length (pipe_bytes x) = PIPESIZE"
proof -
  have "pp_nwrite x = pp_nread x + 512 \<longleftrightarrow> pp_nwrite x - pp_nread x = 512" by (simp add: diff_eq_eq add.commute)
  also have "\<dots> \<longleftrightarrow> unat (pp_nwrite x - pp_nread x) = unat (512 :: u32)" by (rule word_unat_eq_iff)
  finally show ?thesis by (simp add: pipe_bytes_def)
qed

lemma pipe_put:
  assumes "pipe_ok x" "length (pipe_bytes x) < PIPESIZE"
  shows "pipe_ok (x\<lparr>pp_data := (pp_data x)[unat (pp_nwrite x mod 512) := b], pp_nwrite := pp_nwrite x + 1\<rparr>)"
    and "pipe_bytes (x\<lparr>pp_data := (pp_data x)[unat (pp_nwrite x mod 512) := b], pp_nwrite := pp_nwrite x + 1\<rparr>) = pipe_bytes x @ [b]"
  using assms pipe_ring.ring_put[of "pp_data x" "pp_nwrite x" "pp_nread x" b] unat_gap(1)[of "pp_nwrite x" "pp_nread x"]
  by (simp_all add: pipe_ok_def pipe_bytes_def)

lemma pipe_get:
  assumes "pipe_ok x" "pp_nread x \<noteq> pp_nwrite x"
  shows "pipe_ok (x\<lparr>pp_nread := pp_nread x + 1\<rparr>)"
    and "pipe_bytes x = pp_data x ! unat (pp_nread x mod 512) # pipe_bytes (x\<lparr>pp_nread := pp_nread x + 1\<rparr>)"
  using assms pipe_ring.ring_get[of "pp_data x" "pp_nread x" "pp_nwrite x"] unat_gap(2)[of "pp_nread x" "pp_nwrite x"]
  by (simp_all add: pipe_ok_def pipe_bytes_def)

section \<open>The loops\<close>

text \<open>While there is room, the loop of \<open>pipewrite\<close> puts its bytes at the end of the queue.\<close>

lemma pipewrite_loop_room:
  assumes "pipe_ok (pipes s p)" "length (pipe_bytes (pipes s p)) + length bs \<le> PIPESIZE"
  shows "\<exists>x. pipe_ok x \<and> pipe_bytes x = pipe_bytes (pipes s p) @ bs \<and> same_ends (pipes s p) x \<and>
    pipewrite_loop p n (bs @ rest) s = pipewrite_loop p n rest (s\<lparr>pipes := (pipes s)(p := x)\<rparr>)"
  using assms
proof (induction bs arbitrary: s)
  case Nil
  have "s\<lparr>pipes := (pipes s)(p := pipes s p)\<rparr> = s" by simp
  with Nil show ?case by (intro exI[of _ "pipes s p"]) (simp add: same_ends_def)
next
  case (Cons b bs)
  let ?x = "(pipes s p)\<lparr>pp_data := (pp_data (pipes s p))[unat (pp_nwrite (pipes s p) mod 512) := b],
    pp_nwrite := pp_nwrite (pipes s p) + 1\<rparr>"
  let ?s = "s\<lparr>pipes := (pipes s)(p := ?x)\<rparr>"
  have room: "length (pipe_bytes (pipes s p)) < PIPESIZE" using Cons.prems(2) by simp
  note put = pipe_put[OF Cons.prems(1) room, of b]
  have "pipewrite_loop p n ((b # bs) @ rest) s = pipewrite_loop p n (bs @ rest) ?s"
    using room pipe_full_iff[of "pipes s p"] by (simp add: mon_defs getpipe_def updpipe_def)
  moreover have "pipe_ok (pipes ?s p)" "length (pipe_bytes (pipes ?s p)) + length bs \<le> PIPESIZE"
    using Cons.prems put by simp_all
  then obtain x where "pipe_ok x" "pipe_bytes x = pipe_bytes (pipes ?s p) @ bs" "same_ends (pipes ?s p) x"
    "pipewrite_loop p n (bs @ rest) ?s = pipewrite_loop p n rest (?s\<lparr>pipes := (pipes ?s)(p := x)\<rparr>)"
    using Cons.IH by blast
  ultimately show ?case using put(2) by (intro exI[of _ x]) (simp add: same_ends_def fun_upd_same del: fun_upd_apply pipewrite_loop.simps)
qed

lemma piperead_copy_takes:
  assumes "pipe_ok (pipes s p)"
  shows "\<exists>x. pipe_ok x \<and> pipe_bytes x = drop n (pipe_bytes (pipes s p)) \<and> same_ends (pipes s p) x \<and>
    piperead_copy p n s = Ret (take n (pipe_bytes (pipes s p))) (s\<lparr>pipes := (pipes s)(p := x)\<rparr>)"
  using assms
proof (induction n arbitrary: s)
  case 0
  have "s\<lparr>pipes := (pipes s)(p := pipes s p)\<rparr> = s" by simp
  with 0 show ?case by (intro exI[of _ "pipes s p"]) (simp add: same_ends_def mon_defs)
next
  case (Suc n)
  show ?case
  proof (cases "pp_nread (pipes s p) = pp_nwrite (pipes s p)")
    case True
    have "s\<lparr>pipes := (pipes s)(p := pipes s p)\<rparr> = s" by simp
    with True Suc.prems show ?thesis
      by (intro exI[of _ "pipes s p"]) (simp add: same_ends_def mon_defs getpipe_def pipe_bytes_def)
  next
    case False
    let ?x = "(pipes s p)\<lparr>pp_nread := pp_nread (pipes s p) + 1\<rparr>"
    let ?s = "s\<lparr>pipes := (pipes s)(p := ?x)\<rparr>"
    note get = pipe_get[OF Suc.prems False]
    have "pipe_ok (pipes ?s p)" using get(1) by simp
    then obtain x where "pipe_ok x" "pipe_bytes x = drop n (pipe_bytes (pipes ?s p))" "same_ends (pipes ?s p) x"
      "piperead_copy p n ?s = Ret (take n (pipe_bytes (pipes ?s p))) (?s\<lparr>pipes := (pipes ?s)(p := x)\<rparr>)"
      using Suc.IH by blast
    then show ?thesis using False
      by (intro exI[of _ x]) (simp add: get(2) same_ends_def mon_defs getpipe_def updpipe_def fun_upd_same del: fun_upd_apply)
  qed
qed

section \<open>Writing and reading\<close>

lemma crit_pipe:
  assumes "lk_free (Lpipe p) s" "lk_free Lptable s" "cli_ok s"
  shows "thn (wakeup ch) (thn (release (Lpipe p)) (ret r)) ((acq (Lpipe p) s)\<lparr>pipes := f\<rparr>) =
      Ret r ((rel (Lpipe p) (rel Lptable (acq Lptable (acq (Lpipe p) s))))\<lparr>ptable := map (wakeup_proc ch) (ptable s), pipes := f\<rparr>)"
    "quiet s ((rel (Lpipe p) (rel Lptable (acq Lptable (acq (Lpipe p) s))))\<lparr>ptable := map (wakeup_proc ch) (ptable s), pipes := f\<rparr>)"
proof -
  have "0 \<le> ncli (the_cpu s)" using assms(3) by (simp add: cli_ok_def)
  then show "thn (wakeup ch) (thn (release (Lpipe p)) (ret r)) ((acq (Lpipe p) s)\<lparr>pipes := f\<rparr>) =
      Ret r ((rel (Lpipe p) (rel Lptable (acq Lptable (acq (Lpipe p) s))))\<lparr>ptable := map (wakeup_proc ch) (ptable s), pipes := f\<rparr>)"
    using assms by (simp add: mon_defs release_held wakeup_Ret)
  show "quiet s ((rel (Lpipe p) (rel Lptable (acq Lptable (acq (Lpipe p) s))))\<lparr>ptable := map (wakeup_proc ch) (ptable s), pipes := f\<rparr>)"
    using quiet_woke[OF quiet_crit2[OF assms(1,2) _ assms(3)], of "map (wakeup_proc ch) (ptable s)"] by simp
qed

lemma pipewrite_room:
  assumes "pipe_ok (pipes s p)" "lk_free (Lpipe p) s" "lk_free Lptable s" "cli_ok s"
    "length (pipe_bytes (pipes s p)) + length bs \<le> PIPESIZE"
  shows "\<exists>t. pipewrite p bs n s = Ret n t \<and> quiet s t \<and> pipe_ok (pipes t p) \<and> same_ends (pipes s p) (pipes t p) \<and>
    pipe_bytes (pipes t p) = pipe_bytes (pipes s p) @ bs \<and> (\<forall>q. q \<noteq> p \<longrightarrow> pipes t q = pipes s q)"
proof -
  obtain x where x: "pipe_ok x" "pipe_bytes x = pipe_bytes (pipes s p) @ bs" "same_ends (pipes s p) x"
    "pipewrite_loop p n bs (acq (Lpipe p) s) = pipewrite_loop p n [] ((acq (Lpipe p) s)\<lparr>pipes := (pipes s)(p := x)\<rparr>)"
    using pipewrite_loop_room[of "acq (Lpipe p) s" p bs n "[]"] assms by auto
  let ?t = "(rel (Lpipe p) (rel Lptable (acq Lptable (acq (Lpipe p) s))))\<lparr>ptable := map (wakeup_proc (ChPread p)) (ptable s),
     pipes := (pipes s)(p := x)\<rparr>"
  have "pipewrite p bs n s = Ret n ?t"
    using x(4) crit_pipe(1)[OF assms(2-4)] assms(2) by (simp add: pipewrite_def mon_defs acquire_free)
  moreover have "quiet s ?t" by (rule crit_pipe(2)[OF assms(2-4)])
  ultimately show ?thesis using x(1-3) by (intro exI[of _ ?t]) simp
qed

lemma piperead_some:
  assumes "pipe_ok (pipes s p)" "lk_free (Lpipe p) s" "lk_free Lptable s" "cli_ok s"
    "pipe_bytes (pipes s p) \<noteq> [] \<or> \<not> pp_writeopen (pipes s p)"
  shows "\<exists>t. piperead p n s = Ret (int (min (length (pipe_bytes (pipes s p))) (nat n)), take (nat n) (pipe_bytes (pipes s p))) t \<and>
    quiet s t \<and> pipe_ok (pipes t p) \<and> same_ends (pipes s p) (pipes t p) \<and>
    pipe_bytes (pipes t p) = drop (nat n) (pipe_bytes (pipes s p)) \<and> (\<forall>q. q \<noteq> p \<longrightarrow> pipes t q = pipes s q)"
proof -
  obtain x where x: "pipe_ok x" "pipe_bytes x = drop (nat n) (pipe_bytes (pipes s p))" "same_ends (pipes s p) x"
    "piperead_copy p (nat n) (acq (Lpipe p) s) =
       Ret (take (nat n) (pipe_bytes (pipes s p))) ((acq (Lpipe p) s)\<lparr>pipes := (pipes s)(p := x)\<rparr>)"
    using piperead_copy_takes[of "acq (Lpipe p) s" p "nat n"] assms by auto
  let ?t = "(rel (Lpipe p) (rel Lptable (acq Lptable (acq (Lpipe p) s))))\<lparr>ptable := map (wakeup_proc (ChPwrite p)) (ptable s),
     pipes := (pipes s)(p := x)\<rparr>"
  have "pp_nread (pipes s p) \<noteq> pp_nwrite (pipes s p) \<or> \<not> pp_writeopen (pipes s p)"
    using assms(5) by (auto simp: pipe_bytes_def)
  then have "piperead_loop p n (acq (Lpipe p) s) =
      Ret (int (length (take (nat n) (pipe_bytes (pipes s p)))), take (nat n) (pipe_bytes (pipes s p))) ?t"
    by (elim disjE) (simp_all add: piperead_loop_def bnd_def getpipe_def gets_def x(4) crit_pipe(1)[OF assms(2-4)])
  then have "piperead p n s =
      Ret (int (min (length (pipe_bytes (pipes s p))) (nat n)), take (nat n) (pipe_bytes (pipes s p))) ?t"
    using assms(2) by (simp add: piperead_def mon_defs acquire_free)
  moreover have "quiet s ?t" by (rule crit_pipe(2)[OF assms(2-4)])
  ultimately show ?thesis using x(1-3) by (intro exI[of _ ?t]) simp
qed

text \<open>
  C13. A pipe is a queue: what \<open>pipewrite\<close> writes into a pipe that has room for it goes behind the
  bytes already there, and a \<open>piperead\<close> that follows takes the oldest bytes in order, at most as many
  as it asks for. Every other pipe, the locks and the running process stay as they were.
\<close>

theorem pipe_fifo:
  assumes "pipe_ok (pipes s p)" and "lk_free (Lpipe p) s" and "runs me s"
    and "length (pipe_bytes (pipes s p)) + length bs \<le> PIPESIZE" and "0 < n" and "bs \<noteq> []"
  shows "\<exists>t u. pipewrite p bs (int (length bs)) s = Ret (int (length bs)) t \<and>
    pipe_bytes (pipes t p) = pipe_bytes (pipes s p) @ bs \<and>
    piperead p n t = Ret (int (min (length (pipe_bytes (pipes t p))) (nat n)), take (nat n) (pipe_bytes (pipes s p) @ bs)) u \<and>
    pipe_bytes (pipes u p) = drop (nat n) (pipe_bytes (pipes s p) @ bs) \<and>
    pipe_ok (pipes u p) \<and> quiet s u \<and> (\<forall>q. q \<noteq> p \<longrightarrow> pipes u q = pipes s q)"
proof -
  have L: "lk_free Lptable s" "cli_ok s" using assms(3) by (simp_all add: runs_def)
  obtain t where t: "pipewrite p bs (int (length bs)) s = Ret (int (length bs)) t" "quiet s t" "pipe_ok (pipes t p)"
    "pipe_bytes (pipes t p) = pipe_bytes (pipes s p) @ bs" "\<forall>q. q \<noteq> p \<longrightarrow> pipes t q = pipes s q"
    using pipewrite_room[OF assms(1,2) L assms(4)] by blast
  have T: "lk_free (Lpipe p) t" "lk_free Lptable t" "cli_ok t"
    using t(2) assms(2) L quiet_cli_ok by (auto simp: quiet_def)
  obtain u where u: "piperead p n t =
      Ret (int (min (length (pipe_bytes (pipes t p))) (nat n)), take (nat n) (pipe_bytes (pipes t p))) u"
    "quiet t u" "pipe_ok (pipes u p)" "pipe_bytes (pipes u p) = drop (nat n) (pipe_bytes (pipes t p))"
    "\<forall>q. q \<noteq> p \<longrightarrow> pipes u q = pipes t q"
    using piperead_some[OF t(3) T, of n] t(4) assms(6) by auto
  show ?thesis using t u quiet_trans[OF t(2) u(2)] by (intro exI[of _ t] exI[of _ u]) simp
qed

lemma pipe_zero_ok: "pipe_ok pipe_zero" "pipe_bytes pipe_zero = []"
  by (simp_all add: pipe_ok_def pipe_bytes_def pipe_zero_def)

theorem pipe_fifo_witness:
  "\<exists>t u. pipewrite 0x80205000 [1, 2, 3] 3 kst_ex = Ret 3 t \<and> piperead 0x80205000 2 t = Ret (2, [1, 2]) u \<and>
     pipe_bytes (pipes u 0x80205000) = [3]"
  using pipe_fifo[where s = kst_ex and p = "0x80205000" and me = 1 and bs = "[1, 2, 3]" and n = 2] pipe_zero_ok by auto



end
