(* ===== verification/Inode.thy ===== *)
theory Inode
  imports Kexample
begin

text \<open>
  The file system on the log: what its operations on blocks and inodes do to the contents of the
  blocks, as the transaction in progress sees them.
\<close>

section \<open>Reading and changing a block in a transaction\<close>

text \<open>A transaction with room for \<open>k\<close> more blocks, between two uses of the buffer cache.\<close>

definition txn :: "nat \<Rightarrow> 'z logst_scheme \<Rightarrow> bool" where
  "txn k s \<longleftrightarrow> log_ok s \<and> held s = Map.empty \<and> 1 \<le> lg_outstanding (lg s) \<and> lh_n (lg_lh (lg s)) + int k < lg_size (lg s)"

definition lsame :: "'z logst_scheme \<Rightarrow> 'z logst_scheme \<Rightarrow> bool" where
  "lsame s t \<longleftrightarrow> log_ok t \<and> lframe s t \<and> held t = held s \<and> pin t = pin s \<and> blk t = blk s \<and> disk t = disk s \<and> lg t = lg s"

definition reading :: "u32 \<Rightarrow> nat \<Rightarrow> 'z logst_scheme \<Rightarrow> 'z logst_scheme \<Rightarrow> bool" where
  "reading sec b s t \<longleftrightarrow> log_ok t \<and> lframe s t \<and> held t = (held s)(sec \<mapsto> b) \<and> pin t = pin s \<and> blk t = blk s \<and>
     disk t = disk s \<and> lg t = lg s"

lemma txn_mono: "txn k s \<Longrightarrow> j \<le> k \<Longrightarrow> txn j s"
  by (simp add: txn_def)

lemma lsame_refl: "log_ok s \<Longrightarrow> lsame s s"
  by (simp add: lsame_def)

lemma txn_same: "txn k s \<Longrightarrow> lsame s s"
  by (simp add: txn_def lsame_refl)

lemma lsame_trans: "lsame s t \<Longrightarrow> lsame t u \<Longrightarrow> lsame s u"
  by (auto simp: lsame_def intro: lframe_trans)

lemma txn_lsame: "txn k s \<Longrightarrow> lsame s t \<Longrightarrow> txn k t"
  by (simp add: txn_def lsame_def)

lemma lframe_disksize: "lframe s t \<Longrightarrow> disksize t = disksize s"
  by (simp add: lframe_def)

lemma txn_logged: "txn (Suc k) s \<Longrightarrow> logged sec f s t \<Longrightarrow> txn k t"
proof -
  assume t: "txn (Suc k) s" "logged sec f s t"
  let ?h = "lg_lh (lg s)"
  have "log_ok s" using t(1) by (simp add: txn_def)
  then have g: "0 \<le> lh_n ?h" "nat (lh_n ?h) < length (lh_sector ?h)" by (auto simp: log_ok_def log_geom_def)
  have "lh_n (log_enter sec ?h) \<le> lh_n ?h + 1"
    using log_enter_cases[OF g, of sec] by (cases "sec \<in> set (take (nat (lh_n ?h)) (lh_sector ?h))") auto
  then show ?thesis using t by (auto simp: txn_def logged_def)
qed

lemma lframe_fsst:
  fixes s t :: "'z fsst_scheme"
  assumes "lframe s t" shows "icache t = icache s" "fsst.more t = fsst.more s"
  using assms by (auto simp: lframe_def) (metis fsst.select_convs fsst.surjective logst.select_convs)+

lemma txn_bread:
  assumes "txn k s" "sec < disksize s"
  shows "wp (bread 1 sec) (\<lambda>b. reading sec b s) s"
proof -
  have l: "log_ok s" and h: "held s = Map.empty" using assms(1) by (auto simp: txn_def)
  then have "card (dom (held s) \<union> pin s) < NBUF" using log_okD(4)[OF l] by simp
  then show ?thesis
    using wp_mono[OF bc.rd[OF log_okD(1)[OF l] assms(2)]] h log_ok_cong[OF l]
    by (simp add: reading_def bframe_log)
qed

lemma reading_data: "reading sec b s t \<Longrightarrow> wp (bdata b) Q t \<longleftrightarrow> Q (blk s sec) t"
  using bc.data[of t sec b] log_okD(1)[of t] by (simp add: reading_def wp_def)

lemma reading_rls:
  assumes "txn k s" "reading sec b s t"
  shows "wp (brelse b) (\<lambda>_. lsame s) t"
proof -
  have l: "log_ok s" "log_ok t" and h: "held s = Map.empty" using assms by (auto simp: txn_def reading_def)
  have cl: "sec \<in> pin t \<or> blk t sec = disk t sec"
    using free_clean[OF log_okD(1)[OF l(1)], of sec] h assms(2) by (auto simp: reading_def)
  have hb: "held t sec = Some b" using assms(2) by (simp add: reading_def)
  show ?thesis
  proof (rule wp_mono[OF bc.rls[OF log_okD(1)[OF l(2)] hb cl]])
    fix u assume u: "bio_ok u \<and> bframe t u \<and> held u = (held t)(sec := None) \<and> pin u = pin t \<and> blk u = blk t \<and>
      disk u = disk t \<and> wlog u = wlog t"
    then have "log_ok u" using log_ok_cong[OF l(2)] by blast
    moreover have "lframe s u" "lg u = lg s" using u assms(2) lframe_trans by (auto simp: reading_def bframe_log)
    ultimately show "lsame s u" using u assms(2) h by (simp add: lsame_def reading_def)
  qed
qed

text \<open>The two shapes of the code: look at a block and release it; change it, log it and release it.\<close>

lemma read_wp:
  assumes "txn k s" "sec < disksize s" "\<And>t. lsame s t \<Longrightarrow> wp (K (blk s sec)) Q t"
  shows "wp (bread 1 sec) (\<lambda>b. wp (bdata b) (\<lambda>d. wp (brelse b) (\<lambda>_. wp (K d) Q))) s"
proof (rule wp_mono[OF txn_bread[OF assms(1,2)]])
  fix b t assume r: "reading sec b s t"
  show "wp (bdata b) (\<lambda>d. wp (brelse b) (\<lambda>_. wp (K d) Q)) t"
    using wp_mono[OF reading_rls[OF assms(1) r]] assms(3) by (simp add: reading_data[OF r])
qed

lemma update_wp:
  assumes t: "txn (Suc k) s" and r: "reading sec b s t" and sec: "sec < lg_start (lg s)" and f: "length (f (blk s sec)) = 512"
    and Q: "\<And>u. logged sec f s u \<Longrightarrow> Q u"
  shows "wp (bstore b f) (\<lambda>_. wp (log_write b) (\<lambda>_. wp (brelse b) (\<lambda>_. Q))) t"
proof -
  have h: "held s = Map.empty" "log_ok t" "held t sec = Some b" using t r by (auto simp: txn_def reading_def)
  have eq: "log_ok t" "lframe s t" "held t = [sec \<mapsto> b]" "pin t = pin s" "blk t = blk s" "disk t = disk s" "lg t = lg s"
    using r h by (auto simp: reading_def)
  have "wp (thn (bstore b f) (log_write b)) (\<lambda>_. logged sec f t) t"
    by (rule logged_held) (use eq t sec f in \<open>auto simp: txn_def\<close>)
  then have "wp (thn (bstore b f) (log_write b)) (\<lambda>_. wp (brelse b) (\<lambda>_. Q)) t"
  proof (rule wp_mono)
    fix u assume u: "logged sec f t u"
    have l: "log_ok u" using u by (simp add: logged_def)
    show "wp (brelse b) (\<lambda>_. Q) u"
    proof (rule wp_mono[OF bc.rls[of u sec]])
      fix v assume v: "bio_ok v \<and> bframe u v \<and> held v = (held u)(sec := None) \<and> pin v = pin u \<and> blk v = blk u \<and>
        disk v = disk u \<and> wlog v = wlog u"
      have "log_ok v" using v log_ok_cong[OF l] by blast
      moreover have "lframe s v"
        using lframe_trans[OF eq(2) lframe_trans[of t u v]] u v by (simp add: logged_def bframe_log)
      ultimately have "logged sec f s v" using u v eq h by (simp add: logged_def bframe_log)
      then show "Q v" by (rule Q)
    qed (use u eq log_okD(1)[OF l] in \<open>auto simp: logged_def\<close>)
  qed
  then show ?thesis by simp
qed

lemma change_wp:
  assumes "txn (Suc k) s" "sec < lg_start (lg s)" "length (f (blk s sec)) = 512" "\<And>u. logged sec f s u \<Longrightarrow> Q u"
  shows "wp (bread 1 sec) (\<lambda>b. wp (bstore b f) (\<lambda>_. wp (log_write b) (\<lambda>_. wp (brelse b) (\<lambda>_. Q)))) s"
proof (rule wp_mono[OF txn_bread[OF assms(1)]])
  show "sec < disksize s" using log_start_size assms(1,2) by (auto simp: txn_def)
  fix b t assume r: "reading sec b s t"
  show "wp (bstore b f) (\<lambda>_. wp (log_write b) (\<lambda>_. wp (brelse b) (\<lambda>_. Q))) t"
    by (rule update_wp[OF assms(1) r assms(2), of f, OF assms(3)]) (rule assms(4))
qed

lemma change_read_wp:
  assumes "txn (Suc k) s" "sec < lg_start (lg s)" "length (f (blk s sec) (blk s sec)) = 512"
    "\<And>u. logged sec (f (blk s sec)) s u \<Longrightarrow> Q u"
  shows "wp (bread 1 sec) (\<lambda>b. wp (bdata b) (\<lambda>d. wp (bstore b (f d)) (\<lambda>_. wp (log_write b) (\<lambda>_. wp (brelse b) (\<lambda>_. Q))))) s"
proof (rule wp_mono[OF txn_bread[OF assms(1)]])
  show "sec < disksize s" using log_start_size assms(1,2) by (auto simp: txn_def)
  fix b t assume r: "reading sec b s t"
  show "wp (bdata b) (\<lambda>d. wp (bstore b (f d)) (\<lambda>_. wp (log_write b) (\<lambda>_. wp (brelse b) (\<lambda>_. Q)))) t"
    unfolding reading_data[OF r] by (rule update_wp[OF assms(1) r assms(2), of "f (blk s sec)", OF assms(3)]) (rule assms(4))
qed

section \<open>Inodes on disk\<close>

lemma concat_le32:
  "length (concat (map le32 xs)) = 4 * length xs"
  "i < length xs \<Longrightarrow> bytes_at (4 * i) 4 (concat (map le32 xs)) = le32 (xs ! i)"
proof -
  show "length (concat (map le32 xs)) = 4 * length xs" by (induction xs) auto
  show "i < length xs \<Longrightarrow> bytes_at (4 * i) 4 (concat (map le32 xs)) = le32 (xs ! i)"
    by (induction xs arbitrary: i) (auto simp: bytes_at_def nth_Cons split: nat.splits)
qed

lemma enc_dec_dinode:
  assumes "length (d_addrs di) = 13"
  shows "length (enc_dinode di) = 64" "dec_dinode (enc_dinode di) = di"
proof -
  show "length (enc_dinode di) = 64" using assms by (simp add: enc_dinode_def concat_le32)
  have "bytes_at (12 + 4 * i) 4 (enc_dinode di) = le32 (d_addrs di ! i)" if "i < 13" for i
    using concat_le32(2)[of i "d_addrs di"] that assms by (simp add: enc_dinode_def bytes_at_def)
  then have "map (\<lambda>i. of_le32 (bytes_at (12 + 4 * i) 4 (enc_dinode di))) [0..<13] = map (\<lambda>i. d_addrs di ! i) [0..<13]"
    by (simp del: upt_rec_numeral)
  also have "\<dots> = d_addrs di" using map_nth[of "d_addrs di"] assms by simp
  finally show "dec_dinode (enc_dinode di) = di"
    by (simp add: dec_dinode_def enc_dinode_def bytes_at_def del: upt_rec_numeral)
qed

lemma dinode_at_put:
  assumes "length d = 512" "length (d_addrs di) = 13"
  shows "length (put_dinode n di d) = 512" "dinode_at (put_dinode n di d) n = di"
    "unat m mod 8 \<noteq> unat n mod 8 \<Longrightarrow> dinode_at (put_dinode n di d) m = dinode_at d m"
proof -
  have fits: "64 * x + 64 \<le> 512" if "x < 8" for x :: nat using that by simp
  have b: "64 * (unat n mod 8) + 64 \<le> 512" "64 * (unat m mod 8) + 64 \<le> 512" by (rule fits, simp)+
  have apart: "64 * x + 64 \<le> 64 * y \<or> 64 * y + 64 \<le> 64 * x" if "x \<noteq> y" for x y :: nat using that by arith
  note e = enc_dec_dinode[OF assms(2)]
  show "length (put_dinode n di d) = 512" using b e assms(1) by (simp add: put_dinode_def)
  show "dinode_at (put_dinode n di d) n = di" using b e assms(1) by (simp add: put_dinode_def dinode_at_def)
  show "dinode_at (put_dinode n di d) m = dinode_at d m" if "unat m mod 8 \<noteq> unat n mod 8"
  proof -
    have "64 * (unat m mod 8) + 64 \<le> 64 * (unat n mod 8) \<or> 64 * (unat n mod 8) + 64 \<le> 64 * (unat m mod 8)"
      by (rule apart) (rule that)
    then show ?thesis using b e assms(1) by (simp add: put_dinode_def dinode_at_def bytes_at_put_other)
  qed
qed

lemma IBLOCK_apart: "IBLOCK m = IBLOCK n \<Longrightarrow> m \<noteq> n \<Longrightarrow> unat m mod 8 \<noteq> unat n mod 8"
proof
  assume "IBLOCK m = IBLOCK n" "m \<noteq> n" "unat m mod 8 = unat n mod 8"
  then have "m div 8 = n div 8" by (simp add: IBLOCK_def)
  then have "unat (m div 8) = unat (n div 8)" by simp
  then have "unat m div 8 = unat n div 8" by (simp add: unat_div)
  with \<open>unat m mod 8 = unat n mod 8\<close> have "unat m = unat n" by (metis mult_div_mod_eq)
  with \<open>m \<noteq> n\<close> show False by (simp add: word_unat_eq_iff)
qed

section \<open>Inodes in memory\<close>

lemma wp_geti [simp]: "ip < length (icache s) \<Longrightarrow> wp (geti ip) Q s \<longleftrightarrow> Q (icache s ! ip) s"
  by (simp add: wp_def geti_def)

lemma wp_updi [simp]:
  "ip < length (icache s) \<Longrightarrow> wp (updi ip f) Q s \<longleftrightarrow> Q () (s\<lparr>icache := (icache s)[ip := f (icache s ! ip)]\<rparr>)"
  by (simp add: wp_def updi_def)

lemma upd_icache [simp]:
  "log_ok (s\<lparr>icache := c\<rparr>) = log_ok s" "held (s\<lparr>icache := c\<rparr>) = held s" "pin (s\<lparr>icache := c\<rparr>) = pin s"
  "blk (s\<lparr>icache := c\<rparr>) = blk s" "txn k (s\<lparr>icache := c\<rparr>) = txn k s" "bio_ok (s\<lparr>icache := c\<rparr>) = bio_ok s"
  by (simp_all add: log_ok_def log_geom_def txn_def held_def pin_def blk_def bio_ok_def lk_defs)

lemma lframe_icache: "lframe s t \<Longrightarrow> lframe (s\<lparr>icache := c\<rparr>) (t\<lparr>icache := c\<rparr>)"
  for s t :: "'z fsst_scheme"
  using lframe_fsst[of s t] by (simp add: lframe_def quiet_def lk_defs) (cases s; cases t; simp)

lemma reading_icache: "reading sec b s t \<Longrightarrow> reading sec b (s\<lparr>icache := c\<rparr>) (t\<lparr>icache := c\<rparr>)"
  by (simp add: reading_def lframe_icache)

lemma lsame_icache: "lsame s t \<Longrightarrow> lsame (s\<lparr>icache := c\<rparr>) (t\<lparr>icache := c\<rparr>)"
  by (simp add: lsame_def lframe_icache)

text \<open>The inodes of the cache that the operations expect: on the disk, with blocks below the log.\<close>

definition inode_in :: "nat \<Rightarrow> 'z fsst_scheme \<Rightarrow> bool" where
  "inode_in ip s \<longleftrightarrow> ip < length (icache s) \<and> i_dev (icache s ! ip) = 1 \<and> IBLOCK (i_inum (icache s ! ip)) < lg_start (lg s) \<and>
     length (i_addrs (icache s ! ip)) = 13"

lemma txn_start: "txn k s \<Longrightarrow> sec < lg_start (lg s) \<Longrightarrow> sec < disksize s \<and> length (blk s sec) = 512"
  using log_start_size[of s sec] bc.view_length[of s sec] log_okD(1)[of s] by (auto simp: txn_def)

lemma iupdate_wp:
  assumes "txn (Suc k) s" "inode_in ip s"
  defines "x \<equiv> icache s ! ip"
  shows "wp (iupdate ip) (\<lambda>_. logged (IBLOCK (i_inum x)) (put_dinode (i_inum x) (dinode_of x)) s) s"
proof -
  have i: "ip < length (icache s)" "i_dev x = 1" "IBLOCK (i_inum x) < lg_start (lg s)" "length (d_addrs (dinode_of x)) = 13"
    using assms(2) by (auto simp: inode_in_def x_def dinode_of_def)
  have "length (put_dinode (i_inum x) (dinode_of x) (blk s (IBLOCK (i_inum x)))) = 512"
    using dinode_at_put(1) txn_start[OF assms(1) i(3)] i(4) by blast
  from change_wp[OF assms(1) i(3), of "put_dinode (i_inum x) (dinode_of x)", OF this] i(1,2)
  show ?thesis by (simp add: iupdate_def flip: x_def)
qed

definition loaded :: "dinode \<Rightarrow> inode \<Rightarrow> inode" where
  "loaded di x = x\<lparr>i_type := d_type di, i_major := d_major di, i_minor := d_minor di, i_nlink := d_nlink di,
     i_size := d_size di, i_addrs := d_addrs di, i_valid := True\<rparr>"

lemma iload_wp:
  assumes "txn k s" "inode_in ip s"
  defines "x \<equiv> icache s ! ip"
  defines "di \<equiv> dinode_at (blk s (IBLOCK (i_inum x))) (i_inum x)"
  assumes "d_type di \<noteq> 0"
  shows "wp (iload ip) (\<lambda>_. lsame (s\<lparr>icache := (icache s)[ip := loaded di x]\<rparr>)) s"
proof -
  have i: "ip < length (icache s)" "i_dev x = 1" "IBLOCK (i_inum x) < lg_start (lg s)"
    using assms(2) by (auto simp: inode_in_def x_def)
  let ?y = "x\<lparr>i_type := d_type di, i_major := d_major di, i_minor := d_minor di, i_nlink := d_nlink di, i_size := d_size di, i_addrs := d_addrs di\<rparr>"
  let ?c = "(icache s)[ip := ?y]"
  have after: "lsame (s\<lparr>icache := (icache s)[ip := loaded di x]\<rparr>) (u\<lparr>icache := (icache s)[ip := loaded di x]\<rparr>) \<and> icache u = ?c"
    if u: "lsame (s\<lparr>icache := ?c\<rparr>) u" for u
    using lframe_fsst(1)[of "s\<lparr>icache := ?c\<rparr>" u] u lsame_icache[OF u, of "(icache s)[ip := loaded di x]"]
    by (simp add: lsame_def)
  have T: "txn k (s\<lparr>icache := ?c\<rparr>)" using assms(1) by simp
  have sec: "IBLOCK (i_inum x) < disksize s" using txn_start[OF assms(1) i(3)] by simp
  have rest: "wp (bdata b) (\<lambda>d. let di = dinode_at d (i_inum x) in
      wp (updi ip (\<lambda>x. x\<lparr>i_type := d_type di, i_major := d_major di, i_minor := d_minor di, i_nlink := d_nlink di,
            i_size := d_size di, i_addrs := d_addrs di\<rparr>)) (\<lambda>_. wp (brelse b) (\<lambda>_.
        wp (updi ip (\<lambda>x. x\<lparr>i_valid := True\<rparr>)) (\<lambda>_. wp (if d_type di = 0 then panic ''ilock: no type'' else skip)
          (\<lambda>_. lsame (s\<lparr>icache := (icache s)[ip := loaded (dinode_at (blk s (IBLOCK (i_inum x))) (i_inum x)) x]\<rparr>)))))) t"
    if r: "reading (IBLOCK (i_inum x)) b s t" for b t
  proof -
    have ic: "icache t = icache s" using lframe_fsst(1)[of s t] r by (simp add: reading_def)
    have "wp (brelse b) (\<lambda>_. wp (updi ip (\<lambda>x. x\<lparr>i_valid := True\<rparr>)) (\<lambda>_. lsame (s\<lparr>icache := (icache s)[ip := loaded di x]\<rparr>))) (t\<lparr>icache := ?c\<rparr>)"
      by (rule wp_mono[OF reading_rls[OF T reading_icache[OF r]]])
        (use after i(1) in \<open>simp add: loaded_def\<close>)
    then show ?thesis using i(1) assms(5) unfolding reading_data[OF r]
      by (simp add: Let_def ic flip: di_def x_def)
  qed
  show ?thesis using wp_mono[OF txn_bread[OF assms(1) sec] rest] i(1,2)
    by (simp add: iload_def Let_def di_def flip: x_def)
qed

lemma logged_put_dinode:
  assumes "txn k s" "inode_in ip s" "logged (IBLOCK (i_inum x)) (put_dinode (i_inum x) (dinode_of x)) s t" "x = icache s ! ip"
  shows "dinode_at (blk t (IBLOCK (i_inum x))) (i_inum x) = dinode_of x"
    "m \<noteq> i_inum x \<Longrightarrow> dinode_at (blk t (IBLOCK m)) m = dinode_at (blk s (IBLOCK m)) m"
proof -
  have i: "IBLOCK (i_inum x) < lg_start (lg s)" "length (d_addrs (dinode_of x)) = 13"
    using assms(2,4) by (auto simp: inode_in_def dinode_of_def)
  have len: "length (blk s (IBLOCK (i_inum x))) = 512" using txn_start[OF assms(1) i(1)] by simp
  have b: "blk t = (blk s)(IBLOCK (i_inum x) := put_dinode (i_inum x) (dinode_of x) (blk s (IBLOCK (i_inum x))))"
    using assms(3) by (simp add: logged_def)
  show "dinode_at (blk t (IBLOCK (i_inum x))) (i_inum x) = dinode_of x" using dinode_at_put(2)[OF len i(2)] by (simp add: b)
  show "dinode_at (blk t (IBLOCK m)) m = dinode_at (blk s (IBLOCK m)) m" if "m \<noteq> i_inum x"
    using dinode_at_put(3)[OF len i(2)] IBLOCK_apart[of m "i_inum x"] that by (simp add: b)
qed

text \<open>
  C12. An inode survives the way through the disk block: after \<open>iupdate\<close> of an inode, \<open>ilock\<close>'s load of
  any entry of the cache for the same inode number gets all its fields back, through the encoding of
  \<^verbatim>\<open>struct dinode\<close>. Every other inode and every other block keep their contents, and the home blocks on the
  disk are not touched before the commit.
\<close>

theorem inode_roundtrip:
  assumes "txn 1 s" and "inode_in ip s" and "inode_in jp s" and "i_inum (icache s ! jp) = i_inum (icache s ! ip)"
    and "i_type (icache s ! ip) \<noteq> 0"
  shows "\<exists>t. thn (iupdate ip) (iload jp) s = Ret () t \<and>
    icache t = (icache s)[jp := loaded (dinode_of (icache s ! ip)) (icache s ! jp)] \<and>
    (\<forall>m. m \<noteq> i_inum (icache s ! ip) \<longrightarrow> dinode_at (blk t (IBLOCK m)) m = dinode_at (blk s (IBLOCK m)) m) \<and>
    (\<forall>sec. sec \<noteq> IBLOCK (i_inum (icache s ! ip)) \<longrightarrow> blk t sec = blk s sec) \<and> disk t = disk s \<and> txn 0 t"
proof -
  let ?x = "icache s ! ip"
  let ?c = "(icache s)[jp := loaded (dinode_of ?x) (icache s ! jp)]"
  have T: "txn (Suc 0) s" using assms(1) by simp
  obtain u where u: "iupdate ip s = Ret () u" "logged (IBLOCK (i_inum ?x)) (put_dinode (i_inum ?x) (dinode_of ?x)) s u"
    using wpDu[OF iupdate_wp[OF T assms(2)]] by blast
  have U: "txn 0 u" "icache u = icache s" "lg_start (lg u) = lg_start (lg s)"
    using txn_logged[OF T u(2)] lframe_fsst(1)[of s u] u(2) by (simp_all add: logged_def)
  have j: "inode_in jp u" using assms(3) U by (simp add: inode_in_def)
  note p = logged_put_dinode[OF T assms(2) u(2) refl]
  have d: "dinode_at (blk u (IBLOCK (i_inum (icache u ! jp)))) (i_inum (icache u ! jp)) = dinode_of ?x"
    using p(1) assms(4) U(2) by simp
  have "d_type (dinode_of ?x) \<noteq> 0" using assms(5) by (simp add: dinode_of_def)
  then obtain t where t: "iload jp u = Ret () t" "lsame (u\<lparr>icache := ?c\<rparr>) t"
    using wpDu[OF iload_wp[OF U(1) j]] d U(2) by auto
  have "icache t = ?c" using lframe_fsst(1)[of "u\<lparr>icache := ?c\<rparr>" t] t(2) by (simp add: lsame_def)
  moreover have "txn 0 t" using txn_lsame[OF _ t(2)] U(1) by simp
  moreover have "blk t = blk u" "disk t = disk u" using t(2) by (simp_all add: lsame_def)
  ultimately show ?thesis using u t(1) p(2)
    by (intro exI[of _ t]) (simp add: thn_def bnd_def logged_def)
qed

lemma kst_ex_log: "log_ok kst_ex" "held kst_ex = Map.empty" "blk kst_ex = blk logst_ex" "disksize kst_ex = 16" "k < 10 \<Longrightarrow> txn k kst_ex"
proof -
  have "log_ok kst_ex = log_ok logst_ex" "held kst_ex = held logst_ex" "blk kst_ex = blk logst_ex" "disksize kst_ex = disksize logst_ex"
    by (simp_all add: ex_defs log_ok_def log_geom_def bio_ok_def lk_defs held_def pin_def blk_def)
  then show "log_ok kst_ex" "held kst_ex = Map.empty" "blk kst_ex = blk logst_ex" "disksize kst_ex = 16"
    using logst_ex_ok biost_up_ok by simp_all
  then show "txn k kst_ex" if "k < 10" using that by (simp add: txn_def)
qed

definition inode_a :: inode where
  "inode_a = inode_zero\<lparr>i_dev := 1, i_inum := 3, i_ref := 1, i_type := 2, i_nlink := 1, i_size := 700, i_addrs := [4, 9, 0, 0, 0, 0, 0, 0, 0, 0, 0, 0, 0]\<rparr>"

definition inode_b :: inode where
  "inode_b = inode_zero\<lparr>i_dev := 1, i_inum := 3, i_ref := 1\<rparr>"

theorem inode_roundtrip_witness:
  "\<exists>t. thn (iupdate 0) (iload 1) (kst_ex\<lparr>icache := [inode_a, inode_b]\<rparr>) = Ret () t \<and> i_size (icache t ! 1) = 700 \<and>
     i_addrs (icache t ! 1) ! 1 = 9 \<and> i_valid (icache t ! 1)"
proof -
  let ?s = "kst_ex\<lparr>icache := [inode_a, inode_b]\<rparr>"
  have "inode_in 0 ?s" "inode_in 1 ?s" "txn 1 ?s"
    using kst_ex_log(5)[of 1] by (simp_all add: inode_in_def inode_a_def inode_b_def inode_zero_def IBLOCK_def)
  from inode_roundtrip[OF this(3,1,2)] show ?thesis
    by (auto simp: inode_a_def inode_b_def inode_zero_def loaded_def dinode_of_def)
qed

end
