(* ===== verification/Balloc.thy ===== *)
theory Balloc
  imports Inode
begin

text \<open>
  The block allocator: \<open>balloc\<close> takes the first block whose bit in the bitmap is clear, \<open>bfree\<close> clears the
  bit again.
\<close>

section \<open>The bitmap\<close>

lemma bit_clear_iff: "bit_clear d bi \<longleftrightarrow> \<not> bit (d ! (bi div 8)) (bi mod 8)"
  by (simp add: bit_clear_def push_bit_eq_mult and_exp_eq_0_iff_not_bit)

lemma div8: "i < 4096 \<Longrightarrow> i div 8 < 512" for i :: nat
  by simp

lemma bit_clear_mark:
  assumes "length d = 512" "i < 4096"
  shows "length (mark_bit i d) = 512" "bit_clear (mark_bit i d) j \<longleftrightarrow> j \<noteq> i \<and> bit_clear d j"
proof -
  show "length (mark_bit i d) = 512" using assms by (simp add: mark_bit_def)
  show "bit_clear (mark_bit i d) j \<longleftrightarrow> j \<noteq> i \<and> bit_clear d j"
  proof (cases "j div 8 = i div 8")
    case True
    then have "j = i \<longleftrightarrow> j mod 8 = i mod 8" by (metis mult_div_mod_eq)
    then show ?thesis using True assms div8[OF assms(2)] by (auto simp: bit_clear_iff mark_bit_def bit_simps)
  next
    case False
    then show ?thesis by (auto simp: bit_clear_iff mark_bit_def)
  qed
qed

lemma bit_clear_unmark:
  assumes "length d = 512" "i < 4096"
  shows "length (unmark_bit i d) = 512" "bit_clear (unmark_bit i d) j \<longleftrightarrow> j = i \<or> bit_clear d j"
proof -
  show "length (unmark_bit i d) = 512" using assms by (simp add: unmark_bit_def)
  show "bit_clear (unmark_bit i d) j \<longleftrightarrow> j = i \<or> bit_clear d j"
  proof (cases "j div 8 = i div 8")
    case True
    then have "j = i \<longleftrightarrow> j mod 8 = i mod 8" by (metis mult_div_mod_eq)
    then show ?thesis using True assms div8[OF assms(2)] by (auto simp: bit_clear_iff unmark_bit_def bit_simps)
  next
    case False
    then show ?thesis by (auto simp: bit_clear_iff unmark_bit_def)
  qed
qed

lemma unmark_mark: "length d = 512 \<Longrightarrow> i < 4096 \<Longrightarrow> bit_clear d i \<Longrightarrow> unmark_bit i (mark_bit i d) = d"
proof (rule nth_equalityI)
  fix k assume a: "length d = 512" "i < 4096" "bit_clear d i" "k < length (unmark_bit i (mark_bit i d))"
  show "unmark_bit i (mark_bit i d) ! k = d ! k"
  proof (cases "k = i div 8")
    case True
    have "(d ! k OR push_bit (i mod 8) 1) AND NOT (push_bit (i mod 8) 1) = d ! k"
      by (rule bit_word_eqI) (use a(3) True in \<open>auto simp: bit_clear_iff bit_simps\<close>)
    then show ?thesis using True a(1,2) by (simp add: unmark_bit_def mark_bit_def)
  next
    case False
    then show ?thesis by (simp add: unmark_bit_def mark_bit_def)
  qed
qed (simp add: unmark_bit_def mark_bit_def)

definition sblock :: "'z logst_scheme \<Rightarrow> superblock" where
  "sblock s = \<lparr>sb_size = word_at (blk s 1) 0, sb_nblocks = word_at (blk s 1) 1, sb_ninodes = word_at (blk s 1) 2,
     sb_nlog = word_at (blk s 1) 3\<rparr>"

definition bmap_block :: "'z logst_scheme \<Rightarrow> u32 \<Rightarrow> u32" where
  "bmap_block s b = BBLOCK b (sb_ninodes (sblock s))"

definition bfreed :: "'z logst_scheme \<Rightarrow> u32 \<Rightarrow> bool" where
  "bfreed s b \<longleftrightarrow> bit_clear (blk s (bmap_block s b)) (unat b mod 4096)"

lemma readsb_wp:
  assumes "txn k s" "1 < disksize s" "\<And>t. lsame s t \<Longrightarrow> Q (sblock s) t"
  shows "wp (readsb 1) Q s"
  using read_wp[OF assms(1,2), of "\<lambda>d. ret \<lparr>sb_size = word_at d 0, sb_nblocks = word_at d 1, sb_ninodes = word_at d 2, sb_nlog = word_at d 3\<rparr>" Q]
    assms(3) by (simp add: readsb_def sblock_def)

lemma lsame_simps: "lsame s t \<Longrightarrow> blk t = blk s" "lsame s t \<Longrightarrow> lg t = lg s" "lsame s t \<Longrightarrow> disk t = disk s"
  "lsame s t \<Longrightarrow> disksize t = disksize s" "lsame s t \<Longrightarrow> lframe s t" "lsame s t \<Longrightarrow> pin t = pin s"
  by (simp_all add: lsame_def lframe_def)

text \<open>Two changes of blocks in a row, as \<open>balloc\<close> makes them.\<close>

definition wrote2 :: "u32 \<Rightarrow> (u8 list \<Rightarrow> u8 list) \<Rightarrow> u32 \<Rightarrow> u8 list \<Rightarrow> 'z logst_scheme \<Rightarrow> 'z logst_scheme \<Rightarrow> bool" where
  "wrote2 m f c d s t \<longleftrightarrow> lframe s t \<and> disk t = disk s \<and> blk t = (blk s)(m := f (blk s m), c := d) \<and>
     lg t = (lg s)\<lparr>lg_lh := lg_lh (lg t)\<rparr> \<and> pin t = insert c (insert m (pin s))"

lemma find_first:
  "find P [0..<n] = Some k \<longleftrightarrow> k < n \<and> P k \<and> (\<forall>j < k. \<not> P j)"
  by (auto simp: find_Some_iff)

lemma bzero_wp:
  assumes "txn (Suc k) s" "c < lg_start (lg s)" "\<And>u. logged c (\<lambda>_. replicate 512 0) s u \<Longrightarrow> Q u"
  shows "wp (bzero 1 c) (\<lambda>_. Q) s"
  using change_wp[OF assms(1,2), of "\<lambda>_. replicate 512 0" Q] assms(3) by (simp add: bzero_def)

lemma balloc_block:
  assumes t: "txn (Suc (Suc k)) s" and m: "BBLOCK b nin < lg_start (lg s)" and len: "b + of_nat bi < lg_start (lg s)"
    and f: "find (\<lambda>bi. b + of_nat bi < sb_size sb \<and> bit_clear (blk s (BBLOCK b nin)) bi) [0..<BPB] = Some bi"
    and n: "nin = sb_ninodes sb"
  shows "wp (balloc_loop 1 sb (b # bs)) (\<lambda>r t. r = b + of_nat bi \<and> txn k t \<and> wrote2 (BBLOCK b nin) (mark_bit bi) r (replicate 512 0) s t) s"
proof -
  have bi: "bi < 4096" using f by (auto simp: find_first)
  have s: "BBLOCK b nin < disksize s" "length (blk s (BBLOCK b nin)) = 512" using txn_start[OF t m] by auto
  let ?Q = "\<lambda>r t. r = b + of_nat bi \<and> txn k t \<and> wrote2 (BBLOCK b nin) (mark_bit bi) r (replicate 512 0) s t"
  have "wp (bread 1 (BBLOCK b nin)) (\<lambda>bp. wp (bdata bp) (\<lambda>d. wp (case find (\<lambda>bi. b + of_nat bi < sb_size sb \<and> bit_clear d bi) [0..<BPB] of
         Some bi \<Rightarrow> thn (bstore bp (mark_bit bi)) (thn (log_write bp) (thn (brelse bp) (thn (bzero 1 (b + of_nat bi)) (ret (b + of_nat bi)))))
       | None \<Rightarrow> thn (brelse bp) (balloc_loop 1 sb bs)) ?Q)) s"
  proof (rule wp_mono[OF txn_bread[OF t s(1)]])
    fix bp u assume r: "reading (BBLOCK b nin) bp s u"
    have "wp (bstore bp (mark_bit bi)) (\<lambda>_. wp (log_write bp) (\<lambda>_. wp (brelse bp) (\<lambda>_. wp (thn (bzero 1 (b + of_nat bi)) (ret (b + of_nat bi))) ?Q))) u"
    proof (rule update_wp[OF t r m, of "mark_bit bi"])
      show "length (mark_bit bi (blk s (BBLOCK b nin))) = 512" using bit_clear_mark(1)[OF s(2) bi] .
      fix v assume v: "logged (BBLOCK b nin) (mark_bit bi) s v"
      have tv: "txn (Suc k) v" "b + of_nat bi < lg_start (lg v)" using txn_logged[OF t v] v len by (simp_all add: logged_def)
      have "wp (bzero 1 (b + of_nat bi)) (\<lambda>_. ?Q (b + of_nat bi)) v"
        by (rule bzero_wp[OF tv])
          (use v txn_logged[OF tv(1)] lframe_trans in \<open>auto simp: wrote2_def logged_def\<close>)
      then show "wp (thn (bzero 1 (b + of_nat bi)) (ret (b + of_nat bi))) ?Q v" by simp
    qed
    then show "wp (bdata bp) (\<lambda>d. wp (case find (\<lambda>bi. b + of_nat bi < sb_size sb \<and> bit_clear d bi) [0..<BPB] of
         Some bi \<Rightarrow> thn (bstore bp (mark_bit bi)) (thn (log_write bp) (thn (brelse bp) (thn (bzero 1 (b + of_nat bi)) (ret (b + of_nat bi)))))
       | None \<Rightarrow> thn (brelse bp) (balloc_loop 1 sb bs)) ?Q) u"
      unfolding reading_data[OF r] f by simp
  qed
  then show ?thesis by (simp add: n)
qed

lemma balloc_next:
  assumes t: "txn k s" and m: "BBLOCK b (sb_ninodes sb) < disksize s"
    and f: "find (\<lambda>bi. b + of_nat bi < sb_size sb \<and> bit_clear (blk s (BBLOCK b (sb_ninodes sb))) bi) [0..<BPB] = None"
    and Q: "\<And>u. lsame s u \<Longrightarrow> wp (balloc_loop 1 sb bs) Q u"
  shows "wp (balloc_loop 1 sb (b # bs)) Q s"
proof -
  let ?m = "BBLOCK b (sb_ninodes sb)"
  have "wp (bread 1 ?m) (\<lambda>bp. wp (bdata bp) (\<lambda>d. wp (case find (\<lambda>bi. b + of_nat bi < sb_size sb \<and> bit_clear d bi) [0..<BPB] of
         Some bi \<Rightarrow> thn (bstore bp (mark_bit bi)) (thn (log_write bp) (thn (brelse bp) (thn (bzero 1 (b + of_nat bi)) (ret (b + of_nat bi)))))
       | None \<Rightarrow> thn (brelse bp) (balloc_loop 1 sb bs)) Q)) s"
  proof (rule wp_mono[OF txn_bread[OF t m]])
    fix bp u assume r: "reading ?m bp s u"
    have "wp (brelse bp) (\<lambda>_. wp (balloc_loop 1 sb bs) Q) u"
      by (rule wp_mono[OF reading_rls[OF t r]]) (rule Q)
    then show "wp (bdata bp) (\<lambda>d. wp (case find (\<lambda>bi. b + of_nat bi < sb_size sb \<and> bit_clear d bi) [0..<BPB] of
         Some bi \<Rightarrow> thn (bstore bp (mark_bit bi)) (thn (log_write bp) (thn (brelse bp) (thn (bzero 1 (b + of_nat bi)) (ret (b + of_nat bi)))))
       | None \<Rightarrow> thn (brelse bp) (balloc_loop 1 sb bs)) Q) u"
      unfolding reading_data[OF r] f by simp
  qed
  then show ?thesis by simp
qed

text \<open>The blocks of a group of 4096, whose bits are in one block of the bitmap.\<close>

lemma group:
  assumes "i \<le> unat (c :: u32) div 4096" "bi < 4096"
  defines "b \<equiv> of_nat (4096 * i) :: u32"
  shows "unat (b + of_nat bi) = 4096 * i + bi" "BBLOCK (b + of_nat bi) n = BBLOCK b n"
proof -
  have "4096 * i + bi < 4294967296"
  proof -
    have "unat c < 4096 * 1048576" using unat_lt32[of c] by simp
    then have "unat c div 4096 < 1048576" by (simp add: less_mult_imp_div_less)
    then show ?thesis using assms(1,2) by linarith
  qed
  moreover have "b + of_nat bi = of_nat (4096 * i + bi)" by (simp add: b_def)
  ultimately show u: "unat (b + of_nat bi) = 4096 * i + bi" by (simp only: unat_of_nat32)
  have "4096 * i < 4294967296" using \<open>4096 * i + bi < 4294967296\<close> by simp
  then have v: "unat b = 4096 * i" by (simp only: b_def unat_of_nat32)
  have "unat ((b + of_nat bi) div 4096) = unat (b div 4096)" using u v assms(2) by (simp add: unat_div)
  then have "(b + of_nat bi) div 4096 = b div 4096" by (simp add: word_unat_eq_iff)
  then show "BBLOCK (b + of_nat bi) n = BBLOCK b n" by (simp add: BBLOCK_def)
qed

lemma balloc_scan:
  fixes c :: u32
  assumes t: "txn (Suc (Suc k)) s" and c: "c < sb_size (sblock s)" "c < lg_start (lg s)" "bfreed s c"
    and used: "\<And>d. d < c \<Longrightarrow> \<not> bfreed s d" and m: "\<And>d. d \<le> c \<Longrightarrow> bmap_block s d < lg_start (lg s)"
    and i: "i \<le> unat c div 4096" "unat c div 4096 < n" and u: "lsame s u"
  shows "wp (balloc_loop 1 (sblock s) (map (\<lambda>i. of_nat (4096 * i)) [i..<n]))
    (\<lambda>r t. r = c \<and> txn k t \<and> wrote2 (bmap_block s c) (mark_bit (unat c mod 4096)) c (replicate 512 0) s t) u"
  using i u
proof (induction "unat c div 4096 - i" arbitrary: i u)
  case (Suc j)
  let ?b = "of_nat (4096 * i) :: u32" and ?sb = "sblock s"
  have lt: "i < unat c div 4096" using Suc.hyps(2) by simp
  have below: "?b + of_nat bi < c \<and> bmap_block s (?b + of_nat bi) = BBLOCK ?b (sb_ninodes ?sb) \<and> unat (?b + of_nat bi) mod 4096 = bi"
    if "bi < 4096" for bi
  proof -
    note g = group[OF Suc.prems(1) that]
    have "4096 * i + bi < 4096 * (unat c div 4096)" using lt that by linarith
    also have "\<dots> \<le> unat c" by simp
    finally show ?thesis using g that by (simp add: word_less_nat_alt bmap_block_def)
  qed
  have none: "find (\<lambda>bi. ?b + of_nat bi < sb_size ?sb \<and> bit_clear (blk u (BBLOCK ?b (sb_ninodes ?sb))) bi) [0..<BPB] = None"
  proof -
    have "\<not> bit_clear (blk s (BBLOCK ?b (sb_ninodes ?sb))) bi" if "bi < 4096" for bi
      using used[of "?b + of_nat bi"] below[OF that] by (auto simp: bfreed_def)
    then show ?thesis using lsame_simps(1)[OF Suc.prems(3)] by (auto simp: find_None_iff)
  qed
  have m0: "BBLOCK ?b (sb_ninodes ?sb) < lg_start (lg s)" using m[of "?b + of_nat 0"] below[of 0] by (simp add: less_imp_le)
  have tu: "txn (Suc (Suc k)) u" by (rule txn_lsame[OF t Suc.prems(3)])
  have "wp (balloc_loop 1 ?sb (?b # map (\<lambda>i. of_nat (4096 * i)) [Suc i..<n]))
    (\<lambda>r t. r = c \<and> txn k t \<and> wrote2 (bmap_block s c) (mark_bit (unat c mod 4096)) c (replicate 512 0) s t) u"
  proof (rule balloc_next[OF tu _ none])
    show "BBLOCK ?b (sb_ninodes ?sb) < disksize u" using txn_start[OF t m0] lsame_simps(4)[OF Suc.prems(3)] by simp
    fix v assume "lsame u v"
    then show "wp (balloc_loop 1 ?sb (map (\<lambda>i. of_nat (4096 * i)) [Suc i..<n]))
      (\<lambda>r t. r = c \<and> txn k t \<and> wrote2 (bmap_block s c) (mark_bit (unat c mod 4096)) c (replicate 512 0) s t) v"
      using Suc.hyps lt Suc.prems lsame_trans[OF Suc.prems(3)] by (intro Suc.hyps(1)) auto
  qed
  moreover have "[i..<n] = i # [Suc i..<n]" using lt Suc.prems(2) by (simp add: upt_conv_Cons)
  ultimately show ?case by (simp only: list.map)
next
  case 0
  let ?b = "of_nat (4096 * i) :: u32" and ?sb = "sblock s" and ?bi = "unat c mod 4096"
  have i0: "i = unat c div 4096" using 0 by simp
  have at: "unat (?b + of_nat bi) = 4096 * i + bi" "bmap_block s (?b + of_nat bi) = BBLOCK ?b (sb_ninodes ?sb)"
    "unat (?b + of_nat bi) mod 4096 = bi" if "bi < 4096" for bi
    using group[OF 0(2) that] that by (simp_all add: bmap_block_def)
  have "unat (?b + of_nat ?bi) = unat c" using at(1)[of ?bi] i0 by simp
  then have cb: "?b + of_nat ?bi = c" by (simp add: word_unat_eq_iff)
  have blk: "blk u = blk s" "lg u = lg s" using lsame_simps[OF 0(4)] by simp_all
  have cB: "bmap_block s c = BBLOCK ?b (sb_ninodes ?sb)" using at(2)[of ?bi] cb by simp
  have "find (\<lambda>bi. ?b + of_nat bi < sb_size ?sb \<and> bit_clear (blk u (BBLOCK ?b (sb_ninodes ?sb))) bi) [0..<BPB] = Some ?bi"
  proof -
    have "\<not> bit_clear (blk s (BBLOCK ?b (sb_ninodes ?sb))) bi" if "bi < ?bi" for bi
    proof -
      have l: "bi < 4096" using that by simp
      have "unat (?b + of_nat bi) < unat c" using at(1)[OF l] at(1)[of ?bi] cb that by simp
      then show ?thesis using used[of "?b + of_nat bi"] at[OF l] by (simp add: bfreed_def word_less_nat_alt)
    qed
    moreover have "bit_clear (blk s (BBLOCK ?b (sb_ninodes ?sb))) ?bi" using c(3) cB by (simp add: bfreed_def)
    ultimately show ?thesis using c(1) cb blk(1) by (auto simp: find_first)
  qed
  from balloc_block[OF txn_lsame[OF t 0(4)] _ _ this refl, of "map (\<lambda>i. of_nat (4096 * i)) [Suc i..<n]"]
  have "wp (balloc_loop 1 ?sb (?b # map (\<lambda>i. of_nat (4096 * i)) [Suc i..<n]))
    (\<lambda>r t. r = c \<and> txn k t \<and> wrote2 (bmap_block s c) (mark_bit ?bi) r (replicate 512 0) u t) u"
    using m[of c] c(2) cB blk(2) cb by (simp del: balloc_loop.simps)
  then have "wp (balloc_loop 1 ?sb (?b # map (\<lambda>i. of_nat (4096 * i)) [Suc i..<n]))
    (\<lambda>r t. r = c \<and> txn k t \<and> wrote2 (bmap_block s c) (mark_bit ?bi) c (replicate 512 0) s t) u"
    by (rule wp_mono) (use lsame_simps[OF 0(4)] lframe_trans in \<open>auto simp: wrote2_def\<close>)
  moreover have "[i..<n] = i # [Suc i..<n]" using 0(3) i0 by (simp add: upt_conv_Cons)
  ultimately show ?case by (simp only: list.map)
qed

lemma balloc_wp:
  fixes c :: u32
  assumes t: "txn (Suc (Suc k)) s" and c: "c < sb_size (sblock s)" "c < lg_start (lg s)" "bfreed s c"
    and used: "\<And>d. d < c \<Longrightarrow> \<not> bfreed s d" and m: "\<And>d. d \<le> c \<Longrightarrow> bmap_block s d < lg_start (lg s)"
    and one: "1 < disksize s"
  shows "wp (balloc 1) (\<lambda>r t. r = c \<and> txn k t \<and> wrote2 (bmap_block s c) (mark_bit (unat c mod 4096)) c (replicate 512 0) s t) s"
proof -
  have "unat c div 4096 < (unat (sb_size (sblock s)) + 4096 - 1) div 4096"
  proof -
    have "unat c < unat (sb_size (sblock s))" using c(1) by (simp add: word_less_nat_alt)
    then have "(unat c + 4096) div 4096 \<le> (unat (sb_size (sblock s)) + 4096 - 1) div 4096" by (intro div_le_mono) simp
    then show ?thesis by simp
  qed
  then show ?thesis unfolding balloc_def wp_simps
    by (intro readsb_wp[OF t one] balloc_scan[OF t c used m]) auto
qed

lemma bfree_wp:
  assumes t: "txn (Suc k) s" and m: "bmap_block s b < lg_start (lg s)" and used: "\<not> bfreed s b" and one: "1 < disksize s"
  shows "wp (bfree 1 b) (\<lambda>_ t. txn k t \<and> lframe s t \<and> disk t = disk s \<and>
    blk t = (blk s)(bmap_block s b := unmark_bit (unat b mod 4096) (blk s (bmap_block s b)))) s"
  unfolding bfree_def wp_simps
proof (rule readsb_wp[OF t one])
  fix u assume u: "lsame s u"
  let ?m = "BBLOCK b (sb_ninodes (sblock s))" and ?bi = "unat b mod BPB"
  let ?Q = "\<lambda>t. txn k t \<and> lframe s t \<and> disk t = disk s \<and>
    blk t = (blk s)(bmap_block s b := unmark_bit (unat b mod 4096) (blk s (bmap_block s b)))"
  have m': "?m < lg_start (lg u)" "?m = bmap_block s b" using m lsame_simps(2)[OF u] by (simp_all add: bmap_block_def)
  have tu: "txn (Suc k) u" by (rule txn_lsame[OF t u])
  have s: "?m < disksize u" "length (blk u ?m) = 512" using txn_start[OF tu m'(1)] by auto
  show "wp (bread 1 ?m) (\<lambda>bp. wp (bdata bp) (\<lambda>d. wp (let bi = ?bi in if bit_clear d bi then panic ''freeing free block''
       else thn (bstore bp (unmark_bit bi)) (thn (log_write bp) (brelse bp))) (\<lambda>_. ?Q))) u"
  proof (rule wp_mono[OF txn_bread[OF tu s(1)]])
    fix bp v assume r: "reading ?m bp u v"
    have nb: "\<not> bit_clear (blk u ?m) ?bi" using used lsame_simps(1)[OF u] m'(2) by (simp add: bfreed_def)
    have "wp (bstore bp (unmark_bit ?bi)) (\<lambda>_. wp (log_write bp) (\<lambda>_. wp (brelse bp) (\<lambda>_. ?Q))) v"
    proof (rule update_wp[OF tu r m'(1), of "unmark_bit ?bi"])
      show "length (unmark_bit ?bi (blk u ?m)) = 512" using bit_clear_unmark(1)[OF s(2)] by simp
      fix w assume w: "logged ?m (unmark_bit ?bi) u w"
      have "lframe s w" using lframe_trans lsame_simps(5)[OF u] w by (auto simp: logged_def)
      with w txn_logged[OF tu w] lsame_simps[OF u] m'(2) show "?Q w" by (simp add: logged_def)
    qed
    then show "wp (bdata bp) (\<lambda>d. wp (let bi = ?bi in if bit_clear d bi then panic ''freeing free block''
       else thn (bstore bp (unmark_bit bi)) (thn (log_write bp) (brelse bp))) (\<lambda>_. ?Q)) v"
      unfolding reading_data[OF r] using nb by (simp add: Let_def)
  qed
qed

lemma bmap_block_not_super: "bmap_block s b \<noteq> 1"
proof
  let ?n = "sb_ninodes (sblock s)"
  assume "bmap_block s b = 1"
  then have e: "b div 4096 + ?n div 8 + 3 = 1" by (simp add: bmap_block_def BBLOCK_def)
  have "unat (b div 4096) \<le> 4294967295 div 4096" "unat (?n div 8) \<le> 4294967295 div 8"
    using unat_lt32[of b] unat_lt32[of ?n] by (simp_all add: unat_div div_le_mono del: div_le_mono2)
  then have "unat (b div 4096) + unat (?n div 8) + 3 < 4294967296" by simp
  then have "unat (of_nat (unat (b div 4096) + unat (?n div 8) + 3) :: u32) = unat (b div 4096) + unat (?n div 8) + 3"
    by (rule unat_of_nat32)
  moreover have "of_nat (unat (b div 4096) + unat (?n div 8) + 3) = b div 4096 + ?n div 8 + 3" by simp
  ultimately show False using e by (simp del: of_nat_add)
qed

lemma bmap_slot: "bmap_block s d = bmap_block s c \<Longrightarrow> d \<noteq> c \<Longrightarrow> unat d mod 4096 \<noteq> unat c mod 4096"
proof
  assume "bmap_block s d = bmap_block s c" "d \<noteq> c" "unat d mod 4096 = unat c mod 4096"
  then have "d div 4096 = c div 4096" by (simp add: bmap_block_def BBLOCK_def)
  then have "unat (d div 4096) = unat (c div 4096)" by simp
  then have "unat d div 4096 = unat c div 4096" by (simp add: unat_div)
  with \<open>unat d mod 4096 = unat c mod 4096\<close> have "unat d = unat c" by (metis mult_div_mod_eq)
  with \<open>d \<noteq> c\<close> show False by (simp add: word_unat_eq_iff)
qed


lemma kst_ex_sblock: "sblock kst_ex = \<lparr>sb_size = 15, sb_nblocks = 1, sb_ninodes = 8, sb_nlog = 10\<rparr>"
  using biost_up_ok(3) by (simp add: sblock_def kst_ex_log disk_ex_def word_at_def bytes_at_def)


end
