(* ===== verification/Filedata.thy ===== *)
theory Filedata
  imports Balloc
begin

text \<open>
  The contents of a file: \<open>readi\<close> and \<open>writei\<close> on an inode whose blocks are allocated act on one array
  of bytes, the contents of its blocks in order, direct blocks first and then those of the indirect block.
\<close>

section \<open>The bytes of an inode\<close>

definition baddr :: "nat \<Rightarrow> 'z fsst_scheme \<Rightarrow> nat \<Rightarrow> u32" where
  "baddr ip s bn = (if bn < NDIRECT then i_addrs (icache s ! ip) ! bn
     else word_at (blk s (i_addrs (icache s ! ip) ! NDIRECT)) (bn - NDIRECT))"

definition fbytes :: "nat \<Rightarrow> 'z fsst_scheme \<Rightarrow> nat \<Rightarrow> u8 list" where
  "fbytes ip s k = concat (map (\<lambda>bn. blk s (baddr ip s bn)) [0..<k])"

definition mapped :: "nat \<Rightarrow> nat \<Rightarrow> 'z fsst_scheme \<Rightarrow> bool" where
  "mapped k ip s \<longleftrightarrow> k \<le> MAXFILE \<and> inode_in ip s \<and> (\<forall>bn < k. baddr ip s bn \<noteq> 0 \<and> baddr ip s bn < lg_start (lg s)) \<and>
     (NDIRECT < k \<longrightarrow> i_addrs (icache s ! ip) ! NDIRECT \<noteq> 0 \<and> i_addrs (icache s ! ip) ! NDIRECT < lg_start (lg s))"

lemma length_concat_blocks:
  assumes "\<And>b. b < k \<Longrightarrow> length (f b) = 512"
  shows "length (concat (map f [0..<k])) = 512 * k"
  using assms by (induction k) auto

lemma nth_concat_blocks:
  assumes "\<And>b. b < k \<Longrightarrow> length (f b) = 512" "i < 512 * k"
  shows "concat (map f [0..<k]) ! i = f (i div 512) ! (i mod 512)"
  using assms
proof (induction k)
  case (Suc k)
  have len: "length (concat (map f [0..<k])) = 512 * k" using Suc.prems(1) by (intro length_concat_blocks) simp
  show ?case
  proof (cases "i < 512 * k")
    case True
    then show ?thesis using Suc len by (simp add: nth_append)
  next
    case False
    then obtain r where "i = 512 * k + r" using le_Suc_ex not_le_imp_less by blast
    then show ?thesis using Suc.prems(2) len by (simp add: nth_append)
  qed
qed simp

lemma fbytes_simps:
  assumes "txn j s" "mapped k ip s"
  shows "length (fbytes ip s k) = 512 * k" "i < 512 * k \<Longrightarrow> fbytes ip s k ! i = blk s (baddr ip s (i div 512)) ! (i mod 512)"
proof -
  have "length (blk s (baddr ip s b)) = 512" if "b < k" for b
    using txn_start[OF assms(1), of "baddr ip s b"] assms(2) that by (simp add: mapped_def)
  then show "length (fbytes ip s k) = 512 * k" "i < 512 * k \<Longrightarrow> fbytes ip s k ! i = blk s (baddr ip s (i div 512)) ! (i mod 512)"
    unfolding fbytes_def by (auto intro: length_concat_blocks nth_concat_blocks)
qed

lemma lsame_file:
  fixes s t :: "'z fsst_scheme"
  assumes "lsame s t"
  shows "icache t = icache s" "baddr ip t = baddr ip s" "fbytes ip t k = fbytes ip s k" "mapped k ip t = mapped k ip s" "inode_in ip t = inode_in ip s"
proof -
  show "icache t = icache s" using lframe_fsst(1) lsame_simps(5)[OF assms] by blast
  then show "baddr ip t = baddr ip s" by (simp add: baddr_def lsame_simps(1)[OF assms] fun_eq_iff)
  then show "fbytes ip t k = fbytes ip s k" by (simp add: fbytes_def lsame_simps(1)[OF assms])
  show "inode_in ip t = inode_in ip s" by (simp add: inode_in_def \<open>icache t = icache s\<close> lsame_simps(2)[OF assms])
  then show "mapped k ip t = mapped k ip s"
    by (simp add: mapped_def \<open>baddr ip t = baddr ip s\<close> \<open>icache t = icache s\<close> lsame_simps(2)[OF assms])
qed

section \<open>Reading\<close>

lemma bmap_wp:
  assumes t: "txn j s" and m: "mapped k ip s" and bn: "bn < k" and Q: "\<And>t. lsame s t \<Longrightarrow> Q (baddr ip s bn) t"
  shows "wp (bmap ip (of_nat bn)) Q s"
proof -
  have lt: "bn < 140" and ip: "ip < length (icache s)" "i_dev (icache s ! ip) = 1" and a: "baddr ip s bn \<noteq> 0"
    using m bn by (auto simp: mapped_def inode_in_def)
  have u: "unat (of_nat bn :: u32) = bn" using lt by (simp add: unat_of_nat32)
  show ?thesis
  proof (cases "bn < 12")
    case True
    then have "(of_nat bn :: u32) < 12" using u by (simp add: word_less_nat_alt)
    then show ?thesis using True u ip a Q[OF lsame_refl] t
      by (simp add: bmap_def addr_at_def baddr_def txn_def)
  next
    case False
    have n: "\<not> (of_nat bn :: u32) < 12" using u False by (simp add: word_less_nat_alt)
    have d: "(of_nat bn :: u32) - 12 = of_nat (bn - 12)" using False by (simp add: of_nat_diff)
    have ud: "unat (of_nat (bn - 12) :: u32) = bn - 12" using lt by (simp add: unat_of_nat32)
    then have l: "(of_nat (bn - 12) :: u32) < 128" using lt by (simp add: word_less_nat_alt)
    let ?a = "i_addrs (icache s ! ip) ! 12"
    have ind: "?a \<noteq> 0" "?a < lg_start (lg s)" using m bn False by (auto simp: mapped_def)
    have w: "word_at (blk s ?a) (bn - 12) = baddr ip s bn" using False by (simp add: baddr_def)
    have "wp (bread 1 ?a) (\<lambda>bp. wp (bdata bp) (\<lambda>d. wp (if word_at d (bn - 12) = 0
               then bnd (balloc 1) (\<lambda>a. thn (bstore bp (set_word (bn - 12) a)) (thn (log_write bp) (ret a)))
               else ret (word_at d (bn - 12))) (\<lambda>a. wp (brelse bp) (\<lambda>_. Q a)))) s"
    proof (rule wp_mono[OF txn_bread[OF t]])
      show "?a < disksize s" using txn_start[OF t ind(2)] by simp
      fix bp v assume r: "reading ?a bp s v"
      have "wp (brelse bp) (\<lambda>_. Q (baddr ip s bn)) v" by (rule wp_mono[OF reading_rls[OF t r]]) (rule Q)
      then show "wp (bdata bp) (\<lambda>d. wp (if word_at d (bn - 12) = 0
               then bnd (balloc 1) (\<lambda>a. thn (bstore bp (set_word (bn - 12) a)) (thn (log_write bp) (ret a)))
               else ret (word_at d (bn - 12))) (\<lambda>a. wp (brelse bp) (\<lambda>_. Q a))) v"
        unfolding reading_data[OF r] using a by (simp add: w)
    qed
    then show ?thesis using n l ip ind(1) ud by (simp add: bmap_def d addr_at_def Let_def cong: if_cong)
  qed
qed

lemma chunk:
  fixes off left :: u32
  assumes "left \<noteq> 0" "unat off + unat left < 4294967296"
  defines "m \<equiv> min left (512 - off mod 512)"
  shows "unat m = min (unat left) (512 - unat off mod 512)" "unat (off mod 512) = unat off mod 512" "unat (off div 512) = unat off div 512"
    "unat (off + m) = unat off + unat m" "unat (left - m) = unat left - unat m" "0 < unat m" "unat (left - m) < unat left"
proof -
  show o: "unat (off mod 512) = unat off mod 512" "unat (off div 512) = unat off div 512" by (simp_all add: unat_mod unat_div)
  have l: "off mod 512 \<le> 512" using o(1) by (simp add: word_le_nat_alt less_imp_le)
  then have r: "unat (512 - off mod 512) = 512 - unat off mod 512" by (simp add: unat_sub o(1))
  then show u: "unat m = min (unat left) (512 - unat off mod 512)" by (simp add: m_def min_def word_le_nat_alt)
  show "unat (off + m) = unat off + unat m" using assms(2) u by (simp add: unat_word_ariths)
  have "m \<le> left" by (simp add: m_def)
  then show d: "unat (left - m) = unat left - unat m" by (rule unat_sub)
  have "0 < unat left" using assms(1) by (simp add: unat_gt_0)
  then show "0 < unat m" using u by simp
  then show "unat (left - m) < unat left" using d \<open>0 < unat left\<close> by simp
qed

lemma bytes_at_split: "m \<le> n \<Longrightarrow> bytes_at off n xs = bytes_at off m xs @ bytes_at (off + m) (n - m) xs"
  unfolding bytes_at_def by (metis drop_drop add.commute le_add_diff_inverse take_add)

lemma div_mod_chunk:
  assumes "a mod 512 + i < (512 :: nat)"
  shows "(a + i) div 512 = a div 512" "(a + i) mod 512 = a mod 512 + i"
proof -
  define q r where "q = a div 512" and "r = a mod 512 + i"
  have "a + i = 512 * q + r" by (simp add: q_def r_def)
  moreover have "r < 512" using assms by (simp add: r_def)
  ultimately have "(a + i) div 512 = q \<and> (a + i) mod 512 = r" by simp
  then show "(a + i) div 512 = a div 512" "(a + i) mod 512 = a mod 512 + i" by (simp_all add: q_def r_def)
qed

lemma bytes_at_block:
  assumes "txn j s" "mapped k ip s" "off + m \<le> 512 * k" "m \<le> 512 - off mod 512" "0 < m"
  shows "bytes_at (off mod 512) m (blk s (baddr ip s (off div 512))) = bytes_at off m (fbytes ip s k)"
proof (rule nth_equalityI)
  note F = fbytes_simps[OF assms(1,2)]
  have bl: "off div 512 < k" using assms(3,5) by (simp add: less_mult_imp_div_less mult.commute)
  then have len: "length (blk s (baddr ip s (off div 512))) = 512"
    using txn_start[OF assms(1), of "baddr ip s (off div 512)"] assms(2) by (simp add: mapped_def)
  have fit: "off mod 512 + m \<le> 512" using assms(4) mod_less_divisor[of 512 off] by linarith
  then show l: "length (bytes_at (off mod 512) m (blk s (baddr ip s (off div 512)))) = length (bytes_at off m (fbytes ip s k))"
    using len assms(3) F(1) by simp
  fix i assume "i < length (bytes_at (off mod 512) m (blk s (baddr ip s (off div 512))))"
  then have i: "i < m" using len fit by simp
  have "(off + i) div 512 = off div 512" "(off + i) mod 512 = off mod 512 + i"
    by (rule div_mod_chunk; use fit i in linarith)+
  then show "bytes_at (off mod 512) m (blk s (baddr ip s (off div 512))) ! i = bytes_at off m (fbytes ip s k) ! i"
    using i fit len F assms(3) by simp
qed

lemma readi_loop_wp:
  assumes "txn j s" "mapped k ip s" "unat off + unat left \<le> 512 * k" "unat left \<le> fuel"
  shows "wp (readi_loop fuel ip off left) (\<lambda>r t. r = bytes_at (unat off) (unat left) (fbytes ip s k) \<and> lsame s t) s"
  using assms
proof (induction fuel arbitrary: off left s)
  case 0
  then have "left = 0" by (simp add: unat_eq_0)
  then show ?case using txn_same[OF 0(1)] by (simp add: readi_loop.simps bytes_at_def)
next
  case (Suc fuel)
  show ?case
  proof (cases "left = 0")
    case True
    then show ?thesis using txn_same[OF Suc.prems(1)] by (simp add: readi_loop.simps bytes_at_def)
  next
    case False
    let ?m = "min left (512 - off mod 512)" and ?bn = "unat off div 512"
    have k: "k \<le> 140" and ip: "ip < length (icache s)" "i_dev (icache s ! ip) = 1"
      using Suc.prems(2) by (auto simp: mapped_def inode_in_def)
    have "unat off + unat left < 4294967296" using Suc.prems(3) k by linarith
    note C = chunk[OF False this]
    have ml: "unat ?m \<le> unat left" "unat ?m \<le> 512 - unat off mod 512" using C(1) by simp_all
    have "unat off < k * 512" using Suc.prems(3) C(6) ml(1) by linarith
    then have bn: "?bn < k" by (rule less_mult_imp_div_less)
    have od: "off div 512 = of_nat ?bn" by (simp flip: C(3))
    have a: "baddr ip s ?bn < lg_start (lg s)" using Suc.prems(2) bn by (simp add: mapped_def)
    let ?Q = "\<lambda>r t. r = bytes_at (unat off) (unat left) (fbytes ip s k) \<and> lsame s t"
    have "wp (bmap ip (off div 512)) (\<lambda>a. wp (geti ip) (\<lambda>x. wp (bread (i_dev x) a) (\<lambda>bp. wp (bdata bp) (\<lambda>d. wp (brelse bp) (\<lambda>_.
        wp (readi_loop fuel ip (off + ?m) (left - ?m)) (\<lambda>r. ?Q (bytes_at (unat (off mod 512)) (unat ?m) d @ r))))))) s"
      unfolding od
    proof (rule bmap_wp[OF Suc.prems(1,2) bn])
      fix t assume t: "lsame s t"
      have T: "txn j t" "mapped k ip t" using txn_lsame[OF Suc.prems(1) t] lsame_file(4)[OF t] Suc.prems(2) by simp_all
      have "wp (bread 1 (baddr ip s ?bn)) (\<lambda>bp. wp (bdata bp) (\<lambda>d. wp (brelse bp) (\<lambda>_.
        wp (bnd (readi_loop fuel ip (off + ?m) (left - ?m)) (\<lambda>r. ret (bytes_at (unat (off mod 512)) (unat ?m) d @ r))) ?Q))) t"
      proof (rule read_wp[OF T(1)])
        show "baddr ip s ?bn < disksize t" using txn_start[OF Suc.prems(1) a] lsame_simps(4)[OF t] by simp
        fix u assume u: "lsame t u"
        have su: "lsame s u" by (rule lsame_trans[OF t u])
        have U: "txn j u" "mapped k ip u" using txn_lsame[OF Suc.prems(1) su] lsame_file(4)[OF su] Suc.prems(2) by simp_all
        have "wp (readi_loop fuel ip (off + ?m) (left - ?m))
           (\<lambda>r v. r = bytes_at (unat (off + ?m)) (unat (left - ?m)) (fbytes ip u k) \<and> lsame u v) u"
          by (rule Suc.IH[OF U]; use C(4,5,7) ml Suc.prems(3,4) in linarith)
        then have "wp (readi_loop fuel ip (off + ?m) (left - ?m))
           (\<lambda>r. ?Q (bytes_at (unat (off mod 512)) (unat ?m) (blk t (baddr ip s ?bn)) @ r)) u"
        proof (rule wp_mono)
          fix r v assume v: "r = bytes_at (unat (off + ?m)) (unat (left - ?m)) (fbytes ip u k) \<and> lsame u v"
          have "bytes_at (unat (off mod 512)) (unat ?m) (blk s (baddr ip s ?bn)) = bytes_at (unat off) (unat ?m) (fbytes ip s k)"
            unfolding C(2) by (rule bytes_at_block[OF Suc.prems(1,2) _ ml(2) C(6)]) (use ml(1) Suc.prems(3) in linarith)
          then show "?Q (bytes_at (unat (off mod 512)) (unat ?m) (blk t (baddr ip s ?bn)) @ r) v"
            using v lsame_trans[OF su] lsame_file(3)[OF su] lsame_simps(1)[OF t] C(4,5) bytes_at_split[OF ml(1), of "unat off" "fbytes ip s k"]
            by simp
        qed
        then show "wp (bnd (readi_loop fuel ip (off + ?m) (left - ?m)) (\<lambda>r. ret (bytes_at (unat (off mod 512)) (unat ?m) (blk t (baddr ip s ?bn)) @ r))) ?Q u"
          by simp
      qed
      then show "wp (geti ip) (\<lambda>x. wp (bread (i_dev x) (baddr ip s ?bn)) (\<lambda>bp. wp (bdata bp) (\<lambda>d. wp (brelse bp) (\<lambda>_.
        wp (readi_loop fuel ip (off + ?m) (left - ?m)) (\<lambda>r. ?Q (bytes_at (unat (off mod 512)) (unat ?m) d @ r)))))) t"
        using ip lsame_file(1)[OF t] by simp
    qed
    then show ?thesis using False by (simp add: readi_loop.simps[of "Suc fuel"] Let_def)
  qed
qed

section \<open>Writing\<close>

text \<open>The blocks of the file are different from each other, from the indirect block and from the inode's block.\<close>

definition apart_blocks :: "nat \<Rightarrow> nat \<Rightarrow> 'z fsst_scheme \<Rightarrow> bool" where
  "apart_blocks k ip s \<longleftrightarrow> inj_on (baddr ip s) {..<k} \<and> (\<forall>bn < k. baddr ip s bn \<noteq> IBLOCK (i_inum (icache s ! ip)) \<and>
     (NDIRECT < k \<longrightarrow> baddr ip s bn \<noteq> i_addrs (icache s ! ip) ! NDIRECT)) \<and>
     (NDIRECT < k \<longrightarrow> i_addrs (icache s ! ip) ! NDIRECT \<noteq> IBLOCK (i_inum (icache s ! ip)))"

text \<open>What writing to the file may change: the contents of its blocks and the header of the log.\<close>

definition fwrote :: "nat \<Rightarrow> nat \<Rightarrow> 'z fsst_scheme \<Rightarrow> 'z fsst_scheme \<Rightarrow> bool" where
  "fwrote k ip s t \<longleftrightarrow> lframe s t \<and> disk t = disk s \<and> lg_start (lg t) = lg_start (lg s) \<and>
     (\<forall>x. x \<notin> baddr ip s ` {..<k} \<longrightarrow> blk t x = blk s x) \<and> (\<forall>bn < k. baddr ip t bn = baddr ip s bn)"

lemma fwrote_same: "lsame s t \<Longrightarrow> fwrote k ip s t"
  by (simp add: fwrote_def lsame_simps lsame_file)

lemma fwrote_trans: "fwrote k ip s t \<Longrightarrow> fwrote k ip t u \<Longrightarrow> fwrote k ip s u"
proof -
  assume a: "fwrote k ip s t" "fwrote k ip t u"
  then have "baddr ip t ` {..<k} = baddr ip s ` {..<k}" by (auto simp: fwrote_def)
  with a show ?thesis using lframe_trans by (auto simp: fwrote_def)
qed

lemma fwrote_file:
  assumes "fwrote k ip s t"
  shows "mapped k ip s \<Longrightarrow> mapped k ip t" "apart_blocks k ip s \<Longrightarrow> apart_blocks k ip t" "icache t = icache s"
proof -
  show ic: "icache t = icache s" using assms lframe_fsst(1) by (auto simp: fwrote_def)
  show "mapped k ip t" if "mapped k ip s" using that assms ic by (auto simp: mapped_def fwrote_def inode_in_def)
  show "apart_blocks k ip t" if "apart_blocks k ip s"
    using that assms ic by (auto simp: apart_blocks_def fwrote_def inj_on_def)
qed

lemma fwrote_chunk:
  assumes t: "txn (Suc j) s" and m: "mapped k ip s" and d: "apart_blocks k ip s" and bn: "bn < k"
    and l: "logged (baddr ip s bn) f s t"
  shows "fwrote k ip s t"
proof -
  have lf: "lframe s t" and b: "blk t = (blk s)(baddr ip s bn := f (blk s (baddr ip s bn)))" using l by (auto simp: logged_def)
  have ic: "icache t = icache s" by (rule lframe_fsst(1)[OF lf])
  have "baddr ip t c = baddr ip s c" if "c < k" for c
    using d bn that ic b by (auto simp: baddr_def[of ip t] baddr_def[of ip s c] apart_blocks_def)
  then show ?thesis using l b lf bn by (auto simp: fwrote_def logged_def)
qed

lemma fbytes_chunk:
  assumes t: "txn (Suc j) s" and m: "mapped k ip s" and d: "apart_blocks k ip s"
    and x: "off + length xs \<le> 512 * k" "length xs \<le> 512 - off mod 512" "xs \<noteq> []"
    and l: "logged (baddr ip s (off div 512)) (put_at (off mod 512) xs) s t"
  shows "fbytes ip t k = put_at off xs (fbytes ip s k)"
proof (rule nth_equalityI)
  let ?bn = "off div 512" and ?r = "off mod 512"
  have "off < k * 512" using x(1,3) by (cases xs) auto
  then have bn: "?bn < k" by (rule less_mult_imp_div_less)
  note w = fwrote_chunk[OF t m d bn l]
  have T: "txn j t" "mapped k ip t" using txn_logged[OF t l] fwrote_file(1)[OF w m] by simp_all
  note F = fbytes_simps[OF t m] and G = fbytes_simps[OF T]
  show "length (fbytes ip t k) = length (put_at off xs (fbytes ip s k))" using F(1) G(1) x(1) by simp
  fix i assume "i < length (fbytes ip t k)"
  then have i: "i < 512 * k" using G(1) by simp
  then have ik: "i div 512 < k" by (simp add: less_mult_imp_div_less mult.commute)
  have r: "?r + length xs \<le> 512" using x(2) mod_less_divisor[of 512 off] by linarith
  have len: "length (blk s (baddr ip s ?bn)) = 512"
    using txn_start[OF t, of "baddr ip s ?bn"] m bn by (simp add: mapped_def)
  have ai: "baddr ip t (i div 512) = baddr ip s (i div 512)" using w ik by (simp add: fwrote_def)
  have P: "put_at off xs (fbytes ip s k) ! i = (if off \<le> i \<and> i < off + length xs then xs ! (i - off) else fbytes ip s k ! i)"
    using nth_put_at[of off xs "fbytes ip s k" i] F(1) x(1) i by simp
  have i_eq: "i = 512 * (i div 512) + i mod 512" and o_eq: "off = 512 * ?bn + ?r" by simp_all
  have bt: "blk t = (blk s)(baddr ip s ?bn := put_at ?r xs (blk s (baddr ip s ?bn)))" using l by (simp add: logged_def)
  show "fbytes ip t k ! i = put_at off xs (fbytes ip s k) ! i"
  proof (cases "i div 512 = ?bn")
    case True
    have c: "off \<le> i \<longleftrightarrow> ?r \<le> i mod 512" "i < off + length xs \<longleftrightarrow> i mod 512 < ?r + length xs" "i - off = i mod 512 - ?r"
      using i_eq o_eq True by linarith+
    show ?thesis unfolding P G(2)[OF i] F(2)[OF i] ai
      using True len r by (simp add: bt nth_put_at c)
  next
    case False
    have ne: "baddr ip s (i div 512) \<noteq> baddr ip s ?bn"
      using d False ik bn by (auto simp: apart_blocks_def inj_on_def)
    have "\<not> (off \<le> i \<and> i < off + length xs)"
    proof
      assume "off \<le> i \<and> i < off + length xs"
      then have a: "off \<le> i" "i < off + length xs" by simp_all
      have "i < 512 * ?bn + 512" "512 * ?bn \<le> i" using a o_eq r by linarith+
      then have "i div 512 = ?bn" by (intro div_nat_eqI) simp_all
      then show False using False by simp
    qed
    then show ?thesis unfolding P G(2)[OF i] F(2)[OF i] ai using ne by (auto simp: bt)
  qed
qed

lemma put_at_split:
  assumes "m \<le> length xs" "off + length xs \<le> length F"
  shows "put_at (off + m) (drop m xs) (put_at off (take m xs) F) = put_at off xs F"
  using assms by (intro nth_equalityI) (auto simp: nth_put_at)

text \<open>The number of blocks that \<open>n\<close> bytes from \<open>off\<close> on touch.\<close>

definition nblk :: "nat \<Rightarrow> nat \<Rightarrow> nat" where
  "nblk off n = (if n = 0 then 0 else (off + n - 1) div 512 - off div 512 + 1)"

lemma nblk_step:
  assumes "0 < n" "m = min n (512 - off mod 512)"
  shows "nblk off n = Suc (nblk (off + m) (n - m))"
proof (cases "n \<le> 512 - off mod 512")
  case True
  then have "(off + (n - 1)) div 512 = off div 512"
    by (intro div_mod_chunk) (use assms(1) mod_less_divisor[of 512 off] in linarith)
  then show ?thesis using True assms by (simp add: nblk_def)
next
  case False
  define q r where "q = off div 512" and "r = off mod 512"
  have off: "off = 512 * q + r" "r < 512" by (simp_all add: q_def r_def)
  have m: "m = 512 - r" "512 - r < n" using assms(2) False by (simp_all add: r_def)
  then have o: "off + m = 512 * (q + 1)" using off by simp
  have e: "off + m + (n - m) - 1 = off + n - 1" using m by simp
  have "512 * (q + 1) \<le> off + n - 1" using o m by linarith
  then have "q + 1 \<le> (off + n - 1) div 512" by (simp add: less_eq_div_iff_mult_less_eq mult.commute)
  moreover have "(off + m) div 512 = q + 1" by (simp only: o) simp
  ultimately show ?thesis using m assms(1) e by (simp add: nblk_def Suc_diff_Suc flip: q_def)
qed

lemma writei_loop_wp:
  assumes "txn (nblk (unat off) (length src) + j) s" "mapped k ip s" "apart_blocks k ip s" "unat off + length src \<le> 512 * k"
    "length src \<le> fuel"
  shows "wp (writei_loop fuel ip off src) (\<lambda>_ t. txn j t \<and> fwrote k ip s t \<and> fbytes ip t k = put_at (unat off) src (fbytes ip s k)) s"
  using assms
proof (induction fuel arbitrary: off src s)
  case 0
  have "put_at (unat off) [] (fbytes ip s k) = fbytes ip s k" by (simp add: put_at_def)
  then show ?case using 0 txn_same[OF 0(1)] fwrote_same by (auto simp: writei_loop.simps nblk_def)
next
  case (Suc fuel)
  show ?case
  proof (cases "src = []")
    case True
    have "put_at (unat off) [] (fbytes ip s k) = fbytes ip s k" by (simp add: put_at_def)
    then show ?thesis using True Suc.prems(1) txn_same[OF Suc.prems(1)] fwrote_same by (auto simp: writei_loop.simps nblk_def)
  next
    case False
    define m where "m = min (length src) (512 - unat off mod 512)"
    let ?bn = "unat off div 512"
    let ?xs = "take m src" and ?f = "put_at (unat off mod 512) (take m src)"
    have k: "k \<le> 140" and ip: "ip < length (icache s)" "i_dev (icache s ! ip) = 1"
      using Suc.prems(2) by (auto simp: mapped_def inode_in_def)
    have n: "0 < length src" using False by simp
    have mpos: "0 < m" "m \<le> length src" "m \<le> 512 - unat off mod 512" using n by (simp_all add: m_def)
    have nb: "nblk (unat off) (length src) = Suc (nblk (unat off + m) (length src - m))" by (rule nblk_step[OF n m_def])
    have "unat off < k * 512" using Suc.prems(4) n by linarith
    then have bn: "?bn < k" by (rule less_mult_imp_div_less)
    have od: "off div 512 = of_nat ?bn" "unat (off mod 512) = unat off mod 512"
      by (simp_all add: unat_mod flip: unat_div[of off 512, simplified])
    have a: "baddr ip s ?bn < lg_start (lg s)" using Suc.prems(2) bn by (simp add: mapped_def)
    have om: "unat (off + of_nat m) = unat off + m"
    proof -
      have "unat off + m < 4294967296" using Suc.prems(4) mpos(2) k by linarith
      then show ?thesis by (rule unat_add_of_nat)
    qed
    let ?Q = "\<lambda>t. txn j t \<and> fwrote k ip s t \<and> fbytes ip t k = put_at (unat off) src (fbytes ip s k)"
    have "wp (bmap ip (of_nat ?bn)) (\<lambda>a. wp (geti ip) (\<lambda>x. wp (bread (i_dev x) a) (\<lambda>bp. wp (bstore bp ?f) (\<lambda>_. wp (log_write bp) (\<lambda>_.
        wp (brelse bp) (\<lambda>_. wp (writei_loop fuel ip (off + of_nat m) (drop m src)) (\<lambda>_. ?Q))))))) s"
    proof (rule bmap_wp[OF Suc.prems(1,2) bn])
      fix t assume t: "lsame s t"
      have T: "txn (Suc (nblk (unat off + m) (length src - m) + j)) t" "mapped k ip t" "apart_blocks k ip t"
        using txn_lsame[OF Suc.prems(1) t] nb fwrote_file(1,2)[OF fwrote_same[OF t]] Suc.prems(2,3) by simp_all
      have A: "baddr ip s ?bn = baddr ip t ?bn" using lsame_file(2)[OF t] by simp
      have at: "baddr ip t ?bn < lg_start (lg t)" using a lsame_simps(2)[OF t] A by simp
      have "wp (bread 1 (baddr ip t ?bn)) (\<lambda>bp. wp (bstore bp ?f) (\<lambda>_. wp (log_write bp) (\<lambda>_. wp (brelse bp) (\<lambda>_.
          wp (writei_loop fuel ip (off + of_nat m) (drop m src)) (\<lambda>_. ?Q))))) t"
      proof (rule change_wp[OF T(1) at, of ?f])
        have "length (blk t (baddr ip t ?bn)) = 512" using txn_start[OF T(1) at] by simp
        moreover have "unat off mod 512 + m \<le> 512" using mpos(3) mod_less_divisor[of 512 "unat off"] by linarith
        ultimately show "length (?f (blk t (baddr ip t ?bn))) = 512" by simp
        fix u assume u: "logged (baddr ip t ?bn) ?f t u"
        have lx: "length ?xs = m" using mpos(2) by simp
        have fu: "fbytes ip u k = put_at (unat off) ?xs (fbytes ip t k)"
          by (rule fbytes_chunk[OF T _ _ _ u]) (use mpos Suc.prems(4) False in \<open>simp_all add: lx del: length_take\<close>)
        note w = fwrote_trans[OF fwrote_same[OF t] fwrote_chunk[OF T bn u]]
        have "wp (writei_loop fuel ip (off + of_nat m) (drop m src)) (\<lambda>_ v. txn j v \<and> fwrote k ip u v \<and>
            fbytes ip v k = put_at (unat (off + of_nat m)) (drop m src) (fbytes ip u k)) u"
          by (rule Suc.IH) (use txn_logged[OF T(1) u] om mpos(1,2) Suc.prems(4,5) fwrote_file(1,2)[OF w] Suc.prems(2,3) in \<open>simp_all\<close>)
        then show "wp (writei_loop fuel ip (off + of_nat m) (drop m src)) (\<lambda>_. ?Q) u"
        proof (rule wp_mono)
          fix v assume v: "txn j v \<and> fwrote k ip u v \<and> fbytes ip v k = put_at (unat (off + of_nat m)) (drop m src) (fbytes ip u k)"
          have "unat off + length src \<le> length (fbytes ip s k)" using fbytes_simps(1)[OF Suc.prems(1,2)] Suc.prems(4) by simp
          then have "fbytes ip v k = put_at (unat off) src (fbytes ip s k)"
            using v fu om lsame_file(3)[OF t] put_at_split[OF mpos(2), of "unat off" "fbytes ip s k"] by simp
          with v fwrote_trans[OF w] show "?Q v" by simp
        qed
      qed
      then show "wp (geti ip) (\<lambda>x. wp (bread (i_dev x) (baddr ip s ?bn)) (\<lambda>bp. wp (bstore bp ?f) (\<lambda>_. wp (log_write bp) (\<lambda>_.
        wp (brelse bp) (\<lambda>_. wp (writei_loop fuel ip (off + of_nat m) (drop m src)) (\<lambda>_. ?Q)))))) t"
        using ip lsame_file(1)[OF t] A by simp
    qed
    then show ?thesis using False by (simp add: writei_loop.simps[of "Suc fuel"] Let_def od flip: m_def)
  qed
qed

section \<open>Files\<close>

lemma readi_wp:
  fixes s :: "'z consst_scheme"
  assumes "txn j s" "mapped k ip s" "off \<le> i_size (icache s ! ip)" "unat (i_size (icache s ! ip)) \<le> 512 * k"
    "unat off + unat n < 4294967296" "i_type (icache s ! ip) \<noteq> T_DEV"
  defines "m \<equiv> min (unat n) (unat (i_size (icache s ! ip)) - unat off)"
  shows "wp (readi ip off n) (\<lambda>r t. r = (int m, bytes_at (unat off) m (fbytes ip s k)) \<and> lsame s t) s"
proof -
  let ?z = "i_size (icache s ! ip)"
  let ?n = "if off + n > ?z then ?z - off else n"
  have k: "k \<le> 140" and ip: "ip < length (icache s)" using assms(2) by (auto simp: mapped_def inode_in_def)
  have u: "unat (off + n) = unat off + unat n" using unat_add_of_nat[of off "unat n"] assms(5) by simp
  have le: "unat off \<le> unat ?z" using assms(3) by (simp add: word_le_nat_alt)
  have m: "unat ?n = m" using u le by (auto simp: m_def word_less_nat_alt unat_sub[OF assms(3)])
  have b: "unat off + m \<le> 512 * k" "m < 2147483648" using le assms(4) k by (auto simp: m_def)
  have "wp (readi_loop (unat ?n) ip off ?n) (\<lambda>r t. r = bytes_at (unat off) (unat ?n) (fbytes ip s k) \<and> lsame s t) s"
    by (rule readi_loop_wp[OF assms(1,2)]) (use m b in simp_all)
  moreover have "sint ?n = int m" using sint_unat32[of ?n] m b(2) by simp
  moreover have "\<not> off + n < off" "\<not> ?z < off" using u le by (simp_all add: word_less_nat_alt)
  ultimately show ?thesis using ip assms(6) m by (simp add: readi_def Let_def cong: if_cong)
qed

lemma set_size_wp:
  assumes "txn (Suc j) s" "mapped k ip s" "apart_blocks k ip s"
  defines "b \<equiv> IBLOCK (i_inum (icache s ! ip))"
  shows "wp (thn (updi ip (\<lambda>x. x\<lparr>i_size := z\<rparr>)) (iupdate ip)) (\<lambda>_ t. txn j t \<and> mapped k ip t \<and>
    icache t = (icache s)[ip := (icache s ! ip)\<lparr>i_size := z\<rparr>] \<and> fbytes ip t k = fbytes ip s k \<and> disk t = disk s \<and>
    (\<forall>x. x \<noteq> b \<longrightarrow> blk t x = blk s x)) s"
proof -
  let ?s = "s\<lparr>icache := (icache s)[ip := (icache s ! ip)\<lparr>i_size := z\<rparr>]\<rparr>"
  have i: "inode_in ip s" "ip < length (icache s)" using assms(2) by (auto simp: mapped_def inode_in_def)
  have T: "txn (Suc j) ?s" "inode_in ip ?s" using assms(1) i by (simp_all add: inode_in_def)
  have "wp (iupdate ip) (\<lambda>_. logged b (put_dinode (i_inum (icache s ! ip)) (dinode_of ((icache s ! ip)\<lparr>i_size := z\<rparr>))) ?s) ?s"
    using iupdate_wp[OF T] i by (simp add: b_def)
  then show ?thesis
  proof (subst wp_simps, subst wp_updi[OF i(2)], elim wp_mono)
    fix t assume l: "logged b (put_dinode (i_inum (icache s ! ip)) (dinode_of ((icache s ! ip)\<lparr>i_size := z\<rparr>))) ?s t"
    have lf: "lframe ?s t" using l by (simp add: logged_def)
    have ic: "icache t = icache ?s" by (rule lframe_fsst(1)[OF lf])
    have bl: "blk t x = blk s x" if "x \<noteq> b" for x using l that by (simp add: logged_def)
    have ls: "lg_start (lg t) = lg_start (lg s)" "disk t = disk s" using l by (simp_all add: logged_def)
    have ba: "baddr ip t bn = baddr ip s bn" if "bn < k" for bn
      using assms(3) that ic bl i(2) by (auto simp: baddr_def apart_blocks_def b_def)
    have "map (\<lambda>bn. blk t (baddr ip t bn)) [0..<k] = map (\<lambda>bn. blk s (baddr ip s bn)) [0..<k]"
      using assms(3) ba bl by (auto simp: apart_blocks_def b_def)
    then have "fbytes ip t k = fbytes ip s k" unfolding fbytes_def by (rule arg_cong)
    moreover have "mapped k ip t" using assms(2) ba ic ls i by (auto simp: mapped_def inode_in_def)
    ultimately show "txn j t \<and> mapped k ip t \<and> icache t = (icache s)[ip := (icache s ! ip)\<lparr>i_size := z\<rparr>] \<and>
        fbytes ip t k = fbytes ip s k \<and> disk t = disk s \<and> (\<forall>x. x \<noteq> b \<longrightarrow> blk t x = blk s x)"
      using txn_logged[OF T(1) l] ic ls(2) bl by simp
  qed
qed

text \<open>What a write of \<open>src\<close> at \<open>off\<close> leaves.\<close>

definition written :: "nat \<Rightarrow> nat \<Rightarrow> u8 list \<Rightarrow> u32 \<Rightarrow> 'z fsst_scheme \<Rightarrow> 'z fsst_scheme \<Rightarrow> bool" where
  "written k ip src off s t \<longleftrightarrow> fbytes ip t k = put_at (unat off) src (fbytes ip s k) \<and> disk t = disk s \<and>
     icache t = (icache s)[ip := (icache s ! ip)\<lparr>i_size := (if src = [] then i_size (icache s ! ip)
        else max (i_size (icache s ! ip)) (off + of_nat (length src)))\<rparr>] \<and>
     (\<forall>x. x \<noteq> IBLOCK (i_inum (icache s ! ip)) \<longrightarrow> x \<notin> baddr ip s ` {..<k} \<longrightarrow> blk t x = blk s x)"

lemma writei_wp:
  fixes s :: "'z consst_scheme"
  assumes t: "txn (nblk (unat off) (length src) + Suc j) s" and m: "mapped k ip s" and a: "apart_blocks k ip s"
    and o: "off \<le> i_size (icache s ! ip)" "unat off + length src \<le> 512 * k" and ty: "i_type (icache s ! ip) \<noteq> T_DEV"
  shows "wp (writei ip src off) (\<lambda>r t. r = int (length src) \<and> txn j t \<and> mapped k ip t \<and> written k ip src off s t) s"
proof -
  let ?x = "icache s ! ip" and ?n = "of_nat (length src) :: u32"
  have k: "k \<le> 140" and ip: "ip < length (icache s)" using m by (auto simp: mapped_def inode_in_def)
  have lim: "unat off + length src \<le> 71680" using o(2) k by linarith
  then have u: "unat (off + ?n) = unat off + length src" "unat ?n = length src"
    by (simp_all add: unat_add_of_nat unat_of_nat32)
  have c: "\<not> off + ?n < off" "\<not> 71680 < off + ?n" "sint ?n = int (length src)" "0 < ?n \<longleftrightarrow> src \<noteq> []"
    using u lim sint_unat32[of ?n] by (simp_all add: word_less_nat_alt)
  let ?Q = "\<lambda>t. txn j t \<and> mapped k ip t \<and> written k ip src off s t"
  have "wp (writei_loop (length src) ip off src) (\<lambda>_. wp (geti ip) (\<lambda>x. wp (if 0 < ?n \<and> off + ?n > i_size x
       then thn (updi ip (\<lambda>x. x\<lparr>i_size := off + ?n\<rparr>)) (iupdate ip) else skip) (\<lambda>_. ?Q))) s"
  proof (rule wp_mono[OF writei_loop_wp[OF t m a o(2) order_refl]])
    fix t assume w: "txn (Suc j) t \<and> fwrote k ip s t \<and> fbytes ip t k = put_at (unat off) src (fbytes ip s k)"
    then have f: "mapped k ip t" "apart_blocks k ip t" and ic: "icache t = icache s"
      using fwrote_file[of k ip s t] m a by auto
    have d: "disk t = disk s" "\<And>x. x \<notin> baddr ip s ` {..<k} \<Longrightarrow> blk t x = blk s x" using w by (auto simp: fwrote_def)
    show "wp (geti ip) (\<lambda>x. wp (if 0 < ?n \<and> off + ?n > i_size x
       then thn (updi ip (\<lambda>x. x\<lparr>i_size := off + ?n\<rparr>)) (iupdate ip) else skip) (\<lambda>_. ?Q)) t"
    proof (cases "src \<noteq> [] \<and> off + ?n > i_size ?x")
      case True
      then have mx: "max (i_size ?x) (off + ?n) = off + ?n" by (simp add: max_def less_imp_le)
      have "wp (thn (updi ip (\<lambda>x. x\<lparr>i_size := off + ?n\<rparr>)) (iupdate ip)) (\<lambda>_. ?Q) t"
        by (rule wp_mono[OF set_size_wp[of j t k ip "off + ?n"]]) (use w f ic d True in \<open>auto simp: written_def mx\<close>)
      then show ?thesis using True ic ip c(4) by simp
    next
      case False
      have "src = [] \<or> max (i_size ?x) (off + ?n) = i_size ?x" using False by (auto simp: max_def)
      then have "written k ip src off s t" using w ic d by (auto simp: written_def)
      then show ?thesis using False ic ip c(4) w f txn_mono[of "Suc j" t j] by auto
    qed
  qed
  then show ?thesis using ip ty o(1) c by (simp add: writei_def Let_def not_less)
qed

text \<open>
  C10. \<^verbatim>\<open>writei\<close> and \<^verbatim>\<open>readi\<close> (\<^verbatim>\<open>fs.c\<close>) on an inode whose blocks are allocated, direct or indirect:
  writing \<open>src\<close> at \<open>off\<close>, at any offset not past the end and over any block boundaries, replaces exactly these
  bytes of the file, extends its size when the write ends past it, changes no block of another file and nothing on
  the disk before the commit, fits the transaction when there is room for the blocks it touches and for the inode;
  and reading the same range returns \<open>src\<close>.
\<close>

theorem writei_readi:
  fixes s :: "'z consst_scheme"
  assumes "txn (nblk (unat off) (length src) + 1) s" and "mapped k ip s" and "apart_blocks k ip s"
    and "off \<le> i_size (icache s ! ip)" and "unat (i_size (icache s ! ip)) \<le> 512 * k" and "unat off + length src \<le> 512 * k"
    and "i_type (icache s ! ip) \<noteq> T_DEV"
  shows "\<exists>t u. writei ip src off s = Ret (int (length src)) t \<and> written k ip src off s t \<and> txn 0 t \<and>
    readi ip off (of_nat (length src)) t = Ret (int (length src), src) u \<and> lsame t u"
proof -
  let ?n = "of_nat (length src) :: u32"
  have k: "k \<le> 140" and ip: "ip < length (icache s)" using assms(2) by (auto simp: mapped_def inode_in_def)
  have lim: "unat off + length src \<le> 71680" using assms(6) k by linarith
  then have n: "unat (off + ?n) = unat off + length src" "unat ?n = length src"
    by (simp_all add: unat_add_of_nat unat_of_nat32)
  obtain t where t: "writei ip src off s = Ret (int (length src)) t" "txn 0 t" "mapped k ip t" "written k ip src off s t"
    using wpD[OF writei_wp[of off src 0 s k ip]] assms by auto
  let ?z = "i_size (icache t ! ip)"
  have x: "icache t ! ip = (icache s ! ip)\<lparr>i_size := ?z\<rparr>" using t(4) ip by (simp add: written_def)
  have "max (i_size (icache s ! ip)) (off + ?n) \<ge> off" using assms(4) by (simp add: le_max_iff_disj)
  then have z: "off \<le> ?z" "unat ?z \<le> 512 * k" "src \<noteq> [] \<Longrightarrow> unat off + length src \<le> unat ?z"
    using t(4) ip assms(4,5,6) n by (auto simp: written_def max_def word_le_nat_alt)
  have "min (unat ?n) (unat ?z - unat off) = length src" using z(3) n(2) by (cases "src = []") auto
  moreover have "bytes_at (unat off) (length src) (fbytes ip t k) = src"
    using t(4) assms(6) fbytes_simps(1)[OF assms(1,2)] by (simp add: written_def)
  moreover have "i_type (icache t ! ip) \<noteq> T_DEV" using assms(7) x by (metis inode.select_convs(6) inode.surjective inode.update_convs(10))
  ultimately show ?thesis using t wpD[OF readi_wp[OF t(2,3) z(1,2), of ?n]] lim n(2) by auto
qed

definition inode_c :: inode where
  "inode_c = inode_a\<lparr>i_size := 510, i_addrs := [3, 4, 0, 0, 0, 0, 0, 0, 0, 0, 0, 0, 0]\<rparr>"

theorem writei_readi_witness:
  "\<exists>t u. writei 0 [1, 2, 3, 4] 510 (kst_ex\<lparr>icache := [inode_c]\<rparr>) = Ret 4 t \<and> i_size (icache t ! 0) = 514 \<and>
     readi 0 510 4 t = Ret (4, [1, 2, 3, 4]) u"
proof -
  let ?s = "kst_ex\<lparr>icache := [inode_c]\<rparr>"
  have i: "inode_in 0 ?s" by (simp add: inode_in_def inode_c_def inode_a_def inode_zero_def IBLOCK_def)
  have b: "baddr 0 ?s 0 = 3" "baddr 0 ?s 1 = 4" by (simp_all add: baddr_def inode_c_def)
  have two: "bn < 2 \<longleftrightarrow> bn = 0 \<or> bn = 1" for bn :: nat by auto
  have m: "mapped 2 0 ?s" using i b by (auto simp: mapped_def two)
  have a: "apart_blocks 2 0 ?s"
    using b by (auto simp: apart_blocks_def two inj_on_def lessThan_def inode_c_def inode_a_def inode_zero_def IBLOCK_def)
  have "nblk 510 (length [1, 2, 3, 4 :: u8]) = 2" by (simp add: nblk_def)
  then have t: "txn (nblk (unat (510 :: u32)) (length [1, 2, 3, 4 :: u8]) + 1) ?s" using kst_ex_log(5)[of 3] by simp
  have "i_type (icache ?s ! 0) \<noteq> T_DEV" by (simp add: inode_c_def inode_a_def)
  from writei_readi[OF t m a _ _ _ this] show ?thesis
    by (auto simp: inode_c_def written_def max_def)
qed

end
