(* ===== verification/Ktype.thy ===== *)
theory Ktype
  imports Trap Kexample
begin

text \<open>
  The types of the kernel's tables, which C does not check: arrays of their declared lengths, pointers
  into tables that are indices of entries, rings and screens with their cursors inside. Every path of the
  kernel, every system call and every interrupt, keeps them, on the way to a return and to a switch.
\<close>

lemma bnd_undefd: "bnd undefd k = undefd"
  by (rule ext) (simp add: mon_defs)

lemma stays_deref [intro!]:
  "(\<And>a. x = Some a \<Longrightarrow> R a) \<Longrightarrow> stays I (deref x) R" "(\<And>a. x = Some a \<Longrightarrow> stays I (k a) Q) \<Longrightarrow> stays I (bnd (deref x) k) Q"
  by (cases x; auto simp: deref_def bnd_undefd)+

section \<open>The types\<close>

definition below :: "nat \<Rightarrow> nat option \<Rightarrow> bool" where
  "below n x \<longleftrightarrow> (\<forall>i. x = Some i \<longrightarrow> i < n)"

definition proc_ty :: "proc \<Rightarrow> bool" where
  "proc_ty q \<longleftrightarrow> wf_proc q \<and> below NPROC (p_parent q) \<and> below NINODE (p_cwd q) \<and> (\<forall>x \<in> set (p_ofile q). below NFILE x)"

definition buf_ty :: "buf \<Rightarrow> bool" where
  "buf_ty x \<longleftrightarrow> length (b_data x) = 512 \<and> b_prev x \<le> NBUF \<and> b_next x \<le> NBUF"

definition inode_ty :: "inode \<Rightarrow> bool" where
  "inode_ty x \<longleftrightarrow> length (i_addrs x) = NDIRECT + 1"

definition file_ty :: "kfile \<Rightarrow> bool" where
  "file_ty x \<longleftrightarrow> below NINODE (f_ip x)"

definition ktype :: "kst \<Rightarrow> bool" where
  "ktype s \<longleftrightarrow> (\<forall>c. below NPROC (cpu_proc (cpus s c))) \<and>
     length (ptable s) = NPROC \<and> (\<forall>q \<in> set (ptable s). proc_ty q) \<and> below NPROC (initproc s) \<and>
     length (bufs s) = NBUF + 1 \<and> (\<forall>x \<in> set (bufs s). buf_ty x) \<and> (\<forall>sec. length (disk s sec) = 512) \<and>
     length (lh_sector (lg_lh (lg s))) = LOGSIZE \<and>
     length (icache s) = NINODE \<and> (\<forall>x \<in> set (icache s). inode_ty x) \<and>
     length (in_buf s) = INPUT_BUF \<and> cga_pos s < 24 * 80 \<and> length (devtab s) = NDEV \<and>
     length (ftable s) = NFILE \<and> (\<forall>x \<in> set (ftable s). file_ty x) \<and> (\<forall>p. length (pp_data (pipes s p)) = PIPESIZE)"

abbreviation (input) typed :: "('a, kst) kmon \<Rightarrow> ('a \<Rightarrow> bool) \<Rightarrow> bool" where "typed m R \<equiv> stays ktype m R"
abbreviation (input) ok :: "('a, kst) kmon \<Rightarrow> bool" where "ok m \<equiv> stays ktype m any"

lemma below_simps [simp]: "below n None" "below n (Some i) = (i < n)"
  by (simp_all add: below_def)

lemma find_idx_below: "find_idx P xs = Some i \<Longrightarrow> i < length xs"
  by (metis find_idx_SomeD)

lemma set_updD: "y \<in> set (xs[i := x]) \<Longrightarrow> y = x \<and> i < length xs \<or> y \<in> set xs"
  by (metis in_set_conv_nth length_list_update list_update_beyond not_less nth_list_update_eq nth_list_update_neq)

section \<open>Access to the tables\<close>

lemma ktype_upd [simp]:
  "ktype (upd_lock l f s) = ktype s" "ktype (s\<lparr>mem := m\<rparr>) = ktype s" "ktype (s\<lparr>freelist := v\<rparr>) = ktype s"
  "ktype (s\<lparr>use_lock := b\<rparr>) = ktype s" "ktype (s\<lparr>kpgdir := v\<rparr>) = ktype s" "ktype (s\<lparr>nextpid := n\<rparr>) = ktype s"
  "ktype (s\<lparr>ticks := v\<rparr>) = ktype s" "ktype (s\<lparr>forkret_first := b\<rparr>) = ktype s" "ktype (s\<lparr>in_r := v\<rparr>) = ktype s"
  "ktype (s\<lparr>in_w := v\<rparr>) = ktype s" "ktype (s\<lparr>in_e := v\<rparr>) = ktype s" "ktype (s\<lparr>serial := xs\<rparr>) = ktype s"
  "ktype (s\<lparr>cons_locking := b\<rparr>) = ktype s" "ktype (s\<lparr>uart := b\<rparr>) = ktype s"
  by (simp_all add: ktype_def upd_lock_def)

lemma ktype_upd_cpu: "ktype s \<Longrightarrow> (\<And>c. below NPROC (cpu_proc c) \<Longrightarrow> below NPROC (cpu_proc (f c))) \<Longrightarrow> ktype (upd_cpu f s)"
  by (simp add: ktype_def upd_cpu_def)

lemma ktypeD:
  assumes "ktype s"
  shows "length (ptable s) = NPROC" "below NPROC (cpu_proc (the_cpu s))" "below NPROC (initproc s)" "length (icache s) = NINODE"
    "length (ftable s) = NFILE" "length (lh_sector (lg_lh (lg s))) = LOGSIZE" "length (disk s sec) = 512"
    "i < length (ptable s) \<Longrightarrow> proc_ty (ptable s ! i)"
  using assms by (auto simp: ktype_def the_cpu_def)

lemma typed_cpu [intro!]: "(\<And>c. below NPROC (cpu_proc c) \<Longrightarrow> below NPROC (cpu_proc (f c))) \<Longrightarrow> ok (modify (upd_cpu f))"
  by (auto intro: ktype_upd_cpu)

lemma typed_locks [intro!]: "ok pushcli" "ok popcli" "ok (acquire l)" "ok (release l)"
proof -
  show a: "ok pushcli" "ok popcli"
    by (auto simp: stays_def pushcli_def popcli_def Let_def intro!: ktype_upd_cpu)
  show "ok (acquire l)" unfolding acquire_def
    by (rule stays_thn[OF a(1)]) (auto simp: stays_def xchg_def)
  show "ok (release l)" using a(2) by (auto simp: stays_def release_def)
qed

lemma typed_myproc: "typed myproc (\<lambda>i. i < NPROC)"
  using ktypeD(2) by (auto simp: stays_def myproc_def split: option.splits) (metis below_simps(2))

lemma typed_getp: "typed (getp p) (\<lambda>q. p < NPROC \<and> proc_ty q)"
  by (auto simp: stays_def getp_def ktypeD)

lemma typed_updp [intro!]: "(\<And>q. p < NPROC \<Longrightarrow> proc_ty q \<Longrightarrow> proc_ty (f q)) \<Longrightarrow> ok (updp p f)"
  by (auto simp: stays_def updp_def ktype_def dest!: set_updD)

lemma typed_getb: "typed (getb b) (\<lambda>x. b \<le> NBUF \<and> buf_ty x)"
  by (auto simp: stays_def getb_def ktype_def)

lemma typed_updb [intro!]: "(\<And>x. b \<le> NBUF \<Longrightarrow> buf_ty x \<Longrightarrow> buf_ty (f x)) \<Longrightarrow> ok (updb b f)"
  by (auto simp: stays_def updb_def ktype_def dest!: set_updD)

lemma typed_geti: "typed (geti ip) (\<lambda>x. ip < NINODE \<and> inode_ty x)"
  by (auto simp: stays_def geti_def ktype_def)

lemma typed_updi [intro!]: "(\<And>x. ip < NINODE \<Longrightarrow> inode_ty x \<Longrightarrow> inode_ty (f x)) \<Longrightarrow> ok (updi ip f)"
  by (auto simp: stays_def updi_def ktype_def dest!: set_updD)

lemma typed_getf: "typed (getf f) (\<lambda>x. f < NFILE \<and> file_ty x)"
  by (auto simp: stays_def getf_def ktype_def)

lemma typed_updf [intro!]: "(\<And>x. f < NFILE \<Longrightarrow> file_ty x \<Longrightarrow> file_ty (g x)) \<Longrightarrow> ok (updf f g)"
  by (auto simp: stays_def updf_def ktype_def dest!: set_updD)

lemma typed_pipe [intro!]: "ok (getpipe p)"
  "(\<And>x. length (pp_data x) = PIPESIZE \<Longrightarrow> length (pp_data (g x)) = PIPESIZE) \<Longrightarrow> ok (updpipe p g)"
  by (auto simp: stays_def getpipe_def updpipe_def ktype_def mon_defs)

lemmas typed_bnd [intro!] = stays_bndR[OF typed_myproc] stays_bndR[OF typed_getp] stays_bndR[OF typed_getb] stays_bndR[OF typed_geti]
  stays_bndR[OF typed_getf]
lemmas typed_weak [intro!] = stays_weak[OF typed_myproc] stays_weak[OF typed_getp] stays_weak[OF typed_getb] stays_weak[OF typed_geti]
  stays_weak[OF typed_getf]

section \<open>Processes, threads and memory\<close>

lemma proc_ty_fields [simp]:
  "proc_ty (q\<lparr>p_state := st\<rparr>) = proc_ty q" "proc_ty (q\<lparr>p_chan := ch\<rparr>) = proc_ty q" "proc_ty (q\<lparr>p_killed := b\<rparr>) = proc_ty q"
  "proc_ty (q\<lparr>p_pid := n\<rparr>) = proc_ty q" "proc_ty (q\<lparr>p_kstack := v\<rparr>) = proc_ty q" "proc_ty (q\<lparr>p_context := cx\<rparr>) = proc_ty q"
  "proc_ty (q\<lparr>p_pgdir := v\<rparr>) = proc_ty q" "proc_ty (q\<lparr>p_sz := v\<rparr>) = proc_ty q" "proc_ty (q\<lparr>p_tf := tf\<rparr>) = proc_ty q"
  "proc_ty (q\<lparr>p_type := n\<rparr>) = proc_ty q" "proc_ty (q\<lparr>p_tcount := v\<rparr>) = proc_ty q" "proc_ty (q\<lparr>p_ustack := v\<rparr>) = proc_ty q"
  "proc_ty (q\<lparr>p_threadattr := n\<rparr>) = proc_ty q" "proc_ty (q\<lparr>p_threadretval := n\<rparr>) = proc_ty q" "proc_ty (q\<lparr>p_ctflag := b\<rparr>) = proc_ty q"
  "proc_ty (q\<lparr>p_wrapper := v\<rparr>) = proc_ty q"
  by (simp_all add: proc_ty_def wf_proc_def)

lemma proc_ty_sync [simp]:
  "proc_ty (upd_mutex m f q) = proc_ty q" "proc_ty (wakeup_proc ch q) = proc_ty q" "proc_ty (kill_proc q) = proc_ty q"
  "proc_ty (set_eax r q) = proc_ty q"
  by (simp_all add: proc_ty_def wf_proc_def upd_mutex_def wakeup_proc_def kill_proc_def set_eax_def Let_def)

lemma proc_ty_condvar:
  "proc_ty q \<Longrightarrow> (\<And>c. length (waitingthreadlist c) = MAXTHRDS \<Longrightarrow> length (waitingthreadlist (f c)) = MAXTHRDS) \<Longrightarrow> proc_ty (upd_condvar i f q)"
  by (auto simp: proc_ty_def wf_proc_def upd_condvar_def dest!: set_updD)

lemma proc_ty_waiting [simp]: "proc_ty q \<Longrightarrow> proc_ty (set_waiting c i w q)"
  unfolding set_waiting_def by (rule proc_ty_condvar) auto

lemma typed_sched [intro!]: "ok sched" "ok (sched_return b)" "ok switchkvm" "ok (switchuvm p)"
proof -
  have "ok (bnd (bnd myproc getp) (\<lambda>p s. if p_state p = RUNNING then Pnc ''sched running''
        else if eflags_if (the_cpu s) then Pnc ''sched interruptible'' else Swt s))"
    by (rule stays_bnd) (auto, auto simp: stays_def)
  then show "ok sched" by (auto simp: stays_def sched_def)
  show "ok (sched_return b)" "ok switchkvm" "ok (switchuvm p)"
    by (auto simp: sched_return_def switchkvm_def switchuvm_def intro!: ktype_upd_cpu)
qed

lemma typed_scheduler [intro!]: "ok (scheduler_scan i)" "ok scheduler_round" "ok (scheduler_back p)"
proof -
  show s: "ok (scheduler_scan i)" for i
    unfolding scheduler_scan_def by (auto dest!: find_idx_below simp: ktypeD)
  show "ok scheduler_round" "ok (scheduler_back p)"
    using s by (auto simp: scheduler_round_def scheduler_back_def)
qed

lemma typed_sleep [intro!]: "ok yield" "ok (yield_return b)" "ok (sleep ch lk)" "ok (sleep_return b l)" "ok (wakeup1 ch)" "ok (wakeup ch)" "ok (kill n)"
proof -
  show w: "ok (wakeup1 ch)" for ch by (auto simp: wakeup1_def ktype_def)
  show "ok yield" "ok (yield_return b)" "ok (sleep_return b l)" "ok (wakeup ch)" "ok (kill n)"
    using w by (auto simp: yield_def yield_return_def sleep_return_def wakeup_def kill_def)
  have "ok (thn (if l \<noteq> Lptable then thn (acquire Lptable) (release l) else skip)
        (bnd myproc (\<lambda>p. thn (updp p (\<lambda>q. q\<lparr>p_chan := ch, p_state := SLEEPING\<rparr>)) sched)))" for l by auto
  then show "ok (sleep ch lk)" by (cases lk) (auto simp: stays_def sleep_def)
qed

lemma typed_mutex_access [intro!]: "ok (get_mutex p i)" "ok (get_condvar p i)" "ok (set_locked p i v)"
  by (auto simp: get_mutex_def get_condvar_def set_locked_def)

lemma typed_mutex_words [intro!]: "ok (spin_xchg p i)" "ok (mutex_guard n)"
  by (auto simp: spin_xchg_def xchg_def mutex_guard_def)

lemma typed_mutex [intro!]: "ok mutex_init" "ok (mutex_destroy n)" "ok (mutex_lock n)" "ok (mutex_unlock n)"
  by (auto simp: mutex_init_def mutex_destroy_def mutex_lock_def mutex_unlock_def)

lemma typed_msleep [intro!]: "ok (modified_sleep ch p i)" "ok (modified_sleep_return b p i)" "ok cv_owner" "ok (wake_slot p c j w)"
proof -
  have "ok (thn (acquire Lptable) (bnd (get_mutex p i) (\<lambda>x. thn (set_locked p i (snd (xchg (locked (mx_lock x)) 0)))
      (bnd myproc (\<lambda>p. thn (updp p (\<lambda>q. q\<lparr>p_chan := ch, p_state := SLEEPING\<rparr>)) sched)))))" by auto
  then show "ok (modified_sleep ch p i)" by (auto simp: stays_def modified_sleep_def)
qed (auto simp: modified_sleep_return_def cv_owner_def wake_slot_def)

lemma typed_condvar [intro!]:
  "ok condvar_init" "ok (condvar_destroy n)" "ok (condvar_wait n m)" "ok (condvar_wait_return b p m)" "ok (condvar_signal n)" "ok (condvar_broadcast n)"
  by (auto simp: condvar_init_def condvar_destroy_def condvar_wait_def condvar_wait_return_def condvar_signal_def condvar_broadcast_def
      intro!: proc_ty_condvar)

lemma typed_mem [intro!]: "ok (upd_mem g)" "ok kmem_lock" "ok kmem_unlock" "ok (rd32 a)" "ok (wr32 a v)" "ok (clear_page v)"
proof -
  show "ok kmem_lock" "ok kmem_unlock"
    using typed_locks(3,4)[of Lkmem] by (auto simp: stays_def kmem_lock_def kmem_unlock_def)
qed (auto simp: upd_mem_def rd32_def wr32_def clear_page_def)

lemma typed_kalloc [intro!]: "ok (kfree v)" "ok kalloc"
  by (auto simp: kfree_def kalloc_def)

lemma typed_walk [intro!]: "ok (walkpgdir pgdir va al)"
  by (auto simp: walkpgdir_def Let_def)

lemma typed_map [intro!]: "ok (mappages_loop pgdir fuel a lastp pa perm)" "ok (deallocuvm_loop pgdir fuel2 a2 newsz)"
proof -
  show "ok (mappages_loop pgdir fuel a lastp pa perm)"
    by (induction fuel arbitrary: a pa) auto
  show "ok (deallocuvm_loop pgdir fuel2 a2 newsz)"
    by (induction fuel2 arbitrary: a2) auto
qed

lemma typed_mappages [intro!]: "ok (mappages pgdir va sz pa perm)" "ok (deallocuvm pgdir a b)"
  by (auto simp: mappages_def deallocuvm_def)

lemma typed_rows [intro!]: "ok (map_rows pgdir rows)"
  by (induction rows) auto

lemma typed_allocuvm_loop [intro!]: "ok (allocuvm_loop pgdir fuel a oldsz newsz)"
  by (induction fuel arbitrary: a) auto

lemma typed_vm [intro!]: "ok setupkvm" "ok kvmalloc" "ok (inituvm pgdir bs)" "ok (allocuvm pgdir a b)" "ok (freevm pgdir)" "ok (clearpteu pgdir va)"
  "ok (uva2ka pgdir va)"
  by (auto simp: setupkvm_def kvmalloc_def inituvm_def allocuvm_def freevm_def clearpteu_def uva2ka_def)

lemma typed_copyuvm_loop [intro!]: "ok (copyuvm_loop d pgdir fuel i sz)"
  by (induction fuel arbitrary: i) auto

lemma typed_copyuvm [intro!]: "ok (copyuvm pgdir sz)"
  by (auto simp: copyuvm_def)

lemma typed_copyout [intro!]: "ok (copyout pgdir va buf)"
proof (induction pgdir va buf rule: copyout.induct)
  case (1 pgdir va buf)
  then show ?case by (subst copyout.simps) (auto simp: Let_def)
qed

section \<open>The disk, the cache and the log\<close>

lemma typed_bdata: "typed (bdata b) (\<lambda>d. b \<le> NBUF \<and> length d = 512)"
  by (auto simp: bdata_def buf_ty_def)

lemma typed_bstore [intro!]: "(\<And>d. length d = 512 \<Longrightarrow> length (f d) = 512) \<Longrightarrow> ok (bstore b f)"
  by (auto simp: bstore_def buf_ty_def)

lemmas typed_bnd_data [intro!] = stays_bndR[OF typed_bdata] stays_weak[OF typed_bdata]

lemma buf_ty_flags [simp]:
  "buf_ty (x\<lparr>b_busy := b\<rparr>) = buf_ty x" "buf_ty (x\<lparr>b_valid := b\<rparr>) = buf_ty x" "buf_ty (x\<lparr>b_dirty := b\<rparr>) = buf_ty x"
  "buf_ty (x\<lparr>b_dev := v\<rparr>) = buf_ty x" "buf_ty (x\<lparr>b_sector := v\<rparr>) = buf_ty x"
  by (simp_all add: buf_ty_def)

lemma typed_iderw [intro!]: "ok (iderw b)"
proof -
  have "ktype s \<Longrightarrow> length d = 512 \<Longrightarrow> ktype (s\<lparr>disk := (disk s)(sec := d), wlog := w\<rparr>)" for s d sec w by (simp add: ktype_def)
  moreover have "ktype s \<Longrightarrow> buf_ty x \<Longrightarrow> buf_ty (x\<lparr>b_data := disk s sec\<rparr>)" for s x sec by (simp add: buf_ty_def ktypeD)
  ultimately show ?thesis unfolding iderw_def by (auto simp: buf_ty_def)
qed

lemma typed_links [intro!]: "n \<le> NBUF \<Longrightarrow> ok (set_next b n)" "n \<le> NBUF \<Longrightarrow> ok (set_prev b n)"
  by (auto simp: set_next_def set_prev_def buf_ty_def)

lemma typed_scan: "typed (scan_next P fuel b) (below (NBUF + 1))" "typed (scan_prev P fuel b) (below (NBUF + 1))"
  by (induction fuel arbitrary: b) auto

lemmas typed_bnd_scan [intro!] = stays_bndR[OF typed_scan(1)] stays_bndR[OF typed_scan(2)] stays_weak[OF typed_scan(1)] stays_weak[OF typed_scan(2)]

lemma typed_bget: "typed (bget_loop dev sec) (\<lambda>b. b \<le> NBUF)" "typed (bget dev sec) (\<lambda>b. b \<le> NBUF)"
  "typed (bget_return ie dev sec) (\<lambda>b. b \<le> NBUF)" "typed (bread dev sec) (\<lambda>b. b \<le> NBUF)"
proof -
  have s: "typed (bnd (getb BHEAD) (\<lambda>h. scan_next P fuel (b_next h))) (below (NBUF + 1))"
    "typed (bnd (getb BHEAD) (\<lambda>h. scan_prev P fuel (b_prev h))) (below (NBUF + 1))" for P fuel
    using typed_scan by auto
  show l: "typed (bget_loop dev sec) (\<lambda>b. b \<le> NBUF)" for dev sec
    unfolding bget_loop_def by (rule stays_bndR[OF s(1)]) (auto intro!: stays_bndR[OF s(2)])
  show g: "typed (bget dev sec) (\<lambda>b. b \<le> NBUF)" "typed (bget_return ie dev sec) (\<lambda>b. b \<le> NBUF)" for dev sec
    using l by (auto simp: bget_def bget_return_def)
  show "typed (bread dev sec) (\<lambda>b. b \<le> NBUF)"
    unfolding bread_def by (auto intro!: stays_bndR[OF g(1)])
qed

lemmas typed_bnd_bread [intro!] = stays_bndR[OF typed_bget(4)] stays_weak[OF typed_bget(4)]

lemma typed_brelse [intro!]: "ok (bwrite b)" "ok (brelse b)"
proof -
  have "ok (link_front b)" if "b \<le> NBUF" using that by (auto simp: link_front_def buf_ty_def)
  then show "ok (brelse b)" by (auto simp: brelse_def buf_ty_def)
  show "ok (bwrite b)" by (auto simp: bwrite_def)
qed

lemma typed_upd_lg [intro!]: "(\<And>l. length (lh_sector (lg_lh l)) = LOGSIZE \<Longrightarrow> length (lh_sector (lg_lh (f l))) = LOGSIZE) \<Longrightarrow> ok (upd_lg f)"
  by (auto simp: upd_lg_def ktype_def)

lemma typed_readsb [intro!]: "ok (readsb dev)" "ok (log_sector i)"
  by (auto simp: readsb_def) (auto simp: stays_def log_sector_def Let_def)

lemma length_head_block: "lh_n h \<le> int LOGSIZE \<Longrightarrow> length d = 512 \<Longrightarrow> length (head_block h d) = 512"
proof -
  assume n: "lh_n h \<le> int LOGSIZE" and d: "length d = 512"
  have "\<forall>i \<in> set is. i < 30 \<Longrightarrow> length e = 512 \<Longrightarrow> length (fold (\<lambda>i. set_word (1 + i) (lh_sector h ! i)) is e) = 512" for "is" e
    by (induction "is" arbitrary: e) auto
  moreover have "\<forall>i \<in> set [0..<nat (lh_n h)]. i < 30" using n by auto
  ultimately show ?thesis using d by (simp add: head_block_def)
qed

lemma typed_log_blocks [intro!]: "ok (install_block i)" "ok (write_log_block i)" "ok (head_entry d i)"
  by (auto simp: install_block_def write_log_block_def head_entry_def)

lemma typed_log_parts [intro!]: "ok install_trans" "ok read_head" "ok write_head" "ok clear_head" "ok write_log"
  using length_head_block by (auto simp: install_trans_def read_head_def write_head_def clear_head_def write_log_def ktypeD)

lemma typed_commit [intro!]: "ok recover_from_log" "ok commit"
  by (auto simp: recover_from_log_def commit_def)

lemma length_log_enter [simp]: "length (lh_sector (log_enter sec h)) = length (lh_sector h)"
  by (simp add: log_enter_def Let_def split: option.splits)

lemma typed_begin [intro!]: "ok begin_op_loop"
  by (auto simp: begin_op_loop_def)

lemma typed_log [intro!]: "ok initlog" "ok begin_op" "ok (begin_op_return ie)" "ok end_op" "ok (log_write b)"
  by (auto simp: initlog_def begin_op_def begin_op_return_def end_op_def log_write_def)

section \<open>Inodes, directories and the console\<close>

lemma inode_ty_fields [simp]:
  "inode_ty (x\<lparr>i_dev := v\<rparr>) = inode_ty x" "inode_ty (x\<lparr>i_inum := v\<rparr>) = inode_ty x" "inode_ty (x\<lparr>i_ref := n\<rparr>) = inode_ty x"
  "inode_ty (x\<lparr>i_busy := b\<rparr>) = inode_ty x" "inode_ty (x\<lparr>i_valid := b\<rparr>) = inode_ty x" "inode_ty (x\<lparr>i_type := h\<rparr>) = inode_ty x"
  "inode_ty (x\<lparr>i_major := h\<rparr>) = inode_ty x" "inode_ty (x\<lparr>i_minor := h\<rparr>) = inode_ty x" "inode_ty (x\<lparr>i_nlink := h\<rparr>) = inode_ty x"
  "inode_ty (x\<lparr>i_size := v\<rparr>) = inode_ty x" "inode_ty (x\<lparr>i_addrs := (i_addrs x)[i := v]\<rparr>) = inode_ty x"
  by (simp_all add: inode_ty_def)

lemma length_blocks [simp]:
  "length (mark_bit bi d) = length d" "length (unmark_bit bi d) = length d" "length (d_addrs (dinode_at d inum)) = NDIRECT + 1"
  by (simp_all add: mark_bit_def unmark_bit_def dinode_at_def dec_dinode_def)

lemma length_put_dinode: "length (d_addrs di) = 13 \<Longrightarrow> length d = 512 \<Longrightarrow> length (put_dinode inum di d) = 512"
proof -
  assume a: "length (d_addrs di) = 13" "length d = 512"
  have "length (concat (map le32 xs)) = 4 * length xs" for xs by (induction xs) simp_all
  then have "length (enc_dinode di) = 64" using a(1) by (simp add: enc_dinode_def)
  moreover have "64 * (unat inum mod 8) + 64 \<le> 512" using mod_less_divisor[of 8 "unat inum"] by linarith
  ultimately show ?thesis using a(2) by (simp add: put_dinode_def)
qed

lemma typed_bzero [intro!]: "ok (bzero dev b)" "ok (bfree dev b)"
  by (auto simp: bzero_def bfree_def)

lemma typed_balloc_loop [intro!]: "ok (balloc_loop dev sb bs)"
  by (induction bs) auto

lemma typed_balloc [intro!]: "ok (balloc dev)"
  by (auto simp: balloc_def)

lemma typed_iget: "typed (iget dev inum) (\<lambda>ip. ip < NINODE)" "typed (idup ip) (\<lambda>jp. jp = ip \<and> ip < NINODE)"
proof -
  show "typed (iget dev inum) (\<lambda>ip. ip < NINODE)"
    unfolding iget_def by (auto dest!: find_idx_below simp: ktypeD)
  have "stays ktype (updi ip f) (\<lambda>_. ip < NINODE)" if "\<And>x. inode_ty x \<Longrightarrow> inode_ty (f x)" for f
    using typed_updi[of ip f] that by (auto simp: stays_def updi_def ktype_def)
  then have "typed (bnd (updi ip (\<lambda>x. x\<lparr>i_ref := i_ref x + 1\<rparr>)) (\<lambda>_. thn (release Licache) (ret ip))) (\<lambda>jp. jp = ip \<and> ip < NINODE)"
    by (rule stays_bndR) auto
  then show "typed (idup ip) (\<lambda>jp. jp = ip \<and> ip < NINODE)" unfolding idup_def by (auto simp: thn_def[abs_def])
qed

lemmas typed_bnd_iget [intro!] = stays_bndR[OF typed_iget(1)] stays_weak[OF typed_iget(1)] stays_bndR[OF typed_iget(2)] stays_weak[OF typed_iget(2)]

lemma typed_ialloc: "typed (ialloc dev ty) (\<lambda>ip. ip < NINODE)"
proof -
  have "typed (ialloc_loop dev ty is) (\<lambda>ip. ip < NINODE)" for "is"
    by (induction "is") (auto simp: length_put_dinode)
  then show ?thesis by (auto simp: ialloc_def)
qed

lemmas typed_bnd_ialloc [intro!] = stays_bndR[OF typed_ialloc] stays_weak[OF typed_ialloc]

lemma typed_iupdate [intro!]: "ok (iupdate ip)" "ok (iload ip)"
  by (auto simp: iupdate_def iload_def inode_ty_def dinode_of_def length_put_dinode)

lemma typed_ilock_loop [intro!]: "ok (ilock_loop ip)"
  by (auto simp: ilock_loop_def)

lemma typed_ilock [intro!]: "ok (ilock ip)" "ok (ilock_return ie ip)" "ok (iunlock ip)" "ok (set_addr ip i a)" "ok (stati ip)"
  by (auto simp: ilock_def ilock_return_def iunlock_def set_addr_def stati_def)

lemma typed_addr_at [intro!]: "ok (addr_at ip i)"
  by (auto simp: addr_at_def)

lemma typed_bmap [intro!]: "ok (bmap ip bn)" "ok (itrunc ip)"
proof -
  have "unat bn < 128 \<Longrightarrow> length d = 512 \<Longrightarrow> length (set_word (unat bn) a d) = 512" for bn a d by simp
  then show "ok (bmap ip bn)" by (auto simp: bmap_def word_less_nat_alt)
qed (auto simp: itrunc_def)

lemma typed_iput [intro!]: "ok (iput ip)"
  by (auto simp: iput_def)

lemma typed_iunlockput [intro!]: "ok (iunlockput ip)"
  by (auto simp: iunlockput_def)

text \<open>The cursor stays on the screen: a character moves it by at most a line, and the last line scrolls.\<close>

lemma cga_bound: "pos < 24 * 80 \<Longrightarrow> fst (cga_scroll (cga_write c (pos, m))) < 24 * 80"
proof -
  assume p: "pos < 24 * 80"
  then have "fst (cga_write c (pos, m)) < 25 * 80" by (auto simp: cga_write_def)
  then show ?thesis by (cases "cga_write c (pos, m)") (auto simp: cga_scroll_def)
qed

lemma typed_putc [intro!]: "ok (uartputc c)" "ok (cgaputc c)"
proof -
  show "ok (cgaputc c)"
    using cga_bound by (auto simp: cgaputc_def ktype_def split: prod.splits) (metis fst_conv)
qed (auto simp: uartputc_def)

lemma typed_consputc [intro!]: "ok (consputc c)"
  by (auto simp: consputc_def)

lemma typed_cprintf [intro!]: "ok (cprintf fmt args)"
  by (auto simp: cprintf_def)

lemma typed_procdump [intro!]: "ok procdump"
  by (auto simp: procdump_def)

lemma typed_kill_line [intro!]: "ok (kill_line fuel)"
  by (induction fuel) auto

lemma typed_console_char [intro!]: "ok (console_char c)"
proof -
  have "ktype s \<Longrightarrow> ktype (s\<lparr>in_buf := (in_buf s)[i := b], in_e := v\<rparr>)" for s i b v by (simp add: ktype_def)
  then show ?thesis unfolding console_char_def by auto
qed

lemma typed_consoleread_end [intro!]: "ok (consoleread_end ip target n bs)"
  by (auto simp: consoleread_end_def)

lemma typed_consoleread_loop [intro!]: "ok (consoleread_loop ip target n bs)"
  by (induction n arbitrary: bs) auto

lemma typed_console [intro!]: "ok (consoleintr cs)" "ok (consoleread ip n)" "ok (consoleread_return ie ip target k bs)" "ok (consolewrite ip bs)"
  by (auto simp: consoleintr_def consoleread_def consoleread_return_def consolewrite_def)

lemma typed_readi_loop [intro!]: "ok (readi_loop fuel ip off left)"
proof (induction fuel arbitrary: off left)
  case 0
  show ?case by (subst readi_loop.simps) auto
next
  case (Suc fuel)
  then show ?case by (subst readi_loop.simps) auto
qed

lemma typed_writei_loop [intro!]: "ok (writei_loop fuel ip off src)"
proof (induction fuel arbitrary: off src)
  case 0
  show ?case by (subst writei_loop.simps) auto
next
  case (Suc fuel)
  have "length d = 512 \<Longrightarrow> length (put_at (unat (off mod 512)) (take (min (length src) (512 - unat (off mod 512))) src) d) = 512" for d :: "u8 list"
  proof -
    assume "length d = 512"
    moreover have "unat (off mod 512) < 512" by (simp add: unat_mod)
    ultimately show ?thesis by simp
  qed
  with Suc show ?case by (subst writei_loop.simps) auto
qed

lemma typed_readi [intro!]: "ok (readi ip off n)" "ok (writei ip src off)"
  by (auto simp: readi_def writei_def)

definition inode_res :: "(nat \<times> 'a) option \<Rightarrow> bool" where
  "inode_res r \<longleftrightarrow> below NINODE (map_option fst r)"

lemma inode_res_simps [simp]: "inode_res None" "inode_res (Some (ip, x)) = (ip < NINODE)"
  by (simp_all add: inode_res_def)

lemma typed_dirlookup: "typed (dirlookup dp name) inode_res"
proof -
  have "typed (dirlookup_loop dp name offs) inode_res" for offs
    by (induction offs) auto
  then show ?thesis by (auto simp: dirlookup_def)
qed

lemmas typed_bnd_dirlookup [intro!] = stays_bndR[OF typed_dirlookup] stays_weak[OF typed_dirlookup]

lemma typed_dirlink_loop [intro!]: "ok (dirlink_loop dp e offs)"
  by (induction offs) auto

lemma typed_dirlink [intro!]: "ok (dirlink dp name inum)"
  by (auto simp: dirlink_def)

lemma typed_namex_loop: "ip < NINODE \<Longrightarrow> typed (namex_loop parent path ip) inode_res"
proof (induction path arbitrary: ip rule: measure_induct_rule[of length])
  case (less path)
  then show ?case using skipelem_shorter[of path] by (subst namex_loop.simps) auto
qed

lemma typed_namex: "typed (namex parent path) inode_res" "typed (namei path) (below NINODE)" "typed (nameiparent path) inode_res"
proof -
  have s: "typed (if path \<noteq> [] \<and> hd path = 47 then iget ROOTDEV ROOTINO
      else bnd (bnd myproc getp) (\<lambda>p. bnd (deref (p_cwd p)) idup)) (\<lambda>ip. ip < NINODE)" for path :: "u8 list"
    by auto
  show n: "typed (namex parent path) inode_res" for parent path
    unfolding namex_def by (rule stays_bndR[OF s]) (auto intro: typed_namex_loop)
  show "typed (namei path) (below NINODE)" "typed (nameiparent path) inode_res"
    unfolding namei_def nameiparent_def by (auto intro!: stays_bndR[OF n] n simp: inode_res_def)
qed

lemmas typed_bnd_namei [intro!] = stays_bndR[OF typed_namex(2)] stays_weak[OF typed_namex(2)] stays_bndR[OF typed_namex(3)] stays_weak[OF typed_namex(3)]

section \<open>Files and processes\<close>

lemma file_ty_fields [simp]:
  "file_ty (x\<lparr>f_ref := n\<rparr>) = file_ty x" "file_ty (x\<lparr>f_type := ft\<rparr>) = file_ty x" "file_ty (x\<lparr>f_off := v\<rparr>) = file_ty x"
  "file_ty (x\<lparr>f_readable := b\<rparr>) = file_ty x" "file_ty (x\<lparr>f_writable := b\<rparr>) = file_ty x" "file_ty (x\<lparr>f_pipe := v\<rparr>) = file_ty x"
  by (simp_all add: file_ty_def)

lemma typed_killed [intro!]: "ok killed"
  by (auto simp: killed_def)

lemma typed_pipeclose [intro!]: "ok (pipeclose p w)"
  by (auto simp: pipeclose_def)

lemma typed_pipewrite_loop [intro!]: "ok (pipewrite_loop p n bs)"
  by (induction bs) auto

lemma typed_piperead_copy [intro!]: "ok (piperead_copy p k)"
  by (induction k) auto

lemma typed_piperead_loop [intro!]: "ok (piperead_loop p n)"
  by (auto simp: piperead_loop_def)

lemma typed_pipes [intro!]: "ok (pipewrite p bs n)" "ok (pipewrite_return ie p n bs)" "ok (piperead p n)" "ok (piperead_return ie p n)"
  by (auto simp: pipewrite_def pipewrite_return_def piperead_def piperead_return_def)

lemma typed_filealloc: "typed filealloc (below NFILE)" "typed (filedup f) (\<lambda>g. g = f \<and> f < NFILE)"
  by (auto simp: filealloc_def filedup_def ktypeD dest!: find_idx_below)

lemmas typed_bnd_file [intro!] = stays_bndR[OF typed_filealloc(1)] stays_weak[OF typed_filealloc(1)] stays_bndR[OF typed_filealloc(2)] stays_weak[OF typed_filealloc(2)]

lemma typed_fileclose [intro!]: "ok (fileclose f e)" "ok (filestat f)" "ok (fileread f n)"
  by (auto simp: fileclose_def filestat_def fileread_def)

lemma typed_filewrite_loop [intro!]: "ok (filewrite_loop fuel f ip i bs)"
proof (induction fuel arbitrary: i bs)
  case 0
  show ?case by (subst filewrite_loop.simps) auto
next
  case (Suc fuel)
  then show ?case by (subst filewrite_loop.simps) auto
qed

lemma typed_filewrite [intro!]: "ok (filewrite f bs n)"
  by (auto simp: filewrite_def)

definition files_res :: "(nat \<times> nat) option \<Rightarrow> bool" where
  "files_res r \<longleftrightarrow> (\<forall>f g. r = Some (f, g) \<longrightarrow> f < NFILE \<and> g < NFILE)"

lemma files_res_simps [simp]: "files_res None" "files_res (Some (f, g)) = (f < NFILE \<and> g < NFILE)"
  by (simp_all add: files_res_def)

lemma typed_pipealloc: "typed pipealloc files_res"
proof -
  have "typed (pipealloc_bad p f0 f1) files_res" for p f0 f1 by (auto simp: pipealloc_bad_def)
  then show ?thesis unfolding pipealloc_def by auto
qed

lemmas typed_bnd_pipealloc [intro!] = stays_bndR[OF typed_pipealloc] stays_weak[OF typed_pipealloc]

lemma typed_mmu [intro!]: "ok (mmu wr va)"
  by (auto simp: mmu_def)

lemma typed_user8 [intro!]: "ok (uload8 va)" "ok (ustore8 va b)"
  by (auto simp: uload8_def ustore8_def)

lemma typed_user [intro!]: "ok (uload va n)" "ok (ustore va bs)"
proof -
  show "ok (uload va n)" by (induction n arbitrary: va) auto
  show "ok (ustore va bs)" by (induction bs arbitrary: va) auto
qed

lemma typed_user32 [intro!]: "ok (uload32 va)" "ok (ustore32 va v)"
  by (auto simp: uload32_def ustore32_def)

lemma length_set_name: "length (p_name q) = 16 \<Longrightarrow> length (p_name (set_name nm q)) = 16"
  using safestrcpy_loop_facts[of "arr nm" 0 15] by (simp add: set_name_def safestrcpy_def)

lemma proc_ty_life [simp]:
  "proc_ty q \<Longrightarrow> proc_ty (fresh_sync q)" "proc_ty q \<Longrightarrow> proc_ty (drop_sync q)" "proc_ty q \<Longrightarrow> proc_ty (clear_proc q)"
  "proc_ty q \<Longrightarrow> proc_ty (set_name nm q)"
  "proc_ty q \<Longrightarrow> below NINODE ip \<Longrightarrow> proc_ty (q\<lparr>p_cwd := ip\<rparr>)" "proc_ty q \<Longrightarrow> below NPROC pa \<Longrightarrow> proc_ty (q\<lparr>p_parent := pa\<rparr>)"
  "proc_ty q \<Longrightarrow> below NFILE x \<Longrightarrow> proc_ty (q\<lparr>p_ofile := (p_ofile q)[fd := x]\<rparr>)"
  using length_set_name[of q nm]
  by (auto simp: proc_ty_def wf_proc_def fresh_sync_def drop_sync_def clear_proc_def set_name_def dest!: set_updD)

lemma proc_tyD: "proc_ty q \<Longrightarrow> below NPROC (p_parent q)" "proc_ty q \<Longrightarrow> below NINODE (p_cwd q)"
  "proc_ty q \<Longrightarrow> fd < NOFILE \<Longrightarrow> below NFILE (p_ofile q ! fd)"
  by (auto simp: proc_ty_def wf_proc_def)

lemma typed_allocproc: "typed allocproc (below NPROC)"
  by (auto simp: allocproc_def ktypeD dest!: find_idx_below)

lemmas typed_bnd_allocproc [intro!] = stays_bndR[OF typed_allocproc] stays_weak[OF typed_allocproc]

lemma typed_grow [intro!]: "ok (growproc n)"
  by (auto simp: growproc_def)

lemma typed_userinit [intro!]: "ok (userinit initcode)"
proof -
  have "ktype s \<Longrightarrow> below NPROC r \<Longrightarrow> ktype (s\<lparr>initproc := r\<rparr>)" for s r by (simp add: ktype_def)
  then show ?thesis unfolding userinit_def by auto
qed

lemma typed_fork_parts [intro!]:
  "fd < NOFILE \<Longrightarrow> ok (fork_ofile p np fd)" "ok (fork_space np q v)" "ok (fork_stack p np us wa a1 a2)"
  "proc_ty q \<Longrightarrow> ok (fork_cwd np q)"
proof -
  show "ok (fork_ofile p np fd)" if "fd < NOFILE"
  proof -
    have "ok (bnd (if p_ctflag q then ret f else filedup f) (\<lambda>g. updp np (\<lambda>x. x\<lparr>p_ofile := (p_ofile x)[fd := Some g]\<rparr>)))"
      if "proc_ty q" "p_ofile q ! fd = Some f" for q f
    proof (rule stays_bndR)
      have "f < NFILE" using proc_tyD(3)[OF that(1) \<open>fd < NOFILE\<close>] that(2) by simp
      then show "typed (if p_ctflag q then ret f else filedup f) (\<lambda>g. g < NFILE)" by auto
    qed auto
    then show ?thesis unfolding fork_ofile_def by (intro stays_bndR[OF typed_getp] stays_option) simp_all
  qed
  show "ok (fork_space np q v)" "ok (fork_stack p np us wa a1 a2)" by (auto simp: fork_space_def fork_stack_def)
  show "ok (fork_cwd np q)" if "proc_ty q"
  proof -
    have "typed (bnd (deref (p_cwd q)) idup) (\<lambda>ip. ip < NINODE)" by auto
    then have "ok (bnd (bnd (deref (p_cwd q)) idup) (\<lambda>ip. updp np (\<lambda>x. x\<lparr>p_cwd := Some ip\<rparr>)))" by (rule stays_bndR) auto
    moreover have "ok (updp np (\<lambda>x. x\<lparr>p_cwd := p_cwd q\<rparr>))" using proc_tyD(2)[OF that] by auto
    ultimately show ?thesis by (simp add: fork_cwd_def)
  qed
qed

lemma typed_fork [intro!]: "ok (fork us ta wa a1 a2)"
  by (auto simp: fork_def proc_tyD)

lemma typed_free_entry [intro!]: "ok (free_entry i)"
  by (auto simp: free_entry_def)

lemma typed_cleanup [intro!]: "ok cleanupzombiethreads" "ok (reap i)"
  by (auto simp: cleanupzombiethreads_def reap_def)

lemma typed_exit_parts [intro!]: "ok exit_loop" "ok (exit_close p fd)" "ok (exit_pass p i)"
  by (auto simp: exit_loop_def exit_close_def exit_pass_def ktypeD)

lemma typed_exit [intro!]: "ok exit" "ok (exit_return ie)"
  by (auto simp: exit_def exit_return_def)

lemma typed_wait_loop [intro!]: "ok (wait_loop tid)"
  by (auto simp: wait_loop_def)

lemma typed_wait [intro!]: "ok (wait tid)" "ok (wait_return ie tid)" "ok (getthreadretval n)" "ok forkret"
  by (auto simp: wait_def wait_return_def getthreadretval_def forkret_def)

section \<open>System calls\<close>

lemma typed_me: "typed me proc_ty"
  by (auto simp: me_def)

lemmas typed_bnd_me [intro!] = stays_bndR[OF typed_me] stays_weak[OF typed_me]

lemma typed_updme [intro!]: "(\<And>q. proc_ty q \<Longrightarrow> proc_ty (f q)) \<Longrightarrow> ok (updme f)"
  by (auto simp: updme_def)

lemma typed_fetch [intro!]: "ok (fetchint a)" "ok (fetchstr_loop k a)"
proof -
  show "ok (fetchint a)" by (auto simp: fetchint_def)
  show "ok (fetchstr_loop k a)" by (induction k arbitrary: a) auto
qed

lemma typed_fetchstr [intro!]: "ok (fetchstr a)" "ok (argint k)"
  by (auto simp: fetchstr_def argint_def)

lemma typed_args [intro!]: "ok (argptr k v)" "ok (argstr k)" "ok (argint_or k v)" "ok (argint_uninit k)"
  by (auto simp: argptr_def argstr_def argint_or_def argint_uninit_def)

lemma typed_sleep_loop [intro!]: "ok (sys_sleep_loop t0 n)"
  by (auto simp: sys_sleep_loop_def)

lemma typed_sysproc [intro!]:
  "ok sys_fork" "ok sys_exit" "ok sys_wait" "ok sys_kill" "ok sys_getpid" "ok sys_sbrk" "ok sys_sleep" "ok (sys_sleep_return ie t0 n)"
  "ok sys_uptime" "ok sys_getppid"
  by (auto simp: sys_fork_def sys_exit_def sys_wait_def sys_kill_def sys_getpid_def sys_sbrk_def sys_sleep_def sys_sleep_return_def
      sys_uptime_def sys_getppid_def)

lemma typed_systhread [intro!]:
  "ok sys_kthread_create" "ok sys_kthread_join" "ok sys_kthread_saveretval" "ok sys_kthread_fetchretval" "ok sys_kthread_mutex_init"
  "ok sys_kthread_mutex_destroy" "ok sys_kthread_mutex_lock" "ok sys_kthread_mutex_unlock" "ok sys_kthread_cond_init"
  "ok sys_kthread_cond_destroy" "ok sys_kthread_cond_wait" "ok sys_kthread_cond_signal" "ok sys_kthread_cond_broadcast" "ok sys_kthread_exit"
  by (auto simp: sys_kthread_create_def sys_kthread_join_def sys_kthread_saveretval_def sys_kthread_fetchretval_def
      sys_kthread_mutex_init_def sys_kthread_mutex_destroy_def sys_kthread_mutex_lock_def sys_kthread_mutex_unlock_def
      sys_kthread_cond_init_def sys_kthread_cond_destroy_def sys_kthread_cond_wait_def sys_kthread_cond_signal_def
      sys_kthread_cond_broadcast_def sys_kthread_exit_def)

lemma typed_loaduvm_loop [intro!]: "ok (loaduvm_loop pgdir addr ip off sz ks)"
  by (induction ks) auto

lemma typed_loaduvm [intro!]: "ok (loaduvm pgdir addr ip off sz)"
  by (auto simp: loaduvm_def)

lemma typed_exec_load [intro!]: "ok (exec_load n ip pgdir off sz)"
  by (induction n arbitrary: off sz) auto

lemma typed_exec_args [intro!]: "ok (exec_args pgdir argc esp as)"
  by (induction as arbitrary: argc esp) auto

lemma typed_exec_bad [intro!]: "ok (exec_bad pgdir ip)"
  by (auto simp: exec_bad_def)

lemma typed_exec_stack [intro!]: "ok (exec_stack path argv elf pgdir sz)"
  by (auto simp: exec_stack_def)

lemma typed_exec [intro!]: "ok (exec path argv)"
  by (auto simp: exec_def)

section \<open>System calls on files\<close>

lemma argfd_res: "typed (argfd k) (\<lambda>r. \<forall>fd f. r = Some (fd, f) \<longrightarrow> f < NFILE)"
proof -
  have "f < NFILE" if "proc_ty q" "0 \<le> sint fd" "sint fd < 16" "p_ofile q ! unat fd = Some f" for q f and fd :: u32
  proof -
    have "unat fd < NOFILE" using unat_nonneg_sint[OF that(2,3)] that(3) by linarith
    then show ?thesis using proc_tyD(3)[OF that(1)] that(4) by force
  qed
  then show ?thesis unfolding argfd_def by (auto simp: not_less not_le)
qed

lemmas typed_bnd_argfd [intro!] = stays_bndR[OF argfd_res] stays_weak[OF argfd_res]

lemma typed_fdalloc [intro!]: "f < NFILE \<Longrightarrow> ok (fdalloc f)" "ok (updme (set_ofile fd None))" "ok (updp p (set_ofile fd None))"
  by (auto simp: fdalloc_def set_ofile_def)

lemma typed_arg_rw [intro!]: "ok arg_rw" "ok (put_stat a st)"
  by (auto simp: arg_rw_def put_stat_def)

lemma typed_close_fd [intro!]: "ok (close_fd fd f)"
  by (auto simp: close_fd_def)

lemma typed_sysrw [intro!]: "ok sys_dup" "ok sys_read" "ok sys_write" "ok sys_close" "ok sys_fstat"
  by (auto simp: sys_dup_def sys_read_def sys_write_def sys_close_def sys_fstat_def)

lemma inode_ty_nlink [simp]: "inode_ty (add_nlink k x) = inode_ty x"
  by (simp add: add_nlink_def)

lemma typed_isdirempty_loop [intro!]: "ok (isdirempty_loop dp offs)"
  by (induction offs) auto

lemma typed_link_parts [intro!]: "ok (link_bad ip)" "ok (isdirempty dp)" "ok (unlink_bad dp)" "ok (unlink_entry dp ip off)"
  by (auto simp: link_bad_def isdirempty_def unlink_bad_def unlink_entry_def)

lemma typed_link [intro!]: "ok sys_link" "ok sys_unlink"
  by (auto simp: sys_link_def sys_unlink_def)

lemma typed_create: "typed (create path ty mj mn) (below NINODE)" "typed (open_inode path omode) (below NINODE)"
proof -
  have "typed (create_new dp name ty mj mn) (below NINODE)" for dp name ty mj mn
    by (auto simp: create_new_def)
  then show c: "typed (create path ty mj mn) (below NINODE)" for path ty mj mn
    unfolding create_def by auto
  show "typed (open_inode path omode) (below NINODE)" unfolding open_inode_def using c by auto
qed

lemmas typed_bnd_create [intro!] = stays_bndR[OF typed_create(1)] stays_weak[OF typed_create(1)] stays_bndR[OF typed_create(2)] stays_weak[OF typed_create(2)]

lemma typed_open [intro!]: "ok (open_bad ip)" "ok (created r)" "ok sys_mkdir" "ok sys_mknod"
  by (auto simp: open_bad_def created_def sys_mkdir_def sys_mknod_def)

lemma typed_sysopen [intro!]: "ok sys_open"
  by (auto simp: sys_open_def file_ty_def)

lemma typed_chdir [intro!]: "ok sys_chdir"
proof -
  have "typed (bnd (argstr 0) (\<lambda>r. case r of None \<Rightarrow> ret None | Some path \<Rightarrow> namei path)) (below NINODE)" by auto
  from stays_bndR[OF this] show ?thesis unfolding sys_chdir_def by (rule stays_thn[rotated]) auto
qed

lemma typed_exec_argv [intro!]: "ok (exec_argv a is)"
  by (induction "is") auto

lemma typed_sysexec [intro!]: "ok sys_exec" "ok (pipe_bad rf wrf fd0)"
  by (auto simp: sys_exec_def pipe_bad_def)

lemma typed_syspipe [intro!]: "ok sys_pipe"
  by (auto simp: sys_pipe_def)

section \<open>Traps\<close>

lemma typed_syscalls: "Some f \<in> set syscalls \<Longrightarrow> ok f"
  by (auto simp: syscalls_def)

lemma typed_syscall [intro!]: "ok syscall"
proof -
  have "ok f" if "(if 0 < num \<and> num < int (length (syscalls :: (int, kst) kmon option list)) then syscalls ! nat num else None) = Some f"
    for num and f :: "(int, kst) kmon"
    using that by (intro typed_syscalls) (auto split: if_splits simp: set_conv_nth intro!: exI[of _ "nat num"])
  then show ?thesis unfolding syscall_def Let_def
    by (intro stays_bndR[OF typed_me] stays_option stays_bnd stays_thn typed_cprintf typed_updme) auto
qed

lemma typed_trap_parts [intro!]:
  "ok (killed_user tf)" "ok clock_tick" "ok (trap_default cr2 tf)" "ok (uartintr cs)" "ok ideintr" "ok exit_if_killed"
  by (auto simp: killed_user_def clock_tick_def trap_default_def uartintr_def ideintr_def exit_if_killed_def)

lemma typed_trap_end [intro!]: "ok (trap_end tf)" "ok (trap_irq cs cr2 tf)"
  by (auto simp: trap_end_def trap_irq_def)

lemma typed_trap [intro!]: "ok (trap cs cr2 tf)" "ok (trap_return ie tf)"
  by (auto simp: trap_def trap_return_def)

text \<open>
  Where the kernel starts to run: a trap, the scheduler, the first run of a process, and the return of
  each kind of sleeper from the switch.
\<close>

inductive entry :: "(unit, kst) kmon \<Rightarrow> bool" where
  "entry (trap cs cr2 tf)"
| "entry (trap_return ie tf)"
| "entry (thn scheduler_round skip)"
| "entry (thn (scheduler_back p) skip)"
| "entry forkret"
| "entry (thn (wait_return ie tid) skip)"
| "entry (exit_return ie)"
| "entry (thn (sys_sleep_return ie t0 n) skip)"
| "entry (thn (condvar_wait_return ie pa m) skip)"
| "entry (begin_op_return ie)"
| "entry (ilock_return ie ip)"
| "entry (thn (bget_return ie dev sec) skip)"
| "entry (thn (piperead_return ie p m) skip)"
| "entry (thn (pipewrite_return ie p m bs) skip)"
| "entry (thn (consoleread_return ie ip tgt k bs) skip)"

inductive krun :: "kst \<Rightarrow> kst \<Rightarrow> bool" for s0 :: kst where
  start: "krun s0 s0"
| step: "krun s0 s \<Longrightarrow> entry m \<Longrightarrow> m s = Ret () t \<or> m s = Swt t \<Longrightarrow> krun s0 t"

lemma entry_typed: "entry m \<Longrightarrow> ok m"
  by (erule entry.cases) (auto intro: stays_weak[OF typed_bget(3)])


definition kst_ty :: kst where
  "kst_ty = kst_ex\<lparr>ptable := ptable procst_ex @ replicate 61 proc_boot, bufs := bufs biost_ex\<rparr>"

lemma kst_ty_ok: "ktype kst_ty" "cpu_proc (the_cpu kst_ty) = Some 1" "\<not> p_killed (ptable kst_ty ! 1)" "length (ptable kst_ty) = 64"
proof -
  have p: "proc_ty proc_boot" by (simp add: proc_ty_def wf_proc_def proc_boot_def condvar_boot_def)
  have q: "\<forall>q \<in> set (ptable procst_ex). proc_ty q" "length (ptable procst_ex) = 3"
    using p by (simp_all add: procst_ex_def lockst.defs procst.defs)
  have "\<forall>sec. length (disk_ex sec) = 512" by (simp add: disk_ex_def)
  moreover have "\<forall>x \<in> set (bufs biost_ex). buf_ty x" "length (bufs biost_ex) = 31" by (simp_all add: biost_ex_def memst.defs buf_ty_def)
  moreover have "\<forall>c. below 64 (cpu_proc (cpus procst_ex c))" "below 64 (initproc kst_ex)" by (simp_all add: procst_ex_defs kst_ex_more)
  moreover have "length (in_buf kst_ex) = 128" "cga_pos kst_ex < 1920" "length (devtab kst_ex) = 10" by (simp_all add: ex_defs)
  ultimately show "ktype kst_ty" using p q
    by (auto simp: kst_ty_def kst_ex_more ktype_def inode_zero_def inode_ty_def kfile_zero_def file_ty_def pipe_zero_def)
  have "the_cpu kst_ty = the_cpu kst_ex" by (simp add: kst_ty_def the_cpu_def)
  then show "cpu_proc (the_cpu kst_ty) = Some 1" by (simp add: procst_ex_fields)
  show "\<not> p_killed (ptable kst_ty ! 1)" "length (ptable kst_ty) = 64" by (simp_all add: kst_ty_def procst_ex_defs)
qed


end
