(* ===== verification/Threads.thy ===== *)
theory Threads
  imports Pipefifo Sysfile
begin

text \<open>
  The life of a kernel thread: what \<open>exit\<close> of a thread leaves, how \<open>wait\<close> and \<open>getthreadretval\<close> join it,
  and what becomes of threads that create threads or close the descriptors they share.
\<close>

section \<open>Reaping an entry\<close>

lemma crit_kmem_more [simp]:
  "crit_kmem (s\<lparr>ptable := x\<rparr>) = (crit_kmem s)\<lparr>ptable := x\<rparr>" "l \<noteq> Lkmem \<Longrightarrow> lk_held l s \<Longrightarrow> lk_held l (crit_kmem s)"
  "is_page v (s\<lparr>ptable := x\<rparr>) = is_page v s" "is_page v (acq l s) = is_page v s" "is_page v (rel l s) = is_page v s"
  by (auto simp: crit_kmem_def is_page_def intro!: held_rel_other dest: held_ncli)

definition gone :: "proc \<Rightarrow> proc" where
  "gone p = drop_sync ((clear_proc p)\<lparr>p_kstack := 0\<rparr>)"

lemma free_entry_Ret:
  assumes "i < length (ptable s)" "is_page (p_kstack (ptable s ! i)) s" "use_lock s \<longrightarrow> lk_free Lkmem s" "cli_ok s"
  defines "v \<equiv> p_kstack (ptable s ! i)"
  shows "free_entry i s = Ret () ((crit_kmem s)\<lparr>ptable := (ptable s)[i := gone (ptable s ! i)],
    mem := mwr32 (memset (mem s) v 1 PGSIZE) v (freelist s), freelist := v\<rparr>)"
proof -
  have k: "p_kstack (clear_proc (ptable s ! i)) = v" by (simp add: clear_proc_def v_def)
  have "kfree v (s\<lparr>ptable := (ptable s)[i := clear_proc (ptable s ! i)]\<rparr>) =
    Ret () ((crit_kmem s)\<lparr>ptable := (ptable s)[i := clear_proc (ptable s ! i)], mem := mwr32 (memset (mem s) v 1 PGSIZE) v (freelist s), freelist := v\<rparr>)"
    using assms(2-4) by (subst kfree_Ret) (simp_all add: v_def)
  then show ?thesis using assms(1) k
    by (simp add: free_entry_def mon_defs updp_def getp_def gone_def)
qed

section \<open>Joining a thread\<close>

text \<open>An exited thread \<open>i\<close> with number \<open>tid\<close> of the process \<open>p\<close>, not detached; no other entry has its number.\<close>

definition zombie_thread :: "nat \<Rightarrow> nat \<Rightarrow> int \<Rightarrow> 'z memst_scheme \<Rightarrow> bool" where
  "zombie_thread p i tid s \<longleftrightarrow> i < length (ptable s) \<and> i \<noteq> p \<and> p_state (ptable s ! i) = ZOMBIE \<and> p_type (ptable s ! i) \<noteq> 0 \<and>
     p_pid (ptable s ! i) = tid \<and> 0 < tid \<and> tid < 2 ^ 31 \<and> p_parent (ptable s ! i) = Some p \<and> p_threadattr (ptable s ! i) = 0 \<and>
     is_page (p_kstack (ptable s ! i)) s \<and> (\<forall>j < length (ptable s). of_int (p_pid (ptable s ! j)) = (of_int tid :: u32) \<longrightarrow> j = i)"

lemma find_idx_only:
  assumes "i < length xs" "P (xs ! i)" "\<And>j. j < length xs \<Longrightarrow> P (xs ! j) \<Longrightarrow> j = i"
  shows "find_idx P xs = Some i"
proof (cases "find_idx P xs")
  case None
  then show ?thesis using assms(1,2) by (auto simp: find_idx_None_iff)
next
  case (Some j)
  then show ?thesis using find_idx_SomeD[OF Some] assms(3) by auto
qed

lemma zombie_threadD: "zombie_thread p i tid s \<Longrightarrow> j < length (ptable s) \<Longrightarrow> of_int (p_pid (ptable s ! j)) = (of_int tid :: u32) \<Longrightarrow> j = i"
  unfolding zombie_thread_def by blast

lemma wait_thread:
  assumes "runs p s" "p_type (ptable s ! p) = 0" "zombie_thread p i tid s"
  shows "wait (of_int tid) s = Ret tid (rel Lptable (acq Lptable s))"
proof -
  let ?t = "acq Lptable s"
  have r: "lk_free Lptable s" "cli_ok s" "cpu_proc (the_cpu s) = Some p" "p < length (ptable s)" using assms(1) by auto
  have z: "i < length (ptable s)" "p_pid (ptable s ! i) = tid" "p_type (ptable s ! i) \<noteq> 0" "p_state (ptable s ! i) = ZOMBIE"
    "p_parent (ptable s ! i) = Some p" using assms(3) by (auto simp: zombie_thread_def)
  have "0 < tid" "tid < 2147483648" using assms(3) by (simp_all add: zombie_thread_def)
  then have u: "uint (of_int tid :: u32) = tid" by (simp add: uint_word_of_int)
  have t0: "(of_int tid :: u32) \<noteq> 0"
  proof
    assume "(of_int tid :: u32) = 0"
    then have "uint (of_int tid :: u32) = 0" by simp
    from trans[OF u[symmetric] this] \<open>0 < tid\<close> show False by simp
  qed
  have "find_idx (\<lambda>q. waits_for p (ptable s ! p) (of_int tid) q \<and> p_state q = ZOMBIE) (ptable s) = Some i"
  proof (rule find_idx_only[OF z(1)])
    show "waits_for p (ptable s ! p) (of_int tid) (ptable s ! i) \<and> p_state (ptable s ! i) = ZOMBIE"
      using z assms(2) by (simp add: waits_for_def)
    fix j assume "j < length (ptable s)" "waits_for p (ptable s ! p) (of_int tid) (ptable s ! j) \<and> p_state (ptable s ! j) = ZOMBIE"
    then show "j = i" using t0 zombie_threadD[OF assms(3), of j] by (simp add: waits_for_def)
  qed
  then show ?thesis using r z by (simp add: wait_def wait_loop_def mon_defs acquire_free release_held)
qed

lemma getthreadretval_Ret:
  assumes "runs p s" "zombie_thread p i tid s" "kmem_ok xs s" "p_kstack (ptable s ! i) \<notin> set xs"
  defines "q \<equiv> ptable s ! i"
  shows "\<exists>t. getthreadretval tid s = Ret (p_threadretval q) t \<and> kmem_ok (p_kstack q # xs) t \<and> runs p t \<and>
    ptable t = (ptable s)[p := (ptable s ! p)\<lparr>p_tcount := p_tcount (ptable s ! p) - 1\<rparr>, i := gone (q\<lparr>p_pgdir := 0\<rparr>)]"
proof -
  let ?u = "acq Lptable s" and ?v = "p_kstack q"
  let ?ps = "(ptable s)[p := (ptable s ! p)\<lparr>p_tcount := p_tcount (ptable s ! p) - 1\<rparr>]"
  let ?w = "?u\<lparr>ptable := ?ps[i := q\<lparr>p_pgdir := 0\<rparr>]\<rparr>"
  have r: "lk_free Lptable s" "cli_ok s" "cpu_proc (the_cpu s) = Some p" "p < length (ptable s)" using assms(1) by auto
  have z: "i < length (ptable s)" "i \<noteq> p" "p_pid q = tid" "p_type q \<noteq> 0" "p_parent q = Some p" "p_threadattr q = 0" "is_page ?v s"
    using assms(2) unfolding zombie_thread_def q_def by blast+
  have f: "find_idx (\<lambda>q. p_type q \<noteq> 0 \<and> p_pid q = tid) (ptable s) = Some i"
  proof (rule find_idx_only[OF z(1)])
    fix j assume "j < length (ptable s)" "p_type (ptable s ! j) \<noteq> 0 \<and> p_pid (ptable s ! j) = tid"
    then show "j = i" using zombie_threadD[OF assms(2), of j] by simp
  qed (use z(3,4) in \<open>simp add: q_def\<close>)
  have k: "use_lock s \<longrightarrow> lk_free Lkmem s" using assms(3) by (simp add: kmem_ok_def)
  have pi: "ptable ?w ! i = q\<lparr>p_pgdir := 0\<rparr>" using z(1) by simp
  let ?m = "mwr32 (memset (mem s) ?v 1 PGSIZE) ?v (freelist s)"
  have fe: "free_entry i ?w = Ret () ((crit_kmem ?u)\<lparr>ptable := ?ps[i := gone (q\<lparr>p_pgdir := 0\<rparr>)], mem := ?m, freelist := ?v\<rparr>)"
    using free_entry_Ret[of i ?w] z k r pi by simp
  let ?t = "(rel Lptable (crit_kmem ?u))\<lparr>ptable := ?ps[i := gone (q\<lparr>p_pgdir := 0\<rparr>)], mem := ?m, freelist := ?v\<rparr>"
  have h: "lk_held Lptable (crit_kmem ?u)" using r by simp
  have g: "getthreadretval tid s = Ret (p_threadretval q) ?t"
    using f r z fe h by (simp add: getthreadretval_def mon_defs acquire_free release_held deref_def q_def)
  have "kmem_ok (?v # xs) ?t"
  proof -
    obtain t where t: "kfree ?v s = Ret () t" "kmem_ok (?v # xs) t" using kfree_ok[OF assms(3) z(7)] assms(4) by (auto simp: q_def)
    then have "mem t = ?m" "freelist t = ?v" "kend t = kend s" using kfree_Ret[OF z(7) k r(2)] by auto
    then show ?thesis using t(2) h k r(2) by (auto simp: kmem_ok_def is_page_def)
  qed
  moreover have "runs p ?t" using r h by (simp add: runs_def)
  ultimately show ?thesis using g by (intro exI[of _ ?t]) simp
qed

section \<open>The exit of a thread\<close>

definition exited :: "proc \<Rightarrow> proc" where
  "exited q = q\<lparr>p_ofile := replicate NOFILE None, p_cwd := None, p_pgdir := (if p_threadattr q \<noteq> 0 then 0 else p_pgdir q),
     p_state := ZOMBIE\<rparr>"

text \<open>A thread only forgets the files, which its process keeps open.\<close>

lemma thread_closes:
  assumes "p < length (ptable s)" "p_type (ptable s ! p) \<noteq> 0" "length (p_ofile (ptable s ! p)) = NOFILE"
  shows "forM [0..<NOFILE] (exit_close p) s =
    Ret () (s\<lparr>ptable := (ptable s)[p := (ptable s ! p)\<lparr>p_ofile := replicate NOFILE None\<rparr>]\<rparr>)"
proof -
  let ?q = "ptable s ! p"
  let ?I = "\<lambda>k t. t = s\<lparr>ptable := (ptable s)[p := ?q\<lparr>p_ofile := replicate k None @ drop k (p_ofile ?q)\<rparr>]\<rparr>"
  have "wp (forM [0..<NOFILE] (exit_close p)) (\<lambda>_. ?I NOFILE) s"
  proof (rule wp_forM)
    show "?I 0 s" by simp
    fix k t assume k: "k < NOFILE" and t: "?I k t"
    have d: "drop k (p_ofile ?q) = p_ofile ?q ! k # drop (Suc k) (p_ofile ?q)" using k assms(3) by (simp add: Cons_nth_drop_Suc)
    then have n: "(replicate k None @ drop k (p_ofile ?q)) ! k = p_ofile ?q ! k" by (simp add: nth_append)
    have "wp (getp p) (\<lambda>x. wp (case p_ofile x ! k of None \<Rightarrow> skip | Some f \<Rightarrow>
        thn (if p_type x = 0 then fileclose f True else skip) (updp p (\<lambda>q. q\<lparr>p_ofile := (p_ofile q)[k := None]\<rparr>))) (\<lambda>_. ?I (Suc k))) t"
    proof (cases "p_ofile ?q ! k")
      case None
      then show ?thesis using t assms n d by (simp add: wp_def getp_def mon_defs replicate_app_Cons_same)
    next
      case (Some f)
      then show ?thesis using t assms n d by (simp add: wp_def getp_def updp_def mon_defs list_update_append replicate_app_Cons_same)
    qed
    then show "wp (exit_close p k) (\<lambda>_. ?I (Suc k)) t" by (simp add: exit_close_def)
  qed
  then show ?thesis using assms(3) by (auto dest: wpDu)
qed

lemma wakeup_proc_me: "(wakeup_proc ch q)\<lparr>p_state := st\<rparr> = q\<lparr>p_state := st\<rparr>"
  by (simp add: wakeup_proc_def)

lemma thread_exit:
  assumes "runs p s" "ncli (the_cpu s) = 0" "initproc s \<noteq> Some p" "p_type (ptable s ! p) \<noteq> 0" "p_tcount (ptable s ! p) = 0"
    "length (p_ofile (ptable s ! p)) = NOFILE"
  defines "q \<equiv> ptable s ! p"
  shows "exit s = Swt ((acq Lptable s)\<lparr>ptable := (map (wakeup_proc (chan_of_parent (p_parent q))) (ptable s))[p := exited q]\<rparr>)"
proof -
  have r: "lk_free Lptable s" "cli_ok s" "cpu_proc (the_cpu s) = Some p" "p < length (ptable s)" using assms(1) by auto
  note c = thread_closes[OF r(4) assms(4,6)]
  show ?thesis
    using r assms c
    by (simp add: exit_def exit_loop_def wakeup1_def mon_defs acquire_free sched_def map_update wakeup_proc_me exited_def)
qed

text \<open>A thread \<open>i\<close> that runs, made by the process \<open>p\<close>, joinable, without threads of its own, and its number is its own.\<close>

definition run_thread :: "nat \<Rightarrow> nat \<Rightarrow> int \<Rightarrow> 'z procst_scheme \<Rightarrow> bool" where
  "run_thread p i tid s \<longleftrightarrow> runs i s \<and> ncli (the_cpu s) = 0 \<and> initproc s \<noteq> Some i \<and> i \<noteq> p \<and> p < length (ptable s) \<and>
     p_type (ptable s ! i) \<noteq> 0 \<and> p_type (ptable s ! p) = 0 \<and> p_tcount (ptable s ! i) = 0 \<and> p_threadattr (ptable s ! i) = 0 \<and>
     length (p_ofile (ptable s ! i)) = NOFILE \<and> p_parent (ptable s ! i) = Some p \<and> p_pid (ptable s ! i) = tid \<and> 0 < tid \<and> tid < 2 ^ 31 \<and>
     (\<forall>j < length (ptable s). of_int (p_pid (ptable s ! j)) = (of_int tid :: u32) \<longrightarrow> j = i)"

text \<open>
  C19. A thread that saves a return value \<open>v\<close> and exits becomes a zombie at the switch, its parent is woken,
  and the files of the process stay open; from then on a \<open>wait\<close> of the parent for the number of the thread
  returns at once with it, and \<open>getthreadretval\<close> returns \<open>v\<close>, gives the entry and the kernel stack of the thread
  back, counts one thread less in the parent, and changes no other entry.
\<close>

theorem kthread_exit_join:
  assumes "run_thread p i tid s"
  shows "\<exists>t. thn (updp i (\<lambda>q. q\<lparr>p_threadretval := v\<rparr>)) exit s = Swt t \<and> holding Lptable t \<and>
    length (ptable t) = length (ptable s) \<and> p_state (ptable t ! i) = ZOMBIE \<and> ftable t = ftable s \<and>
    (\<forall>j < length (ptable s). j \<noteq> i \<longrightarrow> ptable t ! j = wakeup_proc (ChProc p) (ptable s ! j)) \<and>
    (\<forall>u xs. runs p u \<and> ptable u = ptable t \<and> kmem_ok xs u \<and> is_page (p_kstack (ptable s ! i)) u \<and> p_kstack (ptable s ! i) \<notin> set xs \<longrightarrow>
      (\<exists>w x. wait (of_int tid) u = Ret tid w \<and> ptable w = ptable u \<and> getthreadretval tid w = Ret v x \<and>
        kmem_ok (p_kstack (ptable s ! i) # xs) x \<and> p_state (ptable x ! i) = UNUSED \<and>
        p_tcount (ptable x ! p) = p_tcount (ptable u ! p) - 1 \<and> (\<forall>j. j \<noteq> i \<longrightarrow> j \<noteq> p \<longrightarrow> ptable x ! j = ptable u ! j)))"
proof -
  have d: "runs i s" "ncli (the_cpu s) = 0" "initproc s \<noteq> Some i" "i \<noteq> p" "p < length (ptable s)" "p_type (ptable s ! i) \<noteq> 0"
    "p_type (ptable s ! p) = 0" "p_tcount (ptable s ! i) = 0" "p_threadattr (ptable s ! i) = 0" "length (p_ofile (ptable s ! i)) = NOFILE"
    "p_parent (ptable s ! i) = Some p" "p_pid (ptable s ! i) = tid" "0 < tid" "tid < 2 ^ 31"
    and only: "\<And>j. j < length (ptable s) \<Longrightarrow> of_int (p_pid (ptable s ! j)) = (of_int tid :: u32) \<Longrightarrow> j = i"
    using assms unfolding run_thread_def by blast+
  let ?q = "(ptable s ! i)\<lparr>p_threadretval := v\<rparr>"
  let ?s = "s\<lparr>ptable := (ptable s)[i := ?q]\<rparr>"
  let ?T = "(map (wakeup_proc (ChProc p)) ((ptable s)[i := ?q]))[i := exited ?q]"
  have i: "i < length (ptable s)" using d(1) by auto
  have e: "exit ?s = Swt ((acq Lptable ?s)\<lparr>ptable := ?T\<rparr>)"
    using d i thread_exit[of i ?s] by (simp add: runs_def chan_of_parent_def)
  have "\<exists>w x. wait (of_int tid) u = Ret tid w \<and> ptable w = ptable u \<and> getthreadretval tid w = Ret v x \<and>
        kmem_ok (p_kstack (ptable s ! i) # xs) x \<and> p_state (ptable x ! i) = UNUSED \<and>
        p_tcount (ptable x ! p) = p_tcount (ptable u ! p) - 1 \<and> (\<forall>j. j \<noteq> i \<longrightarrow> j \<noteq> p \<longrightarrow> ptable x ! j = ptable u ! j)"
    if u: "runs p u" "ptable u = ?T" "kmem_ok xs u" "is_page (p_kstack (ptable s ! i)) u" "p_kstack (ptable s ! i) \<notin> set xs" for u xs
  proof -
    let ?w = "rel Lptable (acq Lptable u)"
    have E: "?T ! i = exited ?q" using i by simp
    have pid: "p_pid (?T ! j) = p_pid (ptable s ! j)" if "j < length (ptable s)" for j
      using that i by (cases "j = i") (simp_all add: exited_def wakeup_proc_def)
    have z: "zombie_thread p i tid y" if "ptable y = ?T" "is_page (p_kstack (ptable s ! i)) y" for y
    proof -
      have "\<forall>j < length ?T. of_int (p_pid (?T ! j)) = (of_int tid :: u32) \<longrightarrow> j = i" using only pid by simp
      then show ?thesis unfolding zombie_thread_def that(1) E using d(4,6,9,11-14) i that(2) by (simp add: exited_def)
    qed
    have p: "p_type (ptable u ! p) = 0" using d(4,5,7) u(2) by (simp add: wakeup_proc_def)
    have w: "runs p ?w" "ptable ?w = ?T" "is_page (p_kstack (ptable s ! i)) ?w" "kmem_ok xs ?w"
      using u by (auto simp: runs_def kmem_ok_def)
    obtain x where x: "getthreadretval tid ?w = Ret (p_threadretval (?T ! i)) x" "kmem_ok (p_kstack (?T ! i) # xs) x"
      "ptable x = ?T[p := (?T ! p)\<lparr>p_tcount := p_tcount (?T ! p) - 1\<rparr>, i := gone ((?T ! i)\<lparr>p_pgdir := 0\<rparr>)]"
      using getthreadretval_Ret[OF w(1) z[OF w(2,3)] w(4)] u(5) E w(2) by (auto simp: exited_def)
    have "wait (of_int tid) u = Ret tid ?w" by (rule wait_thread[OF u(1) p z[OF u(2,4)]])
    then show ?thesis using x E w(2) u(2) i d(4,5)
      by (intro exI[of _ ?w] exI[of _ x]) (simp add: exited_def gone_def drop_sync_def clear_proc_def)
  qed
  note join = this
  have "thn (updp i (\<lambda>q. q\<lparr>p_threadretval := v\<rparr>)) exit s = Swt ((acq Lptable ?s)\<lparr>ptable := ?T\<rparr>)" using e i by (simp add: mon_defs)
  moreover have "p_state (?T ! i) = ZOMBIE" "\<forall>j < length (ptable s). j \<noteq> i \<longrightarrow> ?T ! j = wakeup_proc (ChProc p) (ptable s ! j)"
    using i by (simp_all add: exited_def)
  ultimately show ?thesis
    by (intro exI[of _ "(acq Lptable ?s)\<lparr>ptable := ?T\<rparr>"] conjI allI impI) (assumption | (elim conjE, rule join) | simp)+
qed

section \<open>Threads of a thread\<close>

text \<open>
  The entry \<open>p\<close> counts threads, and no thread has \<open>p\<close> as its parent: \<open>fork\<close> leaves a thread that creates a thread
  like this, as it counts the new one in the creator and makes it a child of the creator's parent.
\<close>

definition childless :: "nat \<Rightarrow> 'z procst_scheme \<Rightarrow> bool" where
  "childless p s \<longleftrightarrow> p < length (ptable s) \<and> p_tcount (ptable s ! p) \<noteq> 0 \<and>
     list_all (\<lambda>q. p_type q \<noteq> 0 \<longrightarrow> p_parent q \<noteq> Some p) (ptable s)"

lemma childless_find: "childless p s \<Longrightarrow> find_idx (\<lambda>q. p_type q \<noteq> 0 \<and> p_state q = ZOMBIE \<and> p_parent q = Some p) (ptable s) = None"
  by (auto simp: childless_def find_idx_None_iff list_all_iff)

lemma childless_upd: "childless p s \<Longrightarrow> childless p (t\<lparr>ptable := (ptable s)[p := (ptable s ! p)\<lparr>p_state := st\<rparr>]\<rparr>)"
  by (auto simp: childless_def list_all_length nth_list_update)

lemma exit_loop_childless:
  assumes "childless p s" "cpu_proc (the_cpu s) = Some p" "lk_held Lptable s" "ncli (the_cpu s) = 1"
  shows "exit_loop s = Swt ((acq Lptable (rel Lptable (acq Lptable (rel Lptable s))))\<lparr>ptable :=
    (ptable s)[p := (ptable s ! p)\<lparr>p_state := RUNNABLE\<rparr>]\<rparr>)"
  using assms childless_find[OF assms(1)]
  by (simp add: exit_loop_def childless_def cleanupzombiethreads_def yield_def sched_def mon_defs acquire_free release_held)

lemma sched_return_more:
  "ptable (upd_cpu (\<lambda>c. c\<lparr>intena := b\<rparr>) s) = ptable s" "lk_held l (upd_cpu (\<lambda>c. c\<lparr>intena := b\<rparr>) s) = lk_held l s"
  "cpu_proc (the_cpu (upd_cpu (\<lambda>c. c\<lparr>intena := b\<rparr>) s)) = cpu_proc (the_cpu s)"
  "ncli (the_cpu (upd_cpu (\<lambda>c. c\<lparr>intena := b\<rparr>) s)) = ncli (the_cpu s)"
  by (simp_all add: lk_defs upd_cpu_def)


section \<open>Descriptors that threads share\<close>

text \<open>Two threads \<open>i\<close> and \<open>j\<close> of the process \<open>p\<close>.\<close>

definition siblings :: "nat \<Rightarrow> nat \<Rightarrow> nat \<Rightarrow> 'z procst_scheme \<Rightarrow> bool" where
  "siblings p i j s \<longleftrightarrow> i < length (ptable s) \<and> j < length (ptable s) \<and> i \<noteq> j \<and> i \<noteq> p \<and> j \<noteq> p \<and> p < length (ptable s) \<and>
     p_type (ptable s ! i) = 1 \<and> p_type (ptable s ! j) = 1 \<and> p_parent (ptable s ! i) = Some p \<and> p_parent (ptable s ! j) = Some p"

lemma fileclose_pipe_end:
  assumes "lk_free Lftable s" "lk_free (Lpipe a) s" "lk_free Lptable s" "cli_ok s" "f < length (ftable s)"
    "f_ref (ftable s ! f) = 1" "f_type (ftable s ! f) = FD_PIPE" "f_pipe (ftable s ! f) = a"
    "if f_writable (ftable s ! f) then pp_readopen (pipes s a) else pp_writeopen (pipes s a)"
  shows "\<exists>t. fileclose f e s = Ret () t \<and> f_ref (ftable t ! f) = 0 \<and> length (ftable t) = length (ftable s) \<and>
    ptable t = map (wakeup_proc (if f_writable (ftable s ! f) then ChPread a else ChPwrite a)) (ptable s)"
proof -
  have "0 \<le> ncli (the_cpu s)" using assms(4) by (simp add: cli_ok_def)
  then show ?thesis using assms
    by (simp add: fileclose_def pipeclose_def mon_defs acquire_free release_held getf_def updf_def getpipe_def updpipe_def wakeup_Ret)
qed

text \<open>
  C22. When a thread closes an end of a pipe that the threads of its process share, the descriptor is cleared in the thread and in its
  parent and the file is freed, but the other threads keep the descriptor; the next of them that closes it makes
  the kernel panic.
\<close>

theorem sibling_close_panics:
  assumes "siblings p i j s" and "cpu_proc (the_cpu s) = Some i" and "cli_ok s" and "lk_free Lftable s" and "lk_free Lptable s"
    and "lk_free (Lpipe a) s" and "f < length (ftable s)" and "f_ref (ftable s ! f) = 1" and "f_type (ftable s ! f) = FD_PIPE"
    and "f_pipe (ftable s ! f) = a" and "if f_writable (ftable s ! f) then pp_readopen (pipes s a) else pp_writeopen (pipes s a)"
    and "p_ofile (ptable s ! j) ! fd = Some f"
  shows "\<exists>t. close_fd fd f s = Ret 0 t \<and> f_ref (ftable t ! f) = 0 \<and> p_ofile (ptable t ! i) = (p_ofile (ptable s ! i))[fd := None] \<and>
    p_ofile (ptable t ! p) = (p_ofile (ptable s ! p))[fd := None] \<and> p_ofile (ptable t ! j) ! fd = Some f \<and>
    (\<forall>u. cpu_proc (the_cpu u) = Some j \<and> ptable u = ptable t \<and> ftable u = ftable t \<and> lk_free Lftable u \<longrightarrow>
      close_fd fd f u = Pnc ''fileclose'')"
proof -
  let ?s = "s\<lparr>ptable := (ptable s)[i := set_ofile fd None (ptable s ! i), p := set_ofile fd None (ptable s ! p)]\<rparr>"
  note d = assms(1)[unfolded siblings_def]
  have e: "if f_writable (ftable s ! f) then pp_readopen (pipes ?s a) else pp_writeopen (pipes ?s a)" using assms(11) by (simp split: if_splits)
  obtain t where t: "fileclose f False ?s = Ret () t" "f_ref (ftable t ! f) = 0" "length (ftable t) = length (ftable s)"
    "ptable t = map (wakeup_proc (if f_writable (ftable s ! f) then ChPread a else ChPwrite a)) (ptable ?s)"
    using fileclose_pipe_end[of ?s a f False] assms(3-10) e by auto
  have c: "close_fd fd f s = Ret 0 t"
    using t(1) d assms(2) by (simp add: close_fd_def mon_defs updme_def me_def updp_def getp_def deref_def set_ofile_def)
  have u: "close_fd fd f u = Pnc ''fileclose''"
    if "cpu_proc (the_cpu u) = Some j" "ptable u = ptable t" "ftable u = ftable t" "lk_free Lftable u" for u
    using that t(2-4) d assms(7)
    by (simp add: close_fd_def mon_defs updme_def me_def updp_def getp_def deref_def set_ofile_def wakeup_proc_def fileclose_def acquire_free getf_def)
  have "p_ofile (ptable t ! i) = (p_ofile (ptable s ! i))[fd := None]" "p_ofile (ptable t ! p) = (p_ofile (ptable s ! p))[fd := None]"
    "p_ofile (ptable t ! j) ! fd = Some f" using t(4) d assms(12) by (simp_all add: set_ofile_def wakeup_proc_def)
  then show ?thesis using c t(2) u by blast
qed

section \<open>Examples\<close>

text \<open>A process with two threads, which share an end of a pipe; the processor runs entry \<open>p\<close>.\<close>

definition thr_ex :: "nat \<Rightarrow> kst" where
  "thr_ex p = kst_ex\<lparr>cpus := (\<lambda>_. cpu_boot\<lparr>cpu_proc := Some p\<rparr>),
     ptable := [proc_boot\<lparr>p_state := RUNNABLE, p_pid := 1, p_tcount := 2, p_ofile := (replicate NOFILE None)[3 := Some 5]\<rparr>,
        proc_boot\<lparr>p_state := RUNNING, p_pid := 2, p_type := 1, p_parent := Some 0, p_kstack := 0x80203000, p_ofile := (replicate NOFILE None)[3 := Some 5]\<rparr>,
        proc_boot\<lparr>p_state := RUNNABLE, p_pid := 3, p_type := 1, p_parent := Some 0, p_kstack := 0x80204000, p_tcount := 1, p_ofile := (replicate NOFILE None)[3 := Some 5]\<rparr>],
     ftable := (ftable kst_ex)[5 := kfile_zero\<lparr>f_type := FD_PIPE, f_ref := 1, f_readable := True, f_pipe := 0x80205000\<rparr>]\<rparr>"

lemma thr_ex_ok [simp]: "lk_free l (thr_ex p)" "cli_ok (thr_ex p)" "cpu_proc (the_cpu (thr_ex p)) = Some p" "length (ptable (thr_ex p)) = 3"
    "ncli (the_cpu (thr_ex p)) = 0" "p < 3 \<Longrightarrow> runs p (thr_ex p)" "initproc (thr_ex p) = Some 0"
proof -
  have k: "lk_free l kst_ex" for l by simp
  then show l: "lk_free l (thr_ex p)" for l using k[of l] by (simp add: lk_defs thr_ex_def)
  show c: "cli_ok (thr_ex p)" "cpu_proc (the_cpu (thr_ex p)) = Some p" "length (ptable (thr_ex p)) = 3" "ncli (the_cpu (thr_ex p)) = 0"
    by (simp_all add: lk_defs thr_ex_def boot_defs)
  show "runs p (thr_ex p)" if "p < 3" using l c that by (simp add: runs_def)
  show "initproc (thr_ex p) = Some 0" by (simp add: thr_ex_def kst_ex_more)
qed

lemma thr_ex_kmem: "kmem_ok [0x80202000, 0x80201000] ((thr_ex p)\<lparr>ptable := ps\<rparr>)" "is_page 0x80203000 ((thr_ex p)\<lparr>ptable := ps\<rparr>)"
proof -
  have f: "mem ((thr_ex p)\<lparr>ptable := ps\<rparr>) = mem memst_ex" "freelist ((thr_ex p)\<lparr>ptable := ps\<rparr>) = freelist memst_ex"
    "kend ((thr_ex p)\<lparr>ptable := ps\<rparr>) = kend memst_ex" "use_lock ((thr_ex p)\<lparr>ptable := ps\<rparr>)"
    by (simp_all add: thr_ex_def kst_ex_more)
  have g: "is_page v ((thr_ex p)\<lparr>ptable := ps\<rparr>) = is_page v memst_ex" for v using f by (simp add: is_page_def)
  show "kmem_ok [0x80202000, 0x80201000] ((thr_ex p)\<lparr>ptable := ps\<rparr>)"
    using memst_ex_ok f g by (simp add: kmem_ok_def)
  show "is_page 0x80203000 ((thr_ex p)\<lparr>ptable := ps\<rparr>)" by (simp add: is_page_def f(3) page_aligned_def v2p_def)
qed

lemma thr_ex_ptable: "ptable (thr_ex p) = [proc_boot\<lparr>p_state := RUNNABLE, p_pid := 1, p_tcount := 2, p_ofile := (replicate NOFILE None)[3 := Some 5]\<rparr>,
        proc_boot\<lparr>p_state := RUNNING, p_pid := 2, p_type := 1, p_parent := Some 0, p_kstack := 0x80203000, p_ofile := (replicate NOFILE None)[3 := Some 5]\<rparr>,
        proc_boot\<lparr>p_state := RUNNABLE, p_pid := 3, p_type := 1, p_parent := Some 0, p_kstack := 0x80204000, p_tcount := 1, p_ofile := (replicate NOFILE None)[3 := Some 5]\<rparr>]"
  by (simp add: thr_ex_def)

theorem kthread_exit_join_witness:
  "run_thread 0 1 2 (thr_ex 1) \<and> (\<exists>t. thn (updp 1 (\<lambda>q. q\<lparr>p_threadretval := 99\<rparr>)) exit (thr_ex 1) = Swt t \<and>
    (\<exists>w x. wait 2 ((thr_ex 0)\<lparr>ptable := ptable t\<rparr>) = Ret 2 w \<and> getthreadretval 2 w = Ret 99 x \<and>
      kmem_ok [0x80203000, 0x80202000, 0x80201000] x))"
proof -
  have r: "run_thread 0 1 2 (thr_ex 1)"
    by (auto simp: run_thread_def thr_ex_ptable proc_boot_def less_Suc_eq numeral_3_eq_3)
  obtain t where t: "thn (updp 1 (\<lambda>q. q\<lparr>p_threadretval := 99\<rparr>)) exit (thr_ex 1) = Swt t"
    "\<And>(u :: kst) xs. runs 0 u \<and> ptable u = ptable t \<and> kmem_ok xs u \<and> is_page (p_kstack (ptable (thr_ex 1) ! 1)) u \<and> p_kstack (ptable (thr_ex 1) ! 1) \<notin> set xs \<Longrightarrow>
      (\<exists>w x. wait (of_int 2) u = Ret 2 w \<and> getthreadretval 2 w = Ret 99 x \<and> kmem_ok (p_kstack (ptable (thr_ex 1) ! 1) # xs) x)"
    and "length (ptable t) = length (ptable (thr_ex 1))" using kthread_exit_join[OF r, of 99] by blast
  then have "runs 0 ((thr_ex 0)\<lparr>ptable := ptable t\<rparr>)" by (simp add: runs_def)
  with t(2)[of "(thr_ex 0)\<lparr>ptable := ptable t\<rparr>" "[0x80202000, 0x80201000]"] thr_ex_kmem
  show ?thesis using r t(1) by (simp add: thr_ex_ptable)
qed


theorem sibling_close_panics_witness:
  "siblings 0 1 2 (thr_ex 1) \<and> (\<exists>t. close_fd 3 5 (thr_ex 1) = Ret 0 t \<and>
    close_fd 3 5 ((thr_ex 2)\<lparr>ptable := ptable t, ftable := ftable t\<rparr>) = Pnc ''fileclose'')"
proof -
  have s: "siblings 0 1 2 (thr_ex 1)" by (simp add: siblings_def thr_ex_ptable proc_boot_def)
  have f: "ftable (thr_ex 1) ! 5 = kfile_zero\<lparr>f_type := FD_PIPE, f_ref := 1, f_readable := True, f_pipe := 0x80205000\<rparr>" "length (ftable (thr_ex 1)) = 100"
    "pipes (thr_ex 1) = (\<lambda>_. pipe_zero)" by (simp_all add: thr_ex_def)
  obtain t where "close_fd 3 5 (thr_ex 1) = Ret 0 t"
    "\<And>u :: kst. cpu_proc (the_cpu u) = Some 2 \<and> ptable u = ptable t \<and> ftable u = ftable t \<and> lk_free Lftable u \<Longrightarrow> close_fd 3 5 u = Pnc ''fileclose''"
    using sibling_close_panics[OF s, of "0x80205000" 5 3] f by (auto simp: kfile_zero_def pipe_zero_def thr_ex_ptable)
  then show ?thesis using s by (intro conjI exI[of _ t]) simp_all
qed

end
