(* ===== verification/Grep.thy ===== *)
theory Grep
  imports Params
begin

text \<open>
  The user program \<^verbatim>\<open>grep.c\<close>: its matcher for patterns with the operators \<open>^\<close>, \<open>.\<close>, \<open>*\<close> and \<open>$\<close>, the loop
  that splits what it reads into lines, and \<open>strchr\<close> of \<^verbatim>\<open>ulib.c\<close>. A C string is the list of its bytes
  before the terminating zero.
\<close>

section \<open>The matcher\<close>

function matchhere :: "u8 list \<Rightarrow> u8 list \<Rightarrow> bool" and matchstar :: "u8 \<Rightarrow> u8 list \<Rightarrow> u8 list \<Rightarrow> bool" where
  "matchhere re text =
     (case re of
        [] \<Rightarrow> True
      | r # re' \<Rightarrow>
          if re' \<noteq> [] \<and> hd re' = 42 then matchstar r (tl re') text
          else if r = 36 \<and> re' = [] then text = []
          else if text \<noteq> [] \<and> (r = 46 \<or> r = hd text) then matchhere re' (tl text)
          else False)"
| "matchstar c re text =
     (if matchhere re text then True
      else case text of
             [] \<Rightarrow> False
           | t # text' \<Rightarrow> if t = c \<or> c = 46 then matchstar c re text' else False)"
  by pat_completeness auto
termination
  by (relation "measures [case_sum (\<lambda>(re, text). 2 * length re) (\<lambda>(c, re, text). 2 * length re + 1),
      case_sum (\<lambda>(re, text). length text) (\<lambda>(c, re, text). length text)]") (auto simp: neq_Nil_conv)

declare matchhere.simps [simp del] matchstar.simps [simp del]

fun match_any :: "u8 list \<Rightarrow> u8 list \<Rightarrow> bool" where
  "match_any re [] = matchhere re []"
| "match_any re (t # text) = (if matchhere re (t # text) then True else match_any re text)"

definition match :: "u8 list \<Rightarrow> u8 list \<Rightarrow> bool" where
  "match re text = (if re \<noteq> [] \<and> hd re = 94 then matchhere (tl re) text else match_any re text)"

section \<open>The lines of the input\<close>

text \<open>\<open>strchr\<close> on the bytes from a pointer to the end of its array, which the code does not know: \<open>Overrun\<close> is a read past it.\<close>

datatype found = At nat | Absent | Overrun

fun strchr :: "u8 list \<Rightarrow> u8 \<Rightarrow> found" where
  "strchr [] c = Overrun"
| "strchr (x # xs) c =
     (if x = 0 then Absent
      else if x = c then At 0
      else case strchr xs c of At i \<Rightarrow> At (Suc i) | r \<Rightarrow> r)"

lemma strchr_At: "strchr xs c = At i \<Longrightarrow> i < length xs"
  by (induction xs arbitrary: i) (auto split: if_splits found.splits)

text \<open>
  The inner loop, from the position \<open>p\<close> of the buffer on: the buffer, the position and the output after it.
  The newline at \<open>p + i\<close> is replaced by a zero, which the matcher sees as the end of the line, and comes back only
  when the line matches.
\<close>

function grep_lines :: "u8 list \<Rightarrow> u8 list \<Rightarrow> nat \<Rightarrow> (u8 list \<times> nat \<times> u8 list) option" where
  "grep_lines pat buf p =
     (case strchr (drop p buf) 10 of
        Overrun \<Rightarrow> None
      | Absent \<Rightarrow> Some (buf, p, [])
      | At i \<Rightarrow>
          let hit = match pat (take i (drop p buf));
              buf = buf[p + i := if hit then 10 else 0];
              out = if hit then take (i + 1) (drop p buf) else []
          in case grep_lines pat buf (p + i + 1) of
               None \<Rightarrow> None
             | Some (b, p', out') \<Rightarrow> Some (b, p', out @ out'))"
  by pat_completeness auto
termination
  by (relation "measure (\<lambda>(pat, buf, p). length buf - p)") (auto dest: strchr_At)

declare grep_lines.simps [simp del]

text \<open>
  \<open>grep\<close> on the results of its reads: \<open>None\<close> when it reads or writes outside \<open>buf\<close>; a read returns at most the number of bytes asked for.
\<close>

fun grep_loop :: "u8 list \<Rightarrow> u8 list list \<Rightarrow> u8 list \<Rightarrow> int \<Rightarrow> u8 list option" where
  "grep_loop pat [] buf m = Some []"
| "grep_loop pat (r # rs) buf m =
     (if r = [] then Some []
      else if m < 0 \<or> m + int (length r) > 1024 then None
      else
        case grep_lines pat (take (nat m) buf @ r @ drop (nat m + length r) buf) 0 of
          None \<Rightarrow> None
        | Some (buf, p, out) \<Rightarrow>
            let m = if p = 0 then 0 else m + int (length r);
                n = if m > 0 then m - int p else m;
                buf = if m > 0 then take (nat n) (drop p buf) @ drop (nat n) buf else buf
            in map_option ((@) out) (grep_loop pat rs buf n))"

definition grep :: "u8 list \<Rightarrow> u8 list list \<Rightarrow> u8 list option" where
  "grep pat rs = grep_loop pat rs (replicate 1024 0) 0"

section \<open>What a pattern means\<close>

datatype atom = One u8 | Star u8 | End

fun atoms :: "u8 list \<Rightarrow> atom list" where
  "atoms [] = []"
| "atoms [c] = [if c = 36 then End else One c]"
| "atoms (c # d # re) = (if d = 42 then Star c # atoms re else One c # atoms (d # re))"

definition admits :: "u8 \<Rightarrow> u8 \<Rightarrow> bool" where
  "admits c x \<longleftrightarrow> c = 46 \<or> c = x"

text \<open>The strings that a list of atoms stands for; \<open>End\<close> stands for no byte.\<close>

fun lang :: "atom list \<Rightarrow> u8 list set" where
  "lang [] = {[]}"
| "lang (One c # as) = {x # w |x w. admits c x \<and> w \<in> lang as}"
| "lang (Star c # as) = {v @ w |v w. list_all (admits c) v \<and> w \<in> lang as}"
| "lang (End # as) = lang as"

definition at_end :: "atom list \<Rightarrow> bool" where
  "at_end as \<longleftrightarrow> as \<noteq> [] \<and> last as = End"

definition matches :: "atom list \<Rightarrow> u8 list \<Rightarrow> bool" where
  "matches as text \<longleftrightarrow> (\<exists>v w. text = v @ w \<and> v \<in> lang as \<and> (at_end as \<longrightarrow> w = []))"

lemma matches_Nil [simp]: "matches [] text"
  by (auto simp: matches_def at_end_def)

lemma matches_End [simp]: "matches [End] text \<longleftrightarrow> text = []"
  by (auto simp: matches_def at_end_def)

lemma at_end_Cons: "at_end (One c # as) = at_end as" "at_end (Star c # as) = at_end as"
  by (auto simp: at_end_def)

lemma matches_One: "matches (One c # as) text \<longleftrightarrow> (\<exists>x w. text = x # w \<and> admits c x \<and> matches as w)"
proof -
  have "matches (One c # as) text \<longleftrightarrow> (\<exists>x v w. text = x # v @ w \<and> admits c x \<and> v \<in> lang as \<and> (at_end as \<longrightarrow> w = []))"
    unfolding matches_def at_end_Cons lang.simps(2) mem_Collect_eq by (metis append_Cons)
  also have "\<dots> \<longleftrightarrow> (\<exists>x w. text = x # w \<and> admits c x \<and> matches as w)" unfolding matches_def by blast
  finally show ?thesis .
qed

lemma matches_Star: "matches (Star c # as) text \<longleftrightarrow> (\<exists>v w. text = v @ w \<and> list_all (admits c) v \<and> matches as w)"
proof -
  have "matches (Star c # as) text \<longleftrightarrow>
      (\<exists>u v w. text = u @ v @ w \<and> list_all (admits c) u \<and> v \<in> lang as \<and> (at_end as \<longrightarrow> w = []))"
    unfolding matches_def at_end_Cons lang.simps(3) mem_Collect_eq append.assoc[symmetric] by blast
  also have "\<dots> \<longleftrightarrow> (\<exists>v w. text = v @ w \<and> list_all (admits c) v \<and> matches as w)" unfolding matches_def by blast
  finally show ?thesis .
qed

lemma matches_Star_Nil: "matches (Star c # as) [] \<longleftrightarrow> matches as []"
  by (simp add: matches_Star)

lemma matches_Star_Cons: "matches (Star c # as) (x # text) \<longleftrightarrow> matches as (x # text) \<or> admits c x \<and> matches (Star c # as) text"
proof
  assume "matches (Star c # as) (x # text)"
  then obtain v w where "x # text = v @ w" "list_all (admits c) v" "matches as w" by (auto simp: matches_Star)
  then show "matches as (x # text) \<or> admits c x \<and> matches (Star c # as) text"
    by (cases v) (auto simp: matches_Star)
next
  assume "matches as (x # text) \<or> admits c x \<and> matches (Star c # as) text"
  then show "matches (Star c # as) (x # text)"
  proof
    assume "matches as (x # text)"
    then show ?thesis unfolding matches_Star by (intro exI[of _ "[]"] exI[of _ "x # text"]) simp
  next
    assume "admits c x \<and> matches (Star c # as) text"
    then obtain v w where "text = v @ w" "list_all (admits c) (x # v)" "matches as w" by (auto simp: matches_Star)
    then show ?thesis unfolding matches_Star by (intro exI[of _ "x # v"] exI[of _ w]) auto
  qed
qed

lemma matchhere_Nil: "matchhere [] t"
  by (simp add: matchhere.simps)

lemma matchhere_one: "matchhere [r] t = (if r = 36 then t = [] else t \<noteq> [] \<and> admits r (hd t))"
  by (simp add: matchhere.simps admits_def)

lemma matchhere_two: "matchhere (r # d # re) t = (if d = 42 then matchstar r re t else t \<noteq> [] \<and> admits r (hd t) \<and> matchhere (d # re) (tl t))"
  by (subst matchhere.simps) (auto simp: admits_def)

lemma matchstar_Nil: "matchstar c re [] = matchhere re []"
  by (simp add: matchstar.simps)

lemma matchstar_Cons: "matchstar c re (x # t) = (matchhere re (x # t) \<or> admits c x \<and> matchstar c re t)"
  by (subst matchstar.simps) (auto simp: admits_def)

lemma matchhere_matches:
  "matchhere re text = matches (atoms re) text"
  "matchstar c re text = matches (Star c # atoms re) text"
proof (induction re "text" and c re "text" rule: matchhere_matchstar.induct)
  case (1 re t)
  show ?case
  proof (cases re)
    case Nil
    then show ?thesis by (simp add: matchhere_Nil)
  next
    case (Cons r re')
    show ?thesis
    proof (cases re')
      case Nil
      then show ?thesis using Cons by (cases t) (auto simp: matchhere_one matches_One)
    next
      case (Cons d re'')
      have "d \<noteq> 42 \<Longrightarrow> t \<noteq> [] \<Longrightarrow> admits r (hd t) \<Longrightarrow> matchhere re' (tl t) = matches (atoms re') (tl t)"
        "d = 42 \<Longrightarrow> matchstar r re'' t = matches (Star r # atoms re'') t"
        using 1(1)[OF \<open>re = r # re'\<close>] 1(2)[OF \<open>re = r # re'\<close>] Cons by (auto simp: admits_def)
      then show ?thesis using \<open>re = r # re'\<close> Cons by (cases t) (auto simp: matchhere_two matches_One)
    qed
  qed
next
  case (2 c re t)
  then show ?case
    by (cases t) (auto simp: matchstar_Nil matchstar_Cons matches_Star_Nil matches_Star_Cons admits_def)
qed

lemma match_any_matches: "match_any re text \<longleftrightarrow> (\<exists>u v. text = u @ v \<and> matches (atoms re) v)"
proof (induction "text")
  case (Cons t ts)
  then show ?case by (auto simp: matchhere_matches Cons_eq_append_conv)
qed (simp add: matchhere_matches)

text \<open>
  C16. \<open>match\<close> finds exactly the texts that contain a string of the pattern: at the front when the pattern starts with \<open>^\<close>,
  up to the end when it ends with \<open>$\<close>, and anywhere otherwise. The search through backtracking always terminates.
\<close>

theorem match_correct:
  "match re text \<longleftrightarrow>
    (let anchored = (re \<noteq> [] \<and> hd re = 94); as = atoms (if anchored then tl re else re)
     in \<exists>u v w. text = u @ v @ w \<and> (anchored \<longrightarrow> u = []) \<and> v \<in> lang as \<and> (at_end as \<longrightarrow> w = []))"
  unfolding match_def Let_def by (auto simp: matchhere_matches match_any_matches matches_def)

theorem match_correct_witness:
  "match [94, 97, 98, 42, 99, 36] [97, 98, 98, 99] \<and> (\<exists>v w. [97, 98, 98, 99] = v @ w \<and> v \<in> lang (atoms [97, 98, 42, 99, 36]) \<and> w = [])"
proof -
  have "match [94, 97, 98, 42, 99, 36] [97, 98, 98, 99]" by (simp add: match_def matchhere.simps matchstar.simps)
  then show ?thesis using match_correct[of "[94, 97, 98, 42, 99, 36]" "[97, 98, 98, 99]"] by (auto simp: at_end_def)
qed

section \<open>Matching lines\<close>

definition unlines :: "u8 list list \<Rightarrow> u8 list" where
  "unlines ls = concat (map (\<lambda>l. l @ [10]) ls)"

definition plain :: "u8 list \<Rightarrow> bool" where
  "plain l \<longleftrightarrow> 10 \<notin> set l \<and> 0 \<notin> set l"

lemma unlines_simps [simp]: "unlines [] = []" "unlines (l # ls) = l @ 10 # unlines ls"
  by (simp_all add: unlines_def)

lemma strchr_plain: "plain l \<Longrightarrow> strchr (l @ 10 # r) 10 = At (length l)" "plain l \<Longrightarrow> strchr (l @ 0 # r) 10 = Absent"
  "plain l \<Longrightarrow> strchr l 10 = Overrun"
  by (induction l) (auto simp: plain_def)

text \<open>What the inner loop leaves of the lines: the newlines of those that do not match are gone.\<close>

definition marked :: "u8 list \<Rightarrow> u8 list list \<Rightarrow> u8 list" where
  "marked pat ls = concat (map (\<lambda>l. l @ [if match pat l then 10 else 0]) ls)"

lemma marked_simps [simp]: "marked pat [] = []" "marked pat (l # ls) = l @ (if match pat l then 10 else 0) # marked pat ls"
  by (simp_all add: marked_def)

lemma grep_lines_out:
  assumes "list_all plain ls" "plain rest"
  shows "grep_lines pat (pre @ unlines ls @ rest @ 0 # zs) (length pre) =
    Some (pre @ marked pat ls @ rest @ 0 # zs, length pre + length (unlines ls), unlines (filter (match pat) ls))"
  using assms(1)
proof (induction ls arbitrary: pre)
  case Nil
  then show ?case using strchr_plain(2)[OF assms(2)] by (subst grep_lines.simps) simp
next
  case (Cons l ls)
  define b where "b = (if match pat l then 10 else 0 :: u8)"
  have "grep_lines pat ((pre @ l @ [b]) @ unlines ls @ rest @ 0 # zs) (length (pre @ l @ [b])) =
      Some ((pre @ l @ [b]) @ marked pat ls @ rest @ 0 # zs, length (pre @ l @ [b]) + length (unlines ls), unlines (filter (match pat) ls))"
    using Cons.IH[of "pre @ l @ [b]"] Cons.prems by simp
  then show ?case using Cons.prems strchr_plain(1)[of l "unlines ls @ rest @ 0 # zs"]
    by (subst grep_lines.simps) (auto simp: list_update_append b_def Let_def)
qed



lemma strchr_no_zero: "0 \<notin> set xs \<Longrightarrow> strchr xs c \<noteq> Absent"
  by (induction xs) (auto split: found.splits)

lemma grep_lines_overrun: "0 \<notin> set (drop p buf) \<Longrightarrow> grep_lines pat buf p = None"
proof (induction pat buf p rule: grep_lines.induct)
  case (1 pat buf p)
  show ?case
  proof (cases "strchr (drop p buf) 10")
    case (At i)
    define b where "b = (if match pat (take i (drop p buf)) then 10 else 0 :: u8)"
    have "drop (p + i + 1) (buf[p + i := b]) = drop (i + 1) (drop p buf)" by (simp add: add.commute)
    then have "0 \<notin> set (drop (p + i + 1) (buf[p + i := b]))" using 1(2) by (metis in_set_dropD)
    then have "grep_lines pat (buf[p + i := b]) (p + i + 1) = None" using 1(1)[OF At refl refl refl] by (simp add: b_def)
    then show ?thesis using At by (subst grep_lines.simps) (simp add: b_def Let_def)
  next
    case Absent
    then show ?thesis using strchr_no_zero[OF 1(2)] by simp
  next
    case Overrun
    then show ?thesis by (subst grep_lines.simps) simp
  qed
qed

text \<open>
  A read that fills the buffer, without a zero byte in it, makes \<open>grep\<close> search for a newline past the end of the buffer.
\<close>

theorem grep_full_buffer_overruns:
  assumes "length r = 1024" and "0 \<notin> set r"
  shows "grep pat (r # rs) = None"
  using assms grep_lines_overrun[of 0 r pat] by (auto simp: grep_def)

theorem grep_full_buffer_overruns_witness: "grep [98] [replicate 1024 97] = None"
  using grep_full_buffer_overruns[of "replicate 1024 97" "[98]" "[]"] by simp

text \<open>A newline that a longer read has left behind the end of a shorter one brings its line back, and the fill count below zero.\<close>

lemma grep_stale_line:
  "grep [98] [[98, 10, 98, 98, 10, 99], [10]] = Some [98, 10, 98, 98, 10, 98, 98, 10]"
  "grep [98] [[98, 10, 98, 98, 10, 99], [10], [100]] = None"
proof -
  define zs where "zs = replicate 1017 (0 :: u8)"
  have b: "replicate 1018 (0 :: u8) = 0 # zs" unfolding zs_def by (subst replicate_Suc[symmetric]) simp
  show "grep [98] [[98, 10, 98, 98, 10, 99], [10]] = Some [98, 10, 98, 98, 10, 98, 98, 10]"
    "grep [98] [[98, 10, 98, 98, 10, 99], [10], [100]] = None"
    using grep_lines_out[of "[[98], [98, 98]]" "[99]" "[98]" "[]" zs] grep_lines_out[of "[[99], [98, 98]]" "[99]" "[98]" "[]" zs]
    by (simp_all add: grep_def Let_def b plain_def match_def matchhere_one admits_def)
qed

end
