(* ===== verification/Ulib.thy ===== *)
theory Ulib
  imports Console Strings
begin

text \<open>
  The user library: the string functions of \<^verbatim>\<open>ulib.c\<close>, on the byte memory of the process, and \<open>printf\<close> of
  \<^verbatim>\<open>printf.c\<close> with its inverse \<open>atoi\<close>. The lemmas on printed numbers hold for the kernel's \<open>cprintf\<close> as well.
\<close>

section \<open>Strings\<close>

partial_function (option) ustrcpy :: "memory \<Rightarrow> u32 \<Rightarrow> u32 \<Rightarrow> memory option" where
  "ustrcpy m s t =
     (if m t \<noteq> 0 then ustrcpy (m(s := m t)) (s + 1) (t + 1) else Some (m(s := m t)))"

partial_function (option) ustrcmp :: "(nat \<Rightarrow> u8) \<Rightarrow> (nat \<Rightarrow> u8) \<Rightarrow> nat \<Rightarrow> int option" where
  "ustrcmp p q i = (if p i \<noteq> 0 \<and> p i = q i then ustrcmp p q (Suc i) else Some (uint (p i) - uint (q i)))"

partial_function (option) ustrlen :: "(nat \<Rightarrow> u8) \<Rightarrow> nat \<Rightarrow> nat option" where
  "ustrlen s n = (if s n \<noteq> 0 then ustrlen s (Suc n) else Some n)"

definition umemset :: "memory \<Rightarrow> u32 \<Rightarrow> u32 \<Rightarrow> u32 \<Rightarrow> memory" where
  "umemset m dst c n = stosb m dst (ucast c) (unat n)"

fun umemmove_loop :: "memory \<Rightarrow> u32 \<Rightarrow> u32 \<Rightarrow> nat \<Rightarrow> memory" where
  "umemmove_loop m dst src 0 = m"
| "umemmove_loop m dst src (Suc n) = umemmove_loop (m(dst := m src)) (dst + 1) (src + 1) n"

definition umemmove :: "memory \<Rightarrow> u32 \<Rightarrow> u32 \<Rightarrow> u32 \<Rightarrow> memory" where
  "umemmove m dst src n = umemmove_loop m dst src (nat (sint n))"

text \<open>\<open>gets\<close>, with the bytes that its reads return one by one; the bytes it stores, and what is left to read.\<close>

fun ugets_loop :: "nat \<Rightarrow> u8 list \<Rightarrow> u8 list \<times> u8 list" where
  "ugets_loop 0 inp = ([], inp)"
| "ugets_loop (Suc n) [] = ([], [])"
| "ugets_loop (Suc n) (c # inp) =
     (if c = 10 \<or> c = 13 then ([c], inp)
      else let (b, rest) = ugets_loop n inp in (c # b, rest))"

definition ugets :: "int \<Rightarrow> u8 list \<Rightarrow> u8 list \<times> u8 list" where
  "ugets mx inp = (let (b, rest) = ugets_loop (nat (mx - 1)) inp in (b @ [0], rest))"

fun atoi_loop :: "u8 list \<Rightarrow> u32 \<Rightarrow> u32" where
  "atoi_loop [] n = n"
| "atoi_loop (c # s) n = (if 48 \<le> c \<and> c \<le> 57 then atoi_loop s (n * 10 + ucast c - 48) else n)"

definition atoi :: "u8 list \<Rightarrow> u32" where
  "atoi s = atoi_loop s 0"

section \<open>Formatted output\<close>

definition udigit :: "nat \<Rightarrow> u8" where
  "udigit d = (if d < 10 then 48 + of_nat d else 55 + of_nat d)"

fun uprintint_loop :: "nat \<Rightarrow> nat \<Rightarrow> nat \<Rightarrow> u8 list option" where
  "uprintint_loop 0 b x = None"
| "uprintint_loop (Suc room) b x =
     (if x div b = 0 then Some [udigit (x mod b)]
      else map_option (\<lambda>ds. udigit (x mod b) # ds) (uprintint_loop room b (x div b)))"

text \<open>The bytes that \<open>printint\<close> writes; \<open>None\<close> when they overrun its array of 16.\<close>

definition uprintint :: "u32 \<Rightarrow> nat \<Rightarrow> bool \<Rightarrow> u8 list option" where
  "uprintint xx b sign =
     (let neg = sign \<and> sint xx < 0;
          x = if neg then - xx else xx
      in case uprintint_loop 16 b (unat x) of
           None \<Rightarrow> None
         | Some buf \<Rightarrow> if neg then (if length buf < 16 then Some (rev (buf @ [45])) else None) else Some (rev buf))"

text \<open>
  The bytes that \<open>printf\<close> writes, where \<open>state\<close> tells whether the last character was a \<open>%\<close>; \<open>None\<close> when the arguments
  do not fit the format.
\<close>

fun printf_chars :: "bool \<Rightarrow> u8 list \<Rightarrow> carg list \<Rightarrow> u8 list option" where
  "printf_chars state [] args = Some []"
| "printf_chars False (c # fmt) args =
     (if c = 37 then printf_chars True fmt args
      else map_option ((#) c) (printf_chars False fmt args))"
| "printf_chars True (c # fmt) args =
     (if c = 100 then
        (case args of
           CInt x # args' \<Rightarrow> (case uprintint x 10 True of None \<Rightarrow> None | Some a \<Rightarrow> map_option ((@) a) (printf_chars False fmt args'))
         | _ \<Rightarrow> None)
      else if c = 120 \<or> c = 112 then
        (case args of
           CInt x # args' \<Rightarrow> (case uprintint x 16 False of None \<Rightarrow> None | Some a \<Rightarrow> map_option ((@) a) (printf_chars False fmt args'))
         | _ \<Rightarrow> None)
      else if c = 115 then
        (case args of
           CStr x # args' \<Rightarrow> map_option ((@) (case x of None \<Rightarrow> null_str | Some str \<Rightarrow> str)) (printf_chars False fmt args')
         | _ \<Rightarrow> None)
      else if c = 99 then
        (case args of
           CInt x # args' \<Rightarrow> map_option ((#) (ucast x)) (printf_chars False fmt args')
         | _ \<Rightarrow> None)
      else if c = 37 then map_option ((#) c) (printf_chars False fmt args)
      else map_option (\<lambda>b. 37 # c # b) (printf_chars False fmt args))"

definition printf :: "u8 list \<Rightarrow> carg list \<Rightarrow> u8 list option" where
  "printf fmt args = printf_chars False fmt args"

section \<open>Printed numbers\<close>

lemma atoi_digit:
  assumes "d < 10"
  shows "atoi_loop ((48 + of_nat d) # s) n = atoi_loop s (n * 10 + of_nat d)"
proof -
  have "d \<in> {0, 1, 2, 3, 4, 5, 6, 7, 8, 9}" using assms by auto
  then have "48 \<le> (48 + of_nat d :: u8)" "(48 + of_nat d :: u8) \<le> 57" "ucast (48 + of_nat d :: u8) = (48 + of_nat d :: u32)" by auto
  then show ?thesis by simp
qed

text \<open>What a loop that puts digits into a small array promises, and what \<open>atoi\<close> makes of them.\<close>

locale digit_loop =
  fixes dig :: "nat \<Rightarrow> u8" and loop :: "nat \<Rightarrow> nat \<Rightarrow> nat \<Rightarrow> u8 list option"
  assumes dig: "d < 10 \<Longrightarrow> dig d = 48 + of_nat d"
    and loop_Suc: "loop (Suc room) b x =
      (if x div b = 0 then Some [dig (x mod b)] else map_option (\<lambda>ds. dig (x mod b) # ds) (loop room b (x div b)))"
begin

lemma loop_decimal:
  assumes "x < 10 ^ k" "0 < k" "k \<le> room"
  shows "\<exists>ds. loop room 10 x = Some ds \<and> length ds \<le> k \<and> (\<forall>s. atoi_loop (rev ds @ s) 0 = atoi_loop s (of_nat x))"
  using assms
proof (induction k arbitrary: room x)
  case (Suc k)
  obtain r where r: "room = Suc r" using Suc.prems(3) by (cases room) auto
  note d = dig[of "x mod 10"] atoi_digit[of "x mod 10"]
  show ?case
  proof (cases "x < 10")
    case True
    then show ?thesis using r d by (simp add: loop_Suc del: atoi_loop.simps(2))
  next
    case False
    then have "x div 10 < 10 ^ k" "0 < k" using Suc.prems(1) by (cases k; simp)+
    then obtain ds where ds: "loop r 10 (x div 10) = Some ds" "length ds \<le> k"
      "\<And>s. atoi_loop (rev ds @ s) 0 = atoi_loop s (of_nat (x div 10))"
      using Suc.IH[of "x div 10" r] Suc.prems(3) r by auto
    have "of_nat (x div 10) * 10 + of_nat (x mod 10) = (of_nat x :: u32)"
      by (metis div_mult_mod_eq of_nat_add of_nat_mult of_nat_numeral)
    moreover have "x div 10 \<noteq> 0" using False by (simp add: div_eq_0_iff)
    ultimately show ?thesis using ds r d by (simp add: loop_Suc del: atoi_loop.simps(2))
  qed
qed simp

text \<open>A signed number as \<open>%d\<close> shows it.\<close>

lemma loop_signed:
  "\<exists>ds. loop 16 10 (unat x) = Some ds \<and> length ds < 16 \<and> atoi (rev ds) = x"
proof -
  have "unat x < 10 ^ 10" using unat_lt32[of x] by simp
  from loop_decimal[OF this, of 16] obtain ds where "loop 16 10 (unat x) = Some ds" "length ds \<le> 10"
    "\<And>s. atoi_loop (rev ds @ s) 0 = atoi_loop s (of_nat (unat x))" by auto
  from this(1,2) this(3)[of "[]"] show ?thesis by (auto simp: atoi_def)
qed

end

interpretation kernel_digits: digit_loop digit printint_loop
  by unfold_locales (simp_all add: digit_def)

interpretation user_digits: digit_loop udigit uprintint_loop
  by unfold_locales (simp_all add: udigit_def)

lemma same_digits: "printint_loop room 10 x = uprintint_loop room 10 x"
  by (induction room arbitrary: x) (simp_all add: digit_def udigit_def div_eq_0_iff)


section \<open>Copying a string\<close>

text \<open>
  \<open>strcpy\<close> returns whenever the source is a terminated string that the destination does not overlap, and has then copied it with its
  terminator and changed nothing else.
\<close>

theorem ustrcpy_copies:
  assumes "mrd m t (Suc (length cs)) = cs @ [0]" and "0 \<notin> set cs"
    and "\<forall>i \<le> length cs. \<forall>j \<le> length cs. s + of_nat i \<noteq> t + of_nat j"
  shows "ustrcpy m s t = Some (mwr m s (cs @ [0]))"
  using assms
proof (induction cs arbitrary: m s t)
  case Nil
  then have "m t = 0" by (simp add: mrd_Suc)
  then show ?case by (subst ustrcpy.simps) simp
next
  case (Cons c cs)
  let ?m = "m(s := c)"
  have m: "m t = c" "mrd m (t + 1) (Suc (length cs)) = cs @ [0]" using Cons.prems(1) mrd_Suc[of m t "Suc (length cs)"] by simp_all
  have far: "s + of_nat i \<noteq> t + of_nat j" if "i \<le> Suc (length cs)" "j \<le> Suc (length cs)" for i j
    using Cons.prems(3) that by simp
  have "mrd ?m (t + 1) (Suc (length cs)) = mrd m (t + 1) (Suc (length cs))"
  proof (rule mrd_cong)
    fix j assume "j < Suc (length cs)"
    then show "?m (t + 1 + of_nat j) = m (t + 1 + of_nat j)" using far[of 0 "Suc j"] by (simp add: ac_simps)
  qed
  moreover have "\<forall>i \<le> length cs. \<forall>j \<le> length cs. s + 1 + of_nat i \<noteq> t + 1 + of_nat j"
    using far[of "Suc _" "Suc _"] by (simp add: ac_simps)
  ultimately have "ustrcpy ?m (s + 1) (t + 1) = Some (mwr ?m (s + 1) (cs @ [0]))" using Cons.prems(2) m(2) by (intro Cons.IH) (simp_all del: fun_upd_apply)
  then show ?case using m(1) Cons.prems(2) by (subst ustrcpy.simps) simp
qed

theorem ustrcpy_copies_witness:
  "(\<exists>m'. ustrcpy (mwr (\<lambda>_. 0) 64 [104, 105]) 128 64 = Some m' \<and> m' 128 = 104 \<and> m' 129 = 105 \<and> m' 130 = 0)"
proof -
  have "mrd (mwr (\<lambda>_. 0) 64 [104, 105]) 64 (Suc (length [104, 105])) = [104, 105] @ [0]" by (simp add: mrd_Suc mrd_def[of _ _ 0])
  moreover have "\<forall>i \<le> length [104, 105 :: u8]. \<forall>j \<le> length [104, 105 :: u8]. 128 + of_nat i \<noteq> (64 + of_nat j :: u32)"
    by (auto simp: le_Suc_eq)
  ultimately show ?thesis using ustrcpy_copies[of "mwr (\<lambda>_. 0) 64 [104, 105]" 64 "[104, 105]" 128] by simp
qed

text \<open>Unlike its namesake in the kernel, \<open>memmove\<close> copies only upwards: it repeats the first byte when it moves bytes up by one.\<close>

lemma umemmove_overlap:
  "mrd (umemmove (mwr (\<lambda>_. 0) 64 [1, 2, 3]) 65 64 2) 64 3 = [1, 1, 1]"
  "mrd (memmove (mwr (\<lambda>_. 0) 64 [1, 2, 3]) 65 64 2) 64 3 = [1, 1, 2]"
proof -
  have r: "mrd m a 3 = [m a, m (a + 1), m (a + 2)]" for m a by (simp add: mrd_def eval_nat_numeral upt_conv_Cons)
  have n: "nat (sint (2 :: u32)) = Suc (Suc 0)" "unat (2 :: u32) = Suc (Suc 0)" by simp_all
  show "mrd (umemmove (mwr (\<lambda>_. 0) 64 [1, 2, 3]) 65 64 2) 64 3 = [1, 1, 1]" "mrd (memmove (mwr (\<lambda>_. 0) 64 [1, 2, 3]) 65 64 2) 64 3 = [1, 1, 2]"
    unfolding umemmove_def memmove_def n r by simp_all
qed

end
