(* ===== verification/Umalloc.thy ===== *)
theory Umalloc
  imports Params
begin

text \<open>
  The memory allocator of user programs, \<^verbatim>\<open>umalloc.c\<close>: a circular list of free blocks, each with a header of 8
  bytes in front, that starts at the static header \<open>base\<close>. The kernel's answer to \<open>sbrk\<close> is an argument: whether it grants
  so many bytes at the current break. Searches that need not end return an option.
\<close>

section \<open>The allocator\<close>

record header =
  h_ptr :: u32
  h_size :: u32

record umst =
  hdr :: "u32 \<Rightarrow> header"
  base :: u32
  freep :: u32
  ubrk :: u32

partial_function (option) free_find :: "(u32 \<Rightarrow> header) \<Rightarrow> u32 \<Rightarrow> u32 \<Rightarrow> u32 option" where
  "free_find h bp p =
     (if bp > p \<and> bp < h_ptr (h p) then Some p
      else if p \<ge> h_ptr (h p) \<and> (bp > p \<or> bp < h_ptr (h p)) then Some p
      else free_find h bp (h_ptr (h p)))"

definition join_right :: "(u32 \<Rightarrow> header) \<Rightarrow> u32 \<Rightarrow> u32 \<Rightarrow> u32 \<Rightarrow> header" where
  "join_right h bp nx =
     (if bp + 8 * h_size (h bp) = nx
      then h(bp := \<lparr>h_ptr = h_ptr (h nx), h_size = h_size (h bp) + h_size (h nx)\<rparr>)
      else h(bp := (h bp)\<lparr>h_ptr := nx\<rparr>))"

definition join_left :: "(u32 \<Rightarrow> header) \<Rightarrow> u32 \<Rightarrow> u32 \<Rightarrow> u32 \<Rightarrow> header" where
  "join_left h bp p =
     (if p + 8 * h_size (h p) = bp
      then h(p := \<lparr>h_ptr = h_ptr (h bp), h_size = h_size (h p) + h_size (h bp)\<rparr>)
      else h(p := (h p)\<lparr>h_ptr := bp\<rparr>))"

definition ufree :: "u32 \<Rightarrow> umst \<Rightarrow> umst option" where
  "ufree ap s =
     (let bp = ap - 8 in
      case free_find (hdr s) bp (freep s) of
        None \<Rightarrow> None
      | Some p \<Rightarrow> Some (s\<lparr>hdr := join_left (join_right (hdr s) bp (h_ptr (hdr s p))) bp p, freep := p\<rparr>))"

definition morecore :: "(u32 \<Rightarrow> u32 \<Rightarrow> bool) \<Rightarrow> u32 \<Rightarrow> umst \<Rightarrow> (u32 \<times> umst) option" where
  "morecore sbrk nu s =
     (let nu = if nu < 4096 then 4096 else nu; hp = ubrk s in
      if \<not> sbrk hp (nu * 8) then Some (0, s)
      else map_option (\<lambda>s. (freep s, s))
        (ufree (hp + 8) (s\<lparr>ubrk := hp + nu * 8, hdr := (hdr s)(hp := (hdr s hp)\<lparr>h_size := nu\<rparr>)\<rparr>)))"

definition take_block :: "u32 \<Rightarrow> u32 \<Rightarrow> u32 \<Rightarrow> umst \<Rightarrow> u32 \<times> umst" where
  "take_block nunits prevp p s =
     (let h = hdr s in
      if h_size (h p) = nunits
      then (p + 8, s\<lparr>hdr := h(prevp := (h prevp)\<lparr>h_ptr := h_ptr (h p)\<rparr>), freep := prevp\<rparr>)
      else
        let h1 = h(p := (h p)\<lparr>h_size := h_size (h p) - nunits\<rparr>);
            q = p + 8 * h_size (h1 p)
        in (q + 8, s\<lparr>hdr := h1(q := (h1 q)\<lparr>h_size := nunits\<rparr>), freep := prevp\<rparr>))"

partial_function (option) malloc_loop :: "(u32 \<Rightarrow> u32 \<Rightarrow> bool) \<Rightarrow> u32 \<Rightarrow> u32 \<Rightarrow> u32 \<Rightarrow> umst \<Rightarrow> (u32 \<times> umst) option" where
  "malloc_loop sbrk nunits prevp p s =
     (if h_size (hdr s p) \<ge> nunits then Some (take_block nunits prevp p s)
      else if p = freep s
      then case morecore sbrk nunits s of
             None \<Rightarrow> None
           | Some (q, t) \<Rightarrow> if q = 0 then Some (0, t) else malloc_loop sbrk nunits q (h_ptr (hdr t q)) t
      else malloc_loop sbrk nunits p (h_ptr (hdr s p)) s)"

definition malloc_init :: "umst \<Rightarrow> umst" where
  "malloc_init s = (if freep s = 0 then s\<lparr>hdr := (hdr s)(base s := \<lparr>h_ptr = base s, h_size = 0\<rparr>), freep := base s\<rparr> else s)"

definition malloc :: "(u32 \<Rightarrow> u32 \<Rightarrow> bool) \<Rightarrow> u32 \<Rightarrow> umst \<Rightarrow> (u32 \<times> umst) option" where
  "malloc sbrk nbytes s =
     (let nunits = (nbytes + 8 - 1) div 8 + 1;
          s = malloc_init s
      in malloc_loop sbrk nunits (freep s) (h_ptr (hdr s (freep s))) s)"

section \<open>The list of free blocks\<close>

type_synonym blocks = "(u32 \<times> nat) list"

text \<open>From the header \<open>p\<close> on the pointers lead through the blocks of the list, and after the last to \<open>z\<close>.\<close>

fun linked :: "(u32 \<Rightarrow> header) \<Rightarrow> u32 \<Rightarrow> blocks \<Rightarrow> u32 \<Rightarrow> bool" where
  "linked h p [] z \<longleftrightarrow> h_ptr (h p) = z"
| "linked h p ((a, n) # fs) z \<longleftrightarrow> h_ptr (h p) = a \<and> unat (h_size (h a)) = n \<and> linked h a fs z"

text \<open>The blocks lie between \<open>lo\<close> and \<open>hi\<close>, in the order of their addresses, with a gap in front of each.\<close>

fun spaced :: "nat \<Rightarrow> blocks \<Rightarrow> nat \<Rightarrow> bool" where
  "spaced lo [] hi \<longleftrightarrow> lo \<le> hi"
| "spaced lo ((a, n) # fs) hi \<longleftrightarrow> lo < unat a \<and> 0 < n \<and> spaced (unat a + 8 * n) fs hi"

definition bytes :: "blocks \<Rightarrow> nat set" where
  "bytes fs = (\<Union>(a, n) \<in> set fs. {unat a ..< unat a + 8 * n})"

definition um_ok :: "blocks \<Rightarrow> umst \<Rightarrow> bool" where
  "um_ok fs s \<longleftrightarrow> spaced (unat (base s)) fs (unat (ubrk s)) \<and> linked (hdr s) (base s) fs (base s) \<and>
     h_size (hdr s (base s)) = 0 \<and> freep s \<in> set (base s # map fst fs) \<and> base s \<noteq> 0 \<and> base s < ubrk s"

abbreviation final :: "u32 \<Rightarrow> blocks \<Rightarrow> u32" where
  "final p fs \<equiv> last (p # map fst fs)"

fun end_of :: "nat \<Rightarrow> blocks \<Rightarrow> nat" where
  "end_of lo [] = lo"
| "end_of lo ((a, n) # fs) = end_of (unat a + 8 * n) fs"

lemma linked_append: "linked h p (xs @ (a, n) # ys) z \<longleftrightarrow> linked h p xs a \<and> unat (h_size (h a)) = n \<and> linked h a ys z"
  by (induction xs arbitrary: p) auto

lemma spaced_le: "spaced lo fs hi \<Longrightarrow> lo \<le> hi"
  by (induction lo fs hi rule: spaced.induct) auto

lemma spaced_mono: "spaced lo fs hi \<Longrightarrow> lo' \<le> lo \<Longrightarrow> hi \<le> hi' \<Longrightarrow> spaced lo' fs hi'"
  by (induction fs arbitrary: lo lo') auto

lemma spaced_append: "spaced lo (xs @ ys) hi \<longleftrightarrow> spaced lo xs (end_of lo xs) \<and> spaced (end_of lo xs) ys hi"
  by (induction xs arbitrary: lo) auto

lemma end_of_append: "end_of lo (xs @ (a, n) # ys) = end_of (unat a + 8 * n) ys"
  by (induction xs arbitrary: lo) auto

lemma spaced_from: "spaced lo (xs @ (a, n) # ys) hi \<Longrightarrow> spaced (unat a) ys hi"
  by (auto simp: spaced_append elim: spaced_mono)

lemma linked_cong:
  assumes "linked h p xs z" "\<And>x. x \<in> set (p # map fst xs) \<Longrightarrow> h' x = h x"
  shows "linked h' p xs z"
  using assms by (induction xs arbitrary: p) auto

lemma linked_head:
  assumes "linked h p xs z" "h_ptr (h' q) = h_ptr (h p)" "\<And>x. x \<in> set (map fst xs) \<Longrightarrow> h' x = h x"
  shows "linked h' q xs z"
  using assms linked_cong[of h _ "tl xs" z h'] by (cases xs) auto

lemma linked_final: "linked h p xs z \<Longrightarrow> h_ptr (h (final p xs)) = z"
  by (induction xs arbitrary: p) auto

lemma final_in: "final p xs \<in> set (p # map fst xs)"
  by (rule last_in_set) simp

lemma linked_prefix: "linked h p (xs @ ys) z \<Longrightarrow> linked h p xs (h_ptr (h (final p xs)))"
  by (induction xs arbitrary: p) auto

lemma linked_set_final:
  assumes "linked h p xs z" "distinct (p # map fst xs)" "h_size x = h_size (h (final p xs))" "h_ptr x = z'"
  shows "linked (h(final p xs := x)) p xs z'"
  using assms
proof (induction xs arbitrary: p)
  case (Cons y xs)
  obtain a n where y: "y = (a, n)" by (cases y)
  have "final a xs \<in> set (a # map fst xs)" by (rule last_in_set) simp
  moreover have "p \<notin> set (a # map fst xs)" using Cons.prems(2) y by simp
  ultimately have "final a xs \<noteq> p" by metis
  then show ?case using Cons y by (cases xs) auto
qed simp

lemma spaced_bounds_aux: "spaced lo fs hi \<Longrightarrow> \<forall>(a, n) \<in> set fs. lo < unat a \<and> 0 < n \<and> unat a + 8 * n \<le> hi"
  by (induction lo fs hi rule: spaced.induct) (auto dest: spaced_le)

lemma spaced_bounds:
  assumes "spaced lo fs hi" "(a, n) \<in> set fs"
  shows "lo < unat a" "0 < n" "unat a + 8 * n \<le> hi"
  using spaced_bounds_aux[OF assms(1)] assms(2) by auto

lemma spaced_distinct: "spaced lo fs hi \<Longrightarrow> distinct (map fst fs)"
  by (induction lo fs hi rule: spaced.induct) (auto dest: spaced_bounds(1))

text \<open>The search of \<open>free\<close> for the place of \<open>b\<close>: through the blocks above it, and then to the last one below it.\<close>

lemma free_find_above:
  assumes "linked h p fs z" "spaced (unat p) fs hi" "b < p" "z < b"
  shows "free_find h b p = free_find h b z"
  using assms
proof (induction fs arbitrary: p)
  case Nil
  then have "h_ptr (h p) = z" "\<not> p < b" "\<not> b < z" by auto
  then show ?case by (subst free_find.simps) simp
next
  case (Cons y fs)
  obtain a n where y: "y = (a, n)" by (cases y)
  have a: "p < a" "spaced (unat a) fs hi" "h_ptr (h p) = a" "linked h a fs z"
    using Cons.prems(1,2) y by (auto simp: word_less_nat_alt elim: spaced_mono)
  have "\<not> p < b" "\<not> a \<le> p" "b < a" using a(1) Cons.prems(3) by auto
  then have "free_find h b p = free_find h b a" using a(3) by (subst free_find.simps) simp
  then show ?case using Cons.IH[OF a(4,2) \<open>b < a\<close> Cons.prems(4)] by simp
qed

lemma free_find_below:
  assumes "linked h p (xs @ ys) z" "spaced (unat p) (xs @ ys) hi" "p < b" "z \<le> p" "\<forall>x \<in> set (map fst xs). x < b" "\<forall>y \<in> set (map fst ys). b < y"
  shows "free_find h b p = Some (final p xs)"
  using assms
proof (induction xs arbitrary: p)
  case Nil
  show ?case
  proof (cases ys)
    case Nil
    then have "h_ptr (h p) = z" using Nil.prems(1) by simp
    then show ?thesis using Nil.prems(3,4) by (subst free_find.simps) simp
  next
    case (Cons y ys')
    then have "h_ptr (h p) = fst y" "b < fst y" using Nil.prems(1,6) by (cases y, simp)+
    then show ?thesis using Nil.prems(3) by (subst free_find.simps) simp
  qed
next
  case (Cons y xs)
  obtain a n where y: "y = (a, n)" by (cases y)
  have a: "p < a" "spaced (unat a) (xs @ ys) hi" "h_ptr (h p) = a" "linked h a (xs @ ys) z" "a < b" "\<forall>x \<in> set (map fst xs). x < b"
    using Cons.prems(1,2,5) y by (auto simp: word_less_nat_alt elim: spaced_mono)
  have "\<not> b < a" "\<not> a \<le> p" "z \<le> a" using a(1,5) Cons.prems(4) by auto
  then have "free_find h b p = free_find h b a" using a(3) by (subst free_find.simps) simp
  then show ?case using Cons.IH[OF a(4,2,5) \<open>z \<le> a\<close> a(6) Cons.prems(6)] y by simp
qed

lemma free_find_ok:
  assumes "linked h z (xs @ ys) z" "spaced (unat z) (xs @ ys) hi" "z < b" "\<forall>x \<in> set (map fst xs). x < b" "\<forall>y \<in> set (map fst ys). b < y"
    "q \<in> set (z # map fst (xs @ ys))"
  shows "free_find h b q = Some (final z xs)"
proof -
  note zb = free_find_below[OF assms(1-3) order_refl assms(4,5)]
  consider "q = z" | x1 n x2 where "xs = x1 @ (q, n) # x2" | y1 n y2 where "ys = y1 @ (q, n) # y2"
    using assms(6) by (auto dest!: split_list)
  then show ?thesis
  proof cases
    case 2
    then have l: "linked h q (x2 @ ys) z" "spaced (unat q) (x2 @ ys) hi" "q < b" "z \<le> q" "\<forall>x \<in> set (map fst x2). x < b"
      using assms(1,2,4) spaced_bounds(1)[OF assms(2), of q n] spaced_from[of "unat z" x1 q n "x2 @ ys" hi]
      by (auto simp: linked_append word_le_nat_alt)
    show ?thesis using free_find_below[OF l assms(5)] 2 by simp
  next
    case 3
    then have "linked h q y2 z" "spaced (unat q) y2 hi" "b < q"
      using assms(1,2,5) linked_append[of h z "xs @ y1" q n y2 z] spaced_from[of "unat z" "xs @ y1" q n y2 hi] by auto
    then show ?thesis using free_find_above[of h q y2 z hi b] assms(3) zb by simp
  qed (use zb in simp)
qed

section \<open>Freeing a block\<close>

lemma bytes_simps [simp]: "bytes [] = {}" "bytes ((a, n) # fs) = {unat a ..< unat a + 8 * n} \<union> bytes fs" "bytes (xs @ ys) = bytes xs \<union> bytes ys"
  by (auto simp: bytes_def)

lemma split_at:
  assumes "spaced lo fs hi" "lo \<le> unat b" "0 < n" "{unat b ..< unat b + 8 * n} \<inter> bytes fs = {}"
  shows "\<exists>xs ys. fs = xs @ ys \<and> end_of lo xs \<le> unat b \<and> (\<forall>x \<in> set (map fst xs). x < b) \<and> (\<forall>y \<in> set (map fst ys). unat b + 8 * n \<le> unat y)"
  using assms
proof (induction fs arbitrary: lo)
  case (Cons y fs)
  obtain a m where y: "y = (a, m)" by (cases y)
  show ?case
  proof (cases "unat a \<le> unat b")
    case True
    have "unat a + 8 * m \<le> unat b"
    proof (rule ccontr)
      assume "\<not> unat a + 8 * m \<le> unat b"
      then have "unat b \<in> {unat b ..< unat b + 8 * n} \<inter> bytes (y # fs)" using True Cons.prems(3) y by simp
      then show False using Cons.prems(4) by simp
    qed
    then obtain xs ys where "fs = xs @ ys" "end_of (unat a + 8 * m) xs \<le> unat b" "\<forall>x \<in> set (map fst xs). x < b"
      "\<forall>y \<in> set (map fst ys). unat b + 8 * n \<le> unat y"
      using Cons.IH[of "unat a + 8 * m"] Cons.prems y by auto
    moreover have "a < b" using \<open>unat a + 8 * m \<le> unat b\<close> Cons.prems(1) y by (simp add: word_less_nat_alt)
    ultimately show ?thesis using y by - (rule exI[of _ "y # xs"], rule exI[of _ ys], auto)
  next
    case False
    have "unat b + 8 * n \<le> unat a"
    proof (rule ccontr)
      assume "\<not> unat b + 8 * n \<le> unat a"
      then have "unat a \<in> {unat b ..< unat b + 8 * n} \<inter> bytes (y # fs)" using False Cons.prems(1) y by auto
      then show False using Cons.prems(4) by simp
    qed
    moreover have "unat a \<le> unat (fst z)" if "z \<in> set (y # fs)" for z
      using that Cons.prems(1) y spaced_bounds(1)[of "unat a + 8 * m" fs hi "fst z" "snd z"] by auto
    ultimately show ?thesis using Cons.prems(2) y by - (rule exI[of _ "[]"], rule exI[of _ "y # fs"], auto intro: order_trans)
  qed
qed simp

lemma addr_end: "unat b + 8 * unat k < 2 ^ 32 \<Longrightarrow> unat (b + 8 * k) = unat b + 8 * unat k" for b k :: u32
  by (simp add: unat_word_ariths)

lemma size_sum: "unat j + unat k < 2 ^ 32 \<Longrightarrow> unat (j + k) = unat j + unat k" for j k :: u32
  by (simp add: unat_word_ariths)

text \<open>The block \<open>b\<close> of \<open>n\<close> units in front of the blocks \<open>ys\<close>, with the first of which it may be one block.\<close>

definition mid :: "u32 \<Rightarrow> nat \<Rightarrow> blocks \<Rightarrow> blocks" where
  "mid b n ys = (case ys of (c, m) # ys' \<Rightarrow> if unat b + 8 * n = unat c then (b, n + m) # ys' else (b, n) # ys | [] \<Rightarrow> [(b, n)])"

lemma mid_facts:
  assumes "spaced e ys hi" "0 < n" "\<forall>y \<in> set (map fst ys). unat b + 8 * n \<le> unat y" "unat b + 8 * n \<le> hi"
  shows "\<exists>k r. mid b n ys = (b, k) # r \<and> n \<le> k \<and> spaced (unat b + 8 * k) r hi \<and> bytes (mid b n ys) = {unat b ..< unat b + 8 * n} \<union> bytes ys \<and>
    set (map fst r) \<subseteq> set (map fst ys)"
proof (cases ys)
  case (Cons y ys')
  obtain c m where y: "y = (c, m)" by (cases y)
  show ?thesis using assms Cons y by (auto simp: mid_def algebra_simps elim: spaced_mono)
qed (use assms in \<open>simp add: mid_def\<close>)

lemma join_right_ok:
  fixes hi :: u32
  assumes "linked h z (xs @ ys) z" "spaced e ys (unat hi)" "unat b + 8 * n \<le> unat hi" "unat (h_size (h b)) = n"
    "\<forall>y \<in> set (map fst ys). unat b + 8 * n \<le> unat y" "0 < n" "z < b"
  shows "linked (join_right h b (h_ptr (h (final z xs)))) b (tl (mid b n ys)) z"
    "unat (h_size (join_right h b (h_ptr (h (final z xs))) b)) = snd (hd (mid b n ys))"
    "x \<noteq> b \<Longrightarrow> join_right h b (h_ptr (h (final z xs))) x = h x"
proof -
  have e: "unat (b + 8 * h_size (h b)) = unat b + 8 * n" using assms(3,4) unat_lt32[of hi] by (simp add: addr_end)
  show "x \<noteq> b \<Longrightarrow> join_right h b (h_ptr (h (final z xs))) x = h x" by (simp add: join_right_def)
  have b: "b \<notin> set (map fst ys)" using assms(5,6) by force
  have "linked (join_right h b (h_ptr (h (final z xs)))) b (tl (mid b n ys)) z \<and>
    unat (h_size (join_right h b (h_ptr (h (final z xs))) b)) = snd (hd (mid b n ys))"
  proof (cases ys)
    case Nil
    have "h_ptr (h (final z xs)) = z" using linked_final[of h z xs z] assms(1) Nil by simp
    moreover have "b + 8 * h_size (h b) \<noteq> z" using e assms(7) by (auto simp: word_less_nat_alt)
    ultimately show ?thesis using Nil assms(4) by (simp add: join_right_def mid_def)
  next
    case (Cons y ys')
    obtain c m where y: "y = (c, m)" by (cases y)
    have l: "h_ptr (h (final z xs)) = c" "unat (h_size (h c)) = m" "linked h c ys' z"
      using linked_final[of h z xs c] assms(1) Cons y by (auto simp: linked_append)
    have n: "c \<noteq> b" "b \<notin> set (map fst ys')" using b Cons y by auto
    show ?thesis
    proof (cases "unat b + 8 * n = unat c")
      case True
      have "unat c + 8 * m \<le> unat hi" using assms(2) Cons y spaced_bounds(3)[of e ys "unat hi" c m] by simp
      then have "unat (h_size (h b) + h_size (h c)) = n + m" using True l(2) assms(4) unat_lt32[of hi] by (simp add: size_sum)
      moreover have "b + 8 * h_size (h b) = c" using trans[OF e True] by (rule word_unat_eq_iff[THEN iffD2])
      moreover have "linked (h(b := x)) b ys' z" if "h_ptr x = h_ptr (h c)" for x
        by (rule linked_head[OF l(3)]) (use n that in auto)
      ultimately show ?thesis using True l Cons y by (simp add: join_right_def mid_def)
    next
      case False
      then have "b + 8 * h_size (h b) \<noteq> c" using e by auto
      moreover have "linked (h(b := x)) c ys' z" for x by (rule linked_cong[OF l(3)]) (use n in auto)
      ultimately show ?thesis using False l Cons y n assms(4) by (simp add: join_right_def mid_def)
    qed
  qed
  then show "linked (join_right h b (h_ptr (h (final z xs)))) b (tl (mid b n ys)) z"
    "unat (h_size (join_right h b (h_ptr (h (final z xs))) b)) = snd (hd (mid b n ys))" by auto
qed

lemma spaced_mem_less: "spaced lo fs hi \<Longrightarrow> x \<in> set (map fst fs) \<Longrightarrow> lo < unat x \<and> unat x < hi"
  using spaced_bounds[of lo fs hi x] by fastforce

lemma join_left_ok:
  fixes hi :: u32
  assumes l: "linked h z xs w" "linked h1 b r z" "unat (h_size (h1 b)) = k" "\<And>x. x \<noteq> b \<Longrightarrow> h1 x = h x" "h_size (h z) = 0"
    and s: "spaced (unat z) xs (end_of (unat z) xs)" "end_of (unat z) xs \<le> unat b" "spaced (unat b + 8 * k) r (unat hi)" "0 < k" "z < b"
  defines "h2 \<equiv> join_left h1 b (final z xs)"
  shows "\<exists>fs. linked h2 z fs z \<and> spaced (unat z) fs (unat hi) \<and> bytes fs = bytes xs \<union> {unat b ..< unat b + 8 * k} \<union> bytes r \<and>
    final z xs \<in> set (z # map fst fs) \<and> h_size (h2 z) = 0 \<and> (\<exists>(a, m) \<in> set fs. k \<le> m)"
proof -
  have r: "unat b + 8 * k < unat x" if "x \<in> set (map fst r)" for x using spaced_mem_less[OF s(3) that] by simp
  have zb: "unat z < unat b" "z \<noteq> b" using s(5) by (auto simp: word_less_nat_alt)
  show ?thesis
  proof (cases xs rule: rev_cases)
    case Nil
    have h2: "h2 = h1(z := (h z)\<lparr>h_ptr := b\<rparr>)" using Nil l(4)[of z] l(5) zb(2) by (simp add: h2_def join_left_def)
    have "linked h2 b r z" unfolding h2 by (rule linked_cong[OF l(2)]) (use r zb in force)
    then show ?thesis using Nil h2 l(3,5) s(3-5) zb by (intro exI[of _ "(b, k) # r"]) auto
  next
    case (snoc x0 y)
    obtain a m where y: "y = (a, m)" by (cases y)
    have p: "linked h z x0 a" "unat (h_size (h a)) = m" using l(1) snoc y by (auto simp: linked_append)
    have q: "spaced (unat z) x0 (end_of (unat z) x0)" "end_of (unat z) x0 < unat a" "0 < m" "unat a + 8 * m \<le> unat b"
      using s(1,2) snoc y by (auto simp: spaced_append end_of_append)
    have x0: "unat x < unat a" if "x \<in> set (z # map fst x0)" for x
      using that spaced_mem_less[OF q(1), of x] spaced_le[OF q(1)] q(2) by (cases "x = z") simp_all
    have hi: "unat b + 8 * k < 2 ^ 32" using spaced_le[OF s(3)] unat_lt32[of hi] by simp
    have ab: "a \<noteq> b" using q(3,4) by auto
    have fin: "final z xs = a" using snoc y by simp
    have out: "x \<noteq> a \<and> h1 x = h x" if "x \<in> set (z # map fst x0)" for x
    proof -
      have "x \<noteq> a" "x \<noteq> b" using x0[OF that] q(4) by auto
      then show ?thesis using l(4) by simp
    qed
    have ra: "x \<noteq> a" if "x \<in> set (b # map fst r)" for x using that r[of x] q(3,4) by (cases "x = b") auto
    have e: "unat (a + 8 * h_size (h a)) = unat a + 8 * m" using q(4) p(2) hi by (simp add: addr_end)
    show ?thesis
    proof (cases "unat a + 8 * m = unat b")
      case True
      have "a + 8 * h_size (h a) = b" using trans[OF e True] by (rule word_unat_eq_iff[THEN iffD2])
      then have h2: "h2 = h1(a := \<lparr>h_ptr = h_ptr (h1 b), h_size = h_size (h a) + h_size (h1 b)\<rparr>)"
        using ab l(4)[of a] fin by (simp add: h2_def join_left_def)
      have "unat (h_size (h a) + h_size (h1 b)) = m + k" using True hi p(2) l(3) by (simp add: size_sum)
      moreover have "linked h2 a r z" unfolding h2 by (rule linked_head[OF l(2)]) (simp, use ra in simp)
      moreover have "linked h2 z x0 a" unfolding h2 by (rule linked_cong[OF p(1)]) (use out in simp)
      moreover have "h_size (h2 z) = 0" unfolding h2 using out[of z] l(5) by simp
      moreover have "spaced (unat a + 8 * (m + k)) r (unat hi)" using s(3) unfolding True[symmetric] by (simp add: algebra_simps)
      moreover have "{unat a ..< unat a + 8 * (m + k)} = {unat a ..< unat a + 8 * m} \<union> {unat b ..< unat b + 8 * k}" using True by auto
      ultimately show ?thesis using q(1-3) fin snoc y h2
        by (intro exI[of _ "x0 @ (a, m + k) # r"]) (auto simp: linked_append spaced_append)
    next
      case False
      then have "a + 8 * h_size (h a) \<noteq> b" using e by auto
      then have h2: "h2 = h1(a := (h a)\<lparr>h_ptr := b\<rparr>)" using ab l(4)[of a] fin by (simp add: h2_def join_left_def)
      have "linked h2 b r z" unfolding h2 by (rule linked_cong[OF l(2)]) (use ra in simp)
      moreover have "linked h2 z x0 a" unfolding h2 by (rule linked_cong[OF p(1)]) (use out in simp)
      moreover have "h_size (h2 z) = 0" unfolding h2 using out[of z] l(5) by simp
      ultimately show ?thesis using q s(3,4) fin snoc y False h2 p(2) l(3) ab
        by (intro exI[of _ "x0 @ (a, m) # (b, k) # r"]) (auto simp: linked_append spaced_append)
    qed
  qed
qed

lemma node_in_bytes: "spaced lo fs hi \<Longrightarrow> x \<in> set (map fst fs) \<Longrightarrow> unat x \<in> bytes fs"
  using spaced_bounds(2)[of lo fs hi] by (fastforce simp: bytes_def)

lemma ufree_ok:
  assumes "um_ok fs s" "0 < n" "unat (h_size (hdr s b)) = n" "base s < b" "unat b + 8 * n \<le> unat (ubrk s)"
    "{unat b ..< unat b + 8 * n} \<inter> bytes fs = {}"
  shows "\<exists>fs' t. ufree (b + 8) s = Some t \<and> um_ok fs' t \<and> bytes fs' = bytes fs \<union> {unat b ..< unat b + 8 * n} \<and> ubrk t = ubrk s \<and>
    base t = base s \<and> (\<exists>(a, m) \<in> set fs'. n \<le> m) \<and>
    (\<forall>x. unat x \<notin> bytes fs' \<longrightarrow> x \<noteq> base s \<longrightarrow> hdr t x = hdr s x)"
proof -
  let ?z = "base s" and ?h = "hdr s"
  have ok: "spaced (unat ?z) fs (unat (ubrk s))" "linked ?h ?z fs ?z" "h_size (?h ?z) = 0" "freep s \<in> set (?z # map fst fs)" "?z \<noteq> 0" "?z < ubrk s"
    using assms(1) unfolding um_ok_def by blast+
  have lo: "unat ?z \<le> unat b" using assms(4) by (simp add: word_less_nat_alt)
  obtain xs ys where fs: "fs = xs @ ys" and xs: "end_of (unat ?z) xs \<le> unat b" "\<forall>x \<in> set (map fst xs). x < b"
    and ys: "\<forall>y \<in> set (map fst ys). unat b + 8 * n \<le> unat y"
    using split_at[OF ok(1) lo assms(2,6)] by blast
  have sp: "spaced (unat ?z) xs (end_of (unat ?z) xs)" "spaced (end_of (unat ?z) xs) ys (unat (ubrk s))"
    using ok(1) fs by (simp_all add: spaced_append)
  have yb: "\<forall>y \<in> set (map fst ys). b < y" using ys assms(2) by (force simp: word_less_nat_alt)
  have f: "free_find ?h b (freep s) = Some (final ?z xs)"
    using free_find_ok[of ?h ?z xs ys] ok fs xs(2) yb assms(4) by blast
  obtain k r where m: "mid b n ys = (b, k) # r" "n \<le> k" "spaced (unat b + 8 * k) r (unat (ubrk s))"
    "bytes (mid b n ys) = {unat b ..< unat b + 8 * n} \<union> bytes ys"
    using mid_facts[OF sp(2) assms(2) ys assms(5)] by blast
  let ?h1 = "join_right ?h b (h_ptr (?h (final ?z xs)))"
  note jr = join_right_ok[OF ok(2)[unfolded fs] sp(2) assms(5,3) ys assms(2,4)]
  have l1: "linked ?h ?z xs (h_ptr (?h (final ?z xs)))" using ok(2) fs linked_prefix by blast
  have "linked ?h1 b r ?z" "unat (h_size (?h1 b)) = k" "0 < k" using jr(1,2) m(1,2) assms(2) by simp_all
  from join_left_ok[OF l1 this(1,2) jr(3) ok(3) sp(1) xs(1) m(3) this(3) assms(4)]
  obtain fs' where fs': "linked (join_left ?h1 b (final ?z xs)) ?z fs' ?z" "spaced (unat ?z) fs' (unat (ubrk s))"
    "bytes fs' = bytes xs \<union> {unat b ..< unat b + 8 * k} \<union> bytes r" "final ?z xs \<in> set (?z # map fst fs')"
    "h_size (join_left ?h1 b (final ?z xs) ?z) = 0" "\<exists>(a, m) \<in> set fs'. k \<le> m" by blast
  have bts: "bytes fs' = bytes fs \<union> {unat b ..< unat b + 8 * n}" using fs'(3) m(1,4) fs by auto
  let ?t = "s\<lparr>hdr := join_left ?h1 b (final ?z xs), freep := final ?z xs\<rparr>"
  have "ufree (b + 8) s = Some ?t" using f by (simp add: ufree_def)
  moreover have "um_ok fs' ?t" using fs' ok(5,6) unfolding um_ok_def by simp
  moreover have "hdr ?t x = hdr s x" if "unat x \<notin> bytes fs'" "x \<noteq> ?z" for x
  proof -
    have "x \<noteq> b" using that(1) by (auto simp: bts assms(2))
    moreover have "x \<notin> set (?z # map fst fs')" using that node_in_bytes[OF fs'(2)] by (metis set_ConsD)
    then have "x \<noteq> final ?z xs" using fs'(4) by metis
    ultimately show ?thesis using jr(3) by (simp add: join_left_def)
  qed
  ultimately show ?thesis using bts fs'(6) m(2) by (intro exI[of _ fs'] exI[of _ ?t]) (auto intro: order_trans)
qed

section \<open>Searching the ring\<close>

text \<open>The ring as seen from the header \<open>q\<close>: it comes back to \<open>q\<close> after all the others.\<close>

lemma rotation:
  assumes "um_ok fs s" "q \<in> set (base s # map fst fs)"
  shows "\<exists>rot n. linked (hdr s) q (rot @ [(q, n)]) (h_ptr (hdr s q)) \<and> set (rot @ [(q, n)]) = insert (base s, 0) (set fs) \<and> q \<notin> set (map fst rot)"
proof -
  have ok: "spaced (unat (base s)) fs (unat (ubrk s))" "linked (hdr s) (base s) fs (base s)" "h_size (hdr s (base s)) = 0"
    using assms(1) unfolding um_ok_def by blast+
  have z: "base s \<notin> set (map fst fs)" using spaced_mem_less[OF ok(1)] by blast
  show ?thesis
  proof (cases "q = base s")
    case True
    then show ?thesis using ok z by (intro exI[of _ fs] exI[of _ 0]) (auto simp: linked_append)
  next
    case False
    then obtain n f1 f2 where fs: "fs = f1 @ (q, n) # f2" using assms(2) by (auto dest!: split_list)
    then have "q \<notin> set (map fst (f1 @ f2))" using spaced_distinct[OF ok(1)] by auto
    then show ?thesis using ok fs False
      by (intro exI[of _ "f2 @ (base s, 0) # f1"] exI[of _ n]) (auto simp: linked_append)
  qed
qed

lemma malloc_walk:
  assumes "linked (hdr s) p (xs @ (a, n) # ys) z" "\<forall>(x, m) \<in> set xs. m < unat nu" "freep s \<notin> set (map fst xs)" "unat nu \<le> n"
  shows "malloc_loop sbrk nu p (h_ptr (hdr s p)) s = Some (take_block nu (final p xs) a s)"
  using assms
proof (induction xs arbitrary: p)
  case Nil
  then show ?case by (subst malloc_loop.simps) (simp add: word_le_nat_alt)
next
  case (Cons y xs)
  obtain x m where y: "y = (x, m)" by (cases y)
  then have "h_ptr (hdr s p) = x" "\<not> nu \<le> h_size (hdr s x)" "x \<noteq> freep s" using Cons.prems by (auto simp: word_le_nat_alt)
  then have "malloc_loop sbrk nu p (h_ptr (hdr s p)) s = malloc_loop sbrk nu x (h_ptr (hdr s x)) s" by (subst malloc_loop.simps) simp
  then show ?case using Cons y by auto
qed

lemma malloc_round:
  assumes "linked (hdr s) p (xs @ [(freep s, n)]) z" "\<forall>(x, m) \<in> set (xs @ [(freep s, n)]). m < unat nu" "freep s \<notin> set (map fst xs)"
  shows "malloc_loop sbrk nu p (h_ptr (hdr s p)) s =
    (case morecore sbrk nu s of None \<Rightarrow> None | Some (q, t) \<Rightarrow> if q = 0 then Some (0, t) else malloc_loop sbrk nu q (h_ptr (hdr t q)) t)"
  using assms
proof (induction xs arbitrary: p)
  case Nil
  then have "h_ptr (hdr s p) = freep s" "\<not> nu \<le> h_size (hdr s (freep s))" by (auto simp: word_le_nat_alt)
  then show ?case by (subst malloc_loop.simps) simp
next
  case (Cons y xs)
  obtain x m where y: "y = (x, m)" by (cases y)
  then have "h_ptr (hdr s p) = x" "\<not> nu \<le> h_size (hdr s x)" "x \<noteq> freep s" using Cons.prems by (auto simp: word_le_nat_alt)
  then have "malloc_loop sbrk nu p (h_ptr (hdr s p)) s = malloc_loop sbrk nu x (h_ptr (hdr s x)) s" by (subst malloc_loop.simps) simp
  then show ?case using Cons y by auto
qed

text \<open>The first block that fits is found, with the header in front of it.\<close>

lemma malloc_finds:
  assumes "um_ok fs s" "(a, n) \<in> set fs" "unat nu \<le> n" "0 < nu"
  shows "\<exists>p b m. malloc_loop sbrk nu (freep s) (h_ptr (hdr s (freep s))) s = Some (take_block nu p b s) \<and> (b, m) \<in> set fs \<and> unat nu \<le> m \<and>
    p \<in> set (base s # map fst fs) \<and> h_ptr (hdr s p) = b"
proof -
  have "freep s \<in> set (base s # map fst fs)" using assms(1) unfolding um_ok_def by blast
  from rotation[OF assms(1) this] obtain rot k where r: "linked (hdr s) (freep s) (rot @ [(freep s, k)]) (h_ptr (hdr s (freep s)))"
    "set (rot @ [(freep s, k)]) = insert (base s, 0) (set fs)" "freep s \<notin> set (map fst rot)" by blast
  have "\<exists>y \<in> set (rot @ [(freep s, k)]). unat nu \<le> snd y" using r(2) assms(2,3) by force
  from split_list_first_prop[OF this] obtain xs y ys where y: "rot @ [(freep s, k)] = xs @ y # ys" "unat nu \<le> snd y" "\<forall>x \<in> set xs. \<not> unat nu \<le> snd x" by blast
  obtain b m where b: "y = (b, m)" by (cases y)
  have "set xs \<subseteq> set rot" using y(1) by (cases ys rule: rev_cases) auto
  then have f: "freep s \<notin> set (map fst xs)" using r(3) by auto
  have l: "linked (hdr s) (freep s) (xs @ (b, m) # ys) (h_ptr (hdr s (freep s)))" using r(1) y(1) b by simp
  have w: "malloc_loop sbrk nu (freep s) (h_ptr (hdr s (freep s))) s = Some (take_block nu (final (freep s) xs) b s)"
    by (rule malloc_walk[OF l _ f]) (use y(2,3) b in force)+
  have ptr: "h_ptr (hdr s (final (freep s) xs)) = b" using l by (auto simp: linked_append dest: linked_final)
  have in_ring: "(b, m) \<in> insert (base s, 0) (set fs)" "set xs \<subseteq> insert (base s, 0) (set fs)" using r(2) y(1) b by auto
  have bm: "(b, m) \<in> set fs" using in_ring(1) y(2) b assms(4) by (auto simp: word_less_nat_alt)
  note final_in[of "freep s" xs]
  moreover have "set (freep s # map fst xs) \<subseteq> set (base s # map fst fs)" using in_ring(2) \<open>freep s \<in> set (base s # map fst fs)\<close> by force
  ultimately have "final (freep s) xs \<in> set (base s # map fst fs)" by blast
  then show ?thesis using w ptr bm y(2) b by (metis snd_conv)
qed

section \<open>Taking a block\<close>

text \<open>Only the header in front of a block points to it.\<close>

lemma linked_ptrs: "linked h p fs z \<Longrightarrow> map (\<lambda>x. h_ptr (h x)) (p # map fst fs) = map fst fs @ [z]"
  by (induction fs arbitrary: p) auto

lemma pred_unique:
  assumes "linked h z (f1 @ (a, n) # f2) z" "distinct (z # map fst (f1 @ (a, n) # f2))" "p \<in> set (z # map fst (f1 @ (a, n) # f2))" "h_ptr (h p) = a"
  shows "p = final z f1"
proof -
  let ?L = "z # map fst (f1 @ (a, n) # f2)"
  have "distinct (map (\<lambda>x. h_ptr (h x)) ?L)" unfolding linked_ptrs[OF assms(1)] using assms(2) by auto
  then have inj: "inj_on (\<lambda>x. h_ptr (h x)) (set ?L)" by (simp only: distinct_map)
  have "set (z # map fst f1) \<subseteq> set ?L" by auto
  then have f: "final z f1 \<in> set ?L" using final_in[of z f1] by blast
  have "linked h z f1 a" using assms(1) by (simp add: linked_append)
  then have "h_ptr (h p) = h_ptr (h (final z f1))" unfolding assms(4) by (rule linked_final[symmetric])
  then show ?thesis by (rule inj_onD[OF inj _ assms(3) f])
qed

text \<open>What a call takes from the free blocks: a block \<open>b\<close> of \<open>nu\<close> units, with its header.\<close>

definition taken :: "blocks \<Rightarrow> u32 \<Rightarrow> umst \<Rightarrow> u32 \<times> umst \<Rightarrow> bool" where
  "taken fs nu s rt \<longleftrightarrow> (\<exists>fs' b t. rt = (b + 8, t) \<and> um_ok fs' t \<and> ubrk t = ubrk s \<and> base t = base s \<and> base s < b \<and> h_size (hdr t b) = nu \<and>
     bytes fs = bytes fs' \<union> {unat b ..< unat b + 8 * unat nu} \<and> bytes fs' \<inter> {unat b ..< unat b + 8 * unat nu} = {} \<and>
     (\<forall>x. unat x \<notin> bytes fs \<longrightarrow> x \<noteq> base s \<longrightarrow> hdr t x = hdr s x))"

lemma bytes_between: "spaced lo fs hi \<Longrightarrow> x \<in> bytes fs \<Longrightarrow> lo < x \<and> x < hi"
  using spaced_bounds[of lo fs hi] by (fastforce simp: bytes_def)

lemma take_whole:
  assumes ok: "um_ok (f1 @ (a, n) # f2) s" and nu: "h_size (hdr s a) = nu" "0 < nu" and t: "t = s\<lparr>hdr := (hdr s)(p := (hdr s p)\<lparr>h_ptr := h_ptr (hdr s a)\<rparr>), freep := p\<rparr>"
    and p: "p = final (base s) f1"
  shows "taken (f1 @ (a, n) # f2) nu s (a + 8, t)"
proof -
  let ?z = "base s" and ?h = "hdr s" and ?fs = "f1 @ (a, n) # f2"
  have o: "spaced (unat ?z) ?fs (unat (ubrk s))" "linked ?h ?z ?fs ?z" "h_size (?h ?z) = 0" "?z \<noteq> 0" "?z < ubrk s"
    using ok unfolding um_ok_def by blast+
  have z: "?z \<notin> set (map fst ?fs)" using spaced_mem_less[OF o(1)] by blast
  have d: "distinct (?z # map fst ?fs)" using z spaced_distinct[OF o(1)] by simp
  have l: "linked ?h ?z f1 a" "unat (h_size (?h a)) = n" "linked ?h a f2 ?z" using o(2) by (simp_all add: linked_append)
  have pin: "p \<in> set (?z # map fst f1)" unfolding p by (rule final_in)
  moreover have "distinct ((?z # map fst f1) @ a # map fst f2)" using d by simp
  then have "set (?z # map fst f1) \<inter> set (a # map fst f2) = {}" by (simp only: distinct_append)
  ultimately have "p \<notin> set (a # map fst f2)" by blast
  then have pn: "p \<noteq> a" "p \<notin> set (map fst f2)" by simp_all
  have d1: "distinct (?z # map fst f1)" using d by auto
  have l1: "linked (hdr t) ?z f1 (h_ptr (?h a))" using linked_set_final[OF l(1) d1, folded p, of "(?h p)\<lparr>h_ptr := h_ptr (?h a)\<rparr>" "h_ptr (?h a)"] t by simp
  have "linked (hdr t) ?z (f1 @ f2) ?z"
  proof (cases f2)
    case Nil
    then show ?thesis using l1 l(3) by simp
  next
    case (Cons y f3)
    obtain c m where y: "y = (c, m)" by (cases y)
    have c: "linked ?h c f3 ?z" "unat (h_size (?h c)) = m" "h_ptr (?h a) = c" using l(3) Cons y by auto
    have "linked (hdr t) c f3 ?z" by (rule linked_cong[OF c(1)]) (use pn t Cons y in auto)
    then show ?thesis using l1 c Cons y pn t by (auto simp: linked_append)
  qed
  moreover have "spaced (unat ?z) (f1 @ f2) (unat (ubrk s))" using o(1) by (auto simp: spaced_append elim: spaced_mono)
  ultimately have "um_ok (f1 @ f2) t" using o(3-5) pin t by (auto simp: um_ok_def)
  moreover have "bytes (f1 @ f2) \<inter> {unat a ..< unat a + 8 * unat nu} = {}"
    using o(1) bytes_between[of "unat ?z" f1 "end_of (unat ?z) f1"] bytes_between[of "unat a + 8 * n" f2 "unat (ubrk s)"] l(2) nu
    by (auto simp: spaced_append) force+
  moreover have "?z < a" using spaced_bounds(1)[OF o(1), of a n] by (simp add: word_less_nat_alt)
  moreover have "hdr t x = ?h x" if "unat x \<notin> bytes ?fs" "x \<noteq> ?z" for x
  proof -
    have "x \<notin> set (?z # map fst f1)" using that node_in_bytes[OF o(1), of x] by auto
    then show ?thesis using pin t by (metis fun_upd_other umst.select_convs(1) umst.surjective umst.update_convs(1) umst.update_convs(3))
  qed
  ultimately show ?thesis unfolding taken_def using t l(2) nu pn by (intro exI[of _ "f1 @ f2"] exI[of _ a] exI[of _ t]) auto
qed

lemma take_tail:
  assumes ok: "um_ok (f1 @ (a, n) # f2) s" and nu: "nu < h_size (hdr s a)" "0 < nu"
    and q: "q = a + 8 * (h_size (hdr s a) - nu)" and p: "p \<in> set (base s # map fst (f1 @ (a, n) # f2))"
    and h1: "h1 = (hdr s)(a := (hdr s a)\<lparr>h_size := h_size (hdr s a) - nu\<rparr>)" and t: "t = s\<lparr>hdr := h1(q := (h1 q)\<lparr>h_size := nu\<rparr>), freep := p\<rparr>"
  shows "taken (f1 @ (a, n) # f2) nu s (q + 8, t)"
proof -
  let ?z = "base s" and ?h = "hdr s" and ?fs = "f1 @ (a, n) # f2"
  have o: "spaced (unat ?z) ?fs (unat (ubrk s))" "linked ?h ?z ?fs ?z" "h_size (?h ?z) = 0" "?z \<noteq> 0" "?z < ubrk s"
    using ok unfolding um_ok_def by blast+
  have l: "linked ?h ?z f1 a" "unat (h_size (?h a)) = n" "linked ?h a f2 ?z" using o(2) by (simp_all add: linked_append)
  have sp: "spaced (unat ?z) f1 (end_of (unat ?z) f1)" "end_of (unat ?z) f1 < unat a" "spaced (unat a + 8 * n) f2 (unat (ubrk s))"
    using o(1) by (auto simp: spaced_append)
  have n: "unat nu < n" "0 < unat nu" using nu l(2) by (simp_all add: word_less_nat_alt)
  have m: "unat (h_size (?h a) - nu) = n - unat nu" using nu(1) l(2) by (simp add: unat_sub word_le_nat_alt word_less_nat_alt)
  have hi: "unat a + 8 * n < 2 ^ 32" using spaced_le[OF sp(3)] unat_lt32[of "ubrk s"] by simp
  have uq: "unat q = unat a + 8 * (n - unat nu)" unfolding q by (subst addr_end) (use hi m in simp_all)
  have x1: "unat x < unat a" if "x \<in> set (?z # map fst f1)" for x
    using that spaced_mem_less[OF sp(1), of x] spaced_le[OF sp(1)] sp(2) by (cases "x = ?z") simp_all
  have x2: "unat a + 8 * n < unat x" if "x \<in> set (map fst f2)" for x using spaced_mem_less[OF sp(3) that] by simp
  have q1: "x \<noteq> a \<and> x \<noteq> q" if "x \<in> set (?z # map fst f1)" for x
  proof -
    have "unat x \<noteq> unat a" "unat x \<noteq> unat q" using x1[OF that] uq by simp_all
    then show ?thesis by blast
  qed
  have q2: "x \<noteq> a \<and> x \<noteq> q" if "x \<in> set (map fst f2)" for x
  proof -
    have "unat x \<noteq> unat a" "unat x \<noteq> unat q" using x2[OF that] uq n by simp_all
    then show ?thesis by blast
  qed
  have "unat q \<noteq> unat a" using uq n by simp
  then have qa: "q \<noteq> a" by blast
  have "linked (hdr t) ?z f1 a" by (rule linked_cong[OF l(1)]) (use q1 t h1 in simp)
  moreover have "linked (hdr t) a f2 ?z" by (rule linked_head[OF l(3)]) (use q2 qa t h1 in simp_all)
  moreover have "unat (h_size (hdr t a)) = n - unat nu" using m qa t h1 by simp
  ultimately have "linked (hdr t) ?z (f1 @ (a, n - unat nu) # f2) ?z" by (simp add: linked_append)
  moreover have "spaced (unat ?z) (f1 @ (a, n - unat nu) # f2) (unat (ubrk s))"
    using sp n by (auto simp: spaced_append elim: spaced_mono)
  moreover have "h_size (hdr t ?z) = 0" using q1[of ?z] t h1 o(3) by simp
  ultimately have "um_ok (f1 @ (a, n - unat nu) # f2) t" using o(4,5) p t by (simp add: um_ok_def)
  moreover have "bytes ?fs = bytes (f1 @ (a, n - unat nu) # f2) \<union> {unat q ..< unat q + 8 * unat nu}" using uq n by auto
  moreover have "bytes (f1 @ (a, n - unat nu) # f2) \<inter> {unat q ..< unat q + 8 * unat nu} = {}"
  proof -
    have "x < unat q \<or> unat q + 8 * unat nu \<le> x" if "x \<in> bytes (f1 @ (a, n - unat nu) # f2)" for x
      using that bytes_between[OF sp(1), of x] bytes_between[OF sp(3), of x] sp(2) uq n by auto
    then show ?thesis by fastforce
  qed
  moreover have "?z < q" using x1[of ?z] uq n by (simp add: word_less_nat_alt)
  moreover have "hdr t x = ?h x" if "unat x \<notin> bytes ?fs" for x
  proof -
    have "x \<noteq> a" "x \<noteq> q" using that uq n by auto
    then show ?thesis using t h1 by simp
  qed
  ultimately show ?thesis unfolding taken_def using t by (intro exI[of _ "f1 @ (a, n - unat nu) # f2"] exI[of _ q] exI[of _ t]) auto
qed

lemma take_ok:
  assumes "um_ok fs s" "(a, n) \<in> set fs" "unat nu \<le> n" "0 < nu" "p \<in> set (base s # map fst fs)" "h_ptr (hdr s p) = a"
  shows "taken fs nu s (take_block nu p a s)"
proof -
  obtain f1 f2 where fs: "fs = f1 @ (a, n) # f2" using assms(2) by (auto dest!: split_list)
  have ok: "spaced (unat (base s)) fs (unat (ubrk s))" "linked (hdr s) (base s) fs (base s)" using assms(1) unfolding um_ok_def by blast+
  have "base s \<notin> set (map fst fs)" using spaced_mem_less[OF ok(1)] by blast
  then have d: "distinct (base s # map fst fs)" using spaced_distinct[OF ok(1)] by simp
  have p: "p = final (base s) f1" using pred_unique[of "hdr s" "base s" f1 a n f2 p] ok(2) d assms(5,6) fs by blast
  have n: "unat (h_size (hdr s a)) = n" using ok(2) fs by (simp add: linked_append)
  show ?thesis
  proof (cases "h_size (hdr s a) = nu")
    case True
    show ?thesis using take_whole[OF assms(1)[unfolded fs] True assms(4) refl p] True fs by (simp add: take_block_def Let_def)
  next
    case False
    then have "nu < h_size (hdr s a)" using assms(3) n by (simp add: word_less_nat_alt word_unat_eq_iff)
    from take_tail[OF assms(1)[unfolded fs] this assms(4) refl assms(5)[unfolded fs] refl refl]
    show ?thesis using False fs by (simp add: take_block_def Let_def)
  qed
qed

section \<open>Getting memory\<close>

text \<open>What the kernel grants for a request of \<open>n\<close> units: never past the end of the address space.\<close>

definition grants_ok :: "(u32 \<Rightarrow> u32 \<Rightarrow> bool) \<Rightarrow> bool" where
  "grants_ok sbrk \<longleftrightarrow> (\<forall>b n. sbrk b n \<longrightarrow> unat b + unat n < 2 ^ 32)"

definition core :: "u32 \<Rightarrow> umst \<Rightarrow> nat set" where
  "core nu s = {unat (ubrk s) ..< unat (ubrk s) + 8 * max 4096 (unat nu)}"

lemma core_request: "(if nu < 4096 then 4096 else nu) * 8 = of_nat (8 * max 4096 (unat nu))" for nu :: u32
  by (auto simp: word_less_nat_alt max_def mult.commute)

lemma morecore_ok:
  assumes "um_ok fs s" "grants_ok sbrk" "unat nu < 2 ^ 28" "sbrk (ubrk s) ((if nu < 4096 then 4096 else nu) * 8)"
  shows "\<exists>fs' t. morecore sbrk nu s = Some (freep t, t) \<and> freep t \<noteq> 0 \<and> um_ok fs' t \<and> base t = base s \<and> bytes fs' = bytes fs \<union> core nu s \<and>
    (\<exists>(a, m) \<in> set fs'. unat nu \<le> m) \<and> (\<forall>x. unat x \<notin> bytes fs' \<longrightarrow> x \<noteq> base s \<longrightarrow> hdr t x = hdr s x)"
proof -
  let ?nu = "if nu < 4096 then 4096 else nu" and ?hp = "ubrk s"
  let ?s = "s\<lparr>ubrk := ?hp + ?nu * 8, hdr := (hdr s)(?hp := (hdr s ?hp)\<lparr>h_size := ?nu\<rparr>)\<rparr>"
  have ok: "spaced (unat (base s)) fs (unat ?hp)" "linked (hdr s) (base s) fs (base s)" "h_size (hdr s (base s)) = 0"
    "freep s \<in> set (base s # map fst fs)" "base s \<noteq> 0" "base s < ?hp"
    using assms(1) unfolding um_ok_def by blast+
  have n: "unat ?nu = max 4096 (unat nu)" by (auto simp: word_less_nat_alt)
  then have n8: "unat (?nu * 8) = 8 * unat ?nu" using assms(3) by (subst unat_mult_lem[THEN iffD1]) auto
  have g: "unat ?hp + 8 * unat ?nu < 2 ^ 32" using assms(2,4) n8 unfolding grants_ok_def by metis
  then have brk: "unat (?hp + ?nu * 8) = unat ?hp + 8 * unat ?nu" using n8 by (simp add: unat_word_ariths)
  have hp: "?hp \<notin> set (base s # map fst fs)" using spaced_mem_less[OF ok(1)] ok(6) by auto
  have same: "hdr ?s x = hdr s x" if "x \<in> set (base s # map fst fs)" for x
  proof -
    have "x \<noteq> ?hp" using hp that by blast
    then show ?thesis by simp
  qed
  have "linked (hdr ?s) (base s) fs (base s)" by (rule linked_cong[OF ok(2) same])
  moreover have "spaced (unat (base s)) fs (unat (ubrk ?s))" using ok(1) brk by (auto elim: spaced_mono)
  moreover have "base s < ubrk ?s" using ok(6) brk by (simp add: word_less_nat_alt)
  ultimately have us: "um_ok fs ?s" using ok(3-5) same[of "base s"] unfolding um_ok_def by simp
  have pos: "0 < unat ?nu" unfolding n by simp
  have dis: "{unat ?hp ..< unat ?hp + 8 * unat ?nu} \<inter> bytes fs = {}" using bytes_between[OF ok(1)] by force
  have "unat (h_size (hdr ?s ?hp)) = unat ?nu" "base ?s < ?hp" "unat ?hp + 8 * unat ?nu \<le> unat (ubrk ?s)" using ok(6) brk by simp_all
  from ufree_ok[OF us pos this dis] obtain fs' t where t: "ufree (?hp + 8) ?s = Some t" "um_ok fs' t"
    "bytes fs' = bytes fs \<union> {unat ?hp ..< unat ?hp + 8 * unat ?nu}" "base t = base ?s" "\<exists>(a, m) \<in> set fs'. unat ?nu \<le> m"
    "\<forall>x. unat x \<notin> bytes fs' \<longrightarrow> x \<noteq> base ?s \<longrightarrow> hdr t x = hdr ?s x" by blast
  have "morecore sbrk nu s = Some (freep t, t)" using t(1) assms(4) by (simp add: morecore_def Let_def)
  moreover have "freep t \<noteq> 0"
  proof -
    have "spaced (unat (base t)) fs' (unat (ubrk t))" "freep t \<in> set (base t # map fst fs')" "base t \<noteq> 0" using t(2) unfolding um_ok_def by blast+
    then show ?thesis using spaced_mem_less[of "unat (base t)" fs' "unat (ubrk t)" "freep t"] by (cases "freep t = base t") auto
  qed
  moreover have "hdr t x = hdr s x" if "unat x \<notin> bytes fs'" "x \<noteq> base s" for x
  proof -
    have "x \<noteq> ?hp" using that(1) t(3) pos by auto
    then show ?thesis using t(6) that by simp
  qed
  ultimately show ?thesis using t n by (intro exI[of _ fs'] exI[of _ t]) (auto simp: core_def intro: order_trans)
qed

text \<open>A call that finds a block, or gets one from the kernel, or fails.\<close>

lemma malloc_loop_ok:
  assumes "um_ok fs s" "grants_ok sbrk" "unat nu < 2 ^ 28" "0 < nu"
  shows "\<exists>rt. malloc_loop sbrk nu (freep s) (h_ptr (hdr s (freep s))) s = Some rt \<and>
    (if \<exists>(a, n) \<in> set fs. unat nu \<le> n then taken fs nu s rt
     else if sbrk (ubrk s) ((if nu < 4096 then 4096 else nu) * 8)
     then \<exists>fs' t. um_ok fs' t \<and> base t = base s \<and> bytes fs' = bytes fs \<union> core nu s \<and>
       (\<forall>x. unat x \<notin> bytes fs' \<longrightarrow> x \<noteq> base s \<longrightarrow> hdr t x = hdr s x) \<and> taken fs' nu t rt
     else rt = (0, s))"
proof (cases "\<exists>(a, n) \<in> set fs. unat nu \<le> n")
  case True
  then obtain a n where "(a, n) \<in> set fs" "unat nu \<le> n" by blast
  from malloc_finds[OF assms(1) this assms(4)] obtain p b m where
    "malloc_loop sbrk nu (freep s) (h_ptr (hdr s (freep s))) s = Some (take_block nu p b s)" "(b, m) \<in> set fs" "unat nu \<le> m"
    "p \<in> set (base s # map fst fs)" "h_ptr (hdr s p) = b" by blast
  then show ?thesis using True take_ok[OF assms(1), of b m nu p] assms(4) by auto
next
  case False
  have "freep s \<in> set (base s # map fst fs)" using assms(1) unfolding um_ok_def by blast
  from rotation[OF assms(1) this] obtain rot k where r: "linked (hdr s) (freep s) (rot @ [(freep s, k)]) (h_ptr (hdr s (freep s)))"
    "set (rot @ [(freep s, k)]) = insert (base s, 0) (set fs)" "freep s \<notin> set (map fst rot)" by blast
  have small: "\<forall>(x, m) \<in> set (rot @ [(freep s, k)]). m < unat nu" unfolding r(2) using False assms(4) by (auto simp: word_less_nat_alt not_le)
  note m = malloc_round[OF r(1) small r(3), of sbrk]
  show ?thesis
  proof (cases "sbrk (ubrk s) ((if nu < 4096 then 4096 else nu) * 8)")
    case True
    obtain fs' t where t: "morecore sbrk nu s = Some (freep t, t)" "freep t \<noteq> 0" "um_ok fs' t" "base t = base s" "bytes fs' = bytes fs \<union> core nu s"
      "\<exists>(a, m) \<in> set fs'. unat nu \<le> m" "\<forall>x. unat x \<notin> bytes fs' \<longrightarrow> x \<noteq> base s \<longrightarrow> hdr t x = hdr s x"
      using morecore_ok[OF assms(1-3) True] by blast
    then obtain a n where "(a, n) \<in> set fs'" "unat nu \<le> n" by blast
    from malloc_finds[OF t(3) this assms(4)] obtain p b j where
      "malloc_loop sbrk nu (freep t) (h_ptr (hdr t (freep t))) t = Some (take_block nu p b t)" "(b, j) \<in> set fs'" "unat nu \<le> j"
      "p \<in> set (base t # map fst fs')" "h_ptr (hdr t p) = b" by blast
    moreover from this take_ok[OF t(3), of b j nu p] have "taken fs' nu t (take_block nu p b t)" using assms(4) by simp
    ultimately have "malloc_loop sbrk nu (freep s) (h_ptr (hdr s (freep s))) s = Some (take_block nu p b t)" "taken fs' nu t (take_block nu p b t)"
      using m t(1,2) by simp_all
    moreover have "\<exists>fs' w. um_ok fs' w \<and> base w = base s \<and> bytes fs' = bytes fs \<union> core nu s \<and>
       (\<forall>x. unat x \<notin> bytes fs' \<longrightarrow> x \<noteq> base s \<longrightarrow> hdr w x = hdr s x) \<and> taken fs' nu w (take_block nu p b t)"
      using t(3-5,7) calculation(2) by blast
    ultimately show ?thesis unfolding if_not_P[OF False] if_P[OF True]
      by - (rule exI[of _ "take_block nu p b t"], rule conjI, assumption+)
  next
    case F: False
    then have "morecore sbrk nu s = Some (0, s)" by (simp add: morecore_def Let_def)
    then show ?thesis using m False F by simp
  qed
qed

definition units :: "u32 \<Rightarrow> nat" where
  "units nbytes = (unat nbytes + 7) div 8 + 1"

lemma units_word:
  assumes "unat nbytes \<le> 2 ^ 30"
  shows "unat ((nbytes + 8 - 1) div 8 + 1) = units nbytes" "units nbytes < 2 ^ 28" "unat nbytes \<le> 8 * (units nbytes - 1)"
proof -
  have "nbytes + 8 - 1 = nbytes + 7" by simp
  moreover have "unat (nbytes + 7) = unat nbytes + 7" using assms by (simp add: unat_word_ariths)
  moreover have d: "(unat nbytes + 7) div 8 < 2 ^ 28 - 1" using assms by simp
  ultimately show "unat ((nbytes + 8 - 1) div 8 + 1) = units nbytes" by (simp add: units_def unat_word_ariths unat_div)
  show "units nbytes < 2 ^ 28" using d by (simp add: units_def)
  show "unat nbytes \<le> 8 * (units nbytes - 1)" by (simp add: units_def)
qed

definition blk :: "u32 \<Rightarrow> nat \<Rightarrow> nat set" where
  "blk r n = {unat r - 8 ..< unat r - 8 + 8 * n}"

lemma taken_free:
  assumes "um_ok fs s" "taken fs nu s rt" "0 < unat nu"
  shows "\<exists>r t fs' u fs''. rt = (r, t) \<and> r \<noteq> 0 \<and> 8 < unat r \<and> um_ok fs' t \<and> bytes fs' \<union> blk r (unat nu) = bytes fs \<and> bytes fs' \<inter> blk r (unat nu) = {} \<and>
    ufree r t = Some u \<and> um_ok fs'' u \<and> bytes fs'' = bytes fs \<and>
    (\<forall>x. unat x \<notin> bytes fs \<longrightarrow> x \<noteq> base s \<longrightarrow> hdr t x = hdr s x \<and> hdr u x = hdr s x)"
proof -
  obtain fs' b t where t: "rt = (b + 8, t)" "um_ok fs' t" "ubrk t = ubrk s" "base t = base s" "base s < b" "h_size (hdr t b) = nu"
    "bytes fs = bytes fs' \<union> {unat b ..< unat b + 8 * unat nu}" "bytes fs' \<inter> {unat b ..< unat b + 8 * unat nu} = {}"
    "\<forall>x. unat x \<notin> bytes fs \<longrightarrow> x \<noteq> base s \<longrightarrow> hdr t x = hdr s x"
    using assms(2) unfolding taken_def by blast
  have sp: "spaced (unat (base s)) fs (unat (ubrk s))" using assms(1) unfolding um_ok_def by blast
  have "unat b + 8 * unat nu - 1 \<in> {unat b ..< unat b + 8 * unat nu}" using assms(3) by (cases "unat nu") simp_all
  then have "unat b + 8 * unat nu - 1 \<in> bytes fs" unfolding t(7) by blast
  then have e: "unat b + 8 * unat nu \<le> unat (ubrk s)" using bytes_between[OF sp] by fastforce
  then have b8: "unat (b + 8) = unat b + 8" using assms(3) unat_lt32[of "ubrk s"] by (simp add: unat_word_ariths)
  have b0: "0 < unat b" using t(5) by (simp add: word_less_nat_alt)
  have "unat b + 8 * unat nu \<le> unat (ubrk t)" "base t < b" "{unat b ..< unat b + 8 * unat nu} \<inter> bytes fs' = {}" using e t(3-5,8) by auto
  from ufree_ok[OF t(2) assms(3) arg_cong[OF t(6)] this(2,1,3)]
  obtain fs'' u where u: "ufree (b + 8) t = Some u" "um_ok fs'' u" "bytes fs'' = bytes fs' \<union> {unat b ..< unat b + 8 * unat nu}"
    "\<forall>x. unat x \<notin> bytes fs'' \<longrightarrow> x \<noteq> base t \<longrightarrow> hdr u x = hdr t x" by blast
  have k: "blk (b + 8) (unat nu) = {unat b ..< unat b + 8 * unat nu}" by (simp add: blk_def b8)
  have "unat (b + 8) \<noteq> 0" "8 < unat (b + 8)" using b8 b0 by simp_all
  then have n: "b + 8 \<noteq> 0" "8 < unat (b + 8)" by auto
  have bts: "bytes fs' \<union> blk (b + 8) (unat nu) = bytes fs" "bytes fs' \<inter> blk (b + 8) (unat nu) = {}" "bytes fs'' = bytes fs"
    using t(7,8) u(3) k by simp_all
  have "\<forall>x. unat x \<notin> bytes fs \<longrightarrow> x \<noteq> base s \<longrightarrow> hdr t x = hdr s x \<and> hdr u x = hdr s x" using t(4,9) u(4) bts(3) by simp
  with t(1,2) u(1,2) n bts show ?thesis by blast
qed

text \<open>
  The address \<open>r\<close> serves a request for \<open>nbytes\<close> out of the bytes \<open>new\<close>: it is behind the header of a block cut off from them, freeing it gives
  them back, and the headers of all other blocks are as in \<open>s\<close>.
\<close>

definition served :: "nat set \<Rightarrow> u32 \<Rightarrow> umst \<Rightarrow> u32 \<Rightarrow> umst \<Rightarrow> bool" where
  "served new nbytes s r t \<longleftrightarrow> (\<exists>fs u fs'. um_ok fs t \<and> bytes fs \<union> blk r (units nbytes) = new \<and> bytes fs \<inter> blk r (units nbytes) = {} \<and>
     {unat r ..< unat r + unat nbytes} \<subseteq> blk r (units nbytes) \<and> ufree r t = Some u \<and> um_ok fs' u \<and> bytes fs' = new \<and>
     (\<forall>x. unat x \<notin> new \<longrightarrow> x \<noteq> base s \<longrightarrow> hdr t x = hdr s x \<and> hdr u x = hdr s x))"

lemma taken_served:
  assumes "um_ok fs s1" "taken fs nu s1 rt" "unat nu = units nbytes" "base s1 = base s"
    "\<forall>x. unat x \<notin> bytes fs \<longrightarrow> x \<noteq> base s \<longrightarrow> hdr s1 x = hdr s x"
  shows "\<exists>r t. rt = (r, t) \<and> r \<noteq> 0 \<and> served (bytes fs) nbytes s r t"
proof -
  have "0 < unat nu" using assms(3) by (simp add: units_def)
  from taken_free[OF assms(1,2) this] obtain r t fs' u fs'' where x: "rt = (r, t)" "r \<noteq> 0" "8 < unat r" "um_ok fs' t"
    "bytes fs' \<union> blk r (unat nu) = bytes fs" "bytes fs' \<inter> blk r (unat nu) = {}" "ufree r t = Some u" "um_ok fs'' u" "bytes fs'' = bytes fs"
    "\<forall>x. unat x \<notin> bytes fs \<longrightarrow> x \<noteq> base s1 \<longrightarrow> hdr t x = hdr s1 x \<and> hdr u x = hdr s1 x" by blast
  have "unat nbytes \<le> 8 * (units nbytes - 1)" by (simp add: units_def)
  then have "{unat r ..< unat r + unat nbytes} \<subseteq> blk r (units nbytes)" using x(3) by (auto simp: blk_def units_def)
  moreover have "\<forall>x. unat x \<notin> bytes fs \<longrightarrow> x \<noteq> base s \<longrightarrow> hdr t x = hdr s x \<and> hdr u x = hdr s x" using x(10) assms(4,5) by simp
  ultimately have "served (bytes fs) nbytes s r t" unfolding served_def using x(4-9) assms(3)
    by (intro exI[of _ fs'] exI[of _ u] exI[of _ fs'']) simp
  then show ?thesis using x(1,2) by blast
qed

text \<open>
  C14. \<open>malloc\<close> always returns. It fails only when no free block is large enough and the kernel grants no more, and then changes nothing.
  Otherwise it returns the address behind the header of a block that it has cut off the free memory, after getting more if needed, and that is large enough for the
  request; freeing this address puts exactly this block back; neither call touches the header of any other block in use.
\<close>

theorem malloc_free:
  assumes "um_ok fs (malloc_init s)" and "grants_ok sbrk" and "unat nbytes \<le> 2 ^ 30"
  shows "\<exists>r t. malloc sbrk nbytes s = Some (r, t) \<and>
    (if r = 0 then t = malloc_init s \<and> (\<forall>(a, n) \<in> set fs. n < units nbytes) \<and> \<not> sbrk (ubrk s) (of_nat (8 * max 4096 (units nbytes)))
     else served (bytes fs) nbytes (malloc_init s) r t \<or> served (bytes fs \<union> core (of_nat (units nbytes)) s) nbytes (malloc_init s) r t)"
proof -
  let ?s = "malloc_init s"
  define nu where "nu = (nbytes + 8 - 1) div 8 + 1"
  have u1: "unat nu = units nbytes" using units_word(1)[OF assms(3)] by (simp only: nu_def)
  have "of_nat (unat nu) = nu" by simp
  with u1 have un: "unat nu = units nbytes" "nu = of_nat (units nbytes)" "unat nu < 2 ^ 28" "0 < nu"
    using units_word(2)[OF assms(3)] by (auto simp: units_def word_less_nat_alt)
  have b: "core nu ?s = core (of_nat (units nbytes)) s" using un(2) by (simp add: malloc_init_def core_def)
  have m: "malloc sbrk nbytes s = malloc_loop sbrk nu (freep ?s) (h_ptr (hdr ?s (freep ?s))) ?s" by (simp add: malloc_def nu_def Let_def)
  obtain rt where rt: "malloc sbrk nbytes s = Some rt"
    "if \<exists>(a, n) \<in> set fs. unat nu \<le> n then taken fs nu ?s rt
     else if sbrk (ubrk ?s) ((if nu < 4096 then 4096 else nu) * 8)
     then \<exists>fs' t. um_ok fs' t \<and> base t = base ?s \<and> bytes fs' = bytes fs \<union> core nu ?s \<and>
       (\<forall>x. unat x \<notin> bytes fs' \<longrightarrow> x \<noteq> base ?s \<longrightarrow> hdr t x = hdr ?s x) \<and> taken fs' nu t rt
     else rt = (0, ?s)"
    using malloc_loop_ok[OF assms(1,2) un(3,4)] unfolding m by blast
  consider "taken fs nu ?s rt" | fs1 t1 where "um_ok fs1 t1" "base t1 = base ?s" "bytes fs1 = bytes fs \<union> core nu ?s"
      "\<forall>x. unat x \<notin> bytes fs1 \<longrightarrow> x \<noteq> base ?s \<longrightarrow> hdr t1 x = hdr ?s x" "taken fs1 nu t1 rt"
    | "rt = (0, ?s)" "\<forall>(a, n) \<in> set fs. n < unat nu" "\<not> sbrk (ubrk ?s) ((if nu < 4096 then 4096 else nu) * 8)" using rt(2) by (fastforce split: if_splits simp: not_le)
  then show ?thesis
  proof cases
    case 1
    then show ?thesis using taken_served[OF assms(1) 1 un(1), of ?s] rt(1) by auto
  next
    case 2
    then show ?thesis using taken_served[OF 2(1,5) un(1) 2(2,4)] rt(1) b by auto
  next
    case 3
    moreover have "ubrk ?s = ubrk s" by (simp add: malloc_init_def)
    ultimately show ?thesis using rt(1) un(1) core_request[of nu] by simp
  qed
qed

definition um_new :: umst where
  "um_new = \<lparr>hdr = (\<lambda>_. \<lparr>h_ptr = 0, h_size = 0\<rparr>), base = 0x1000, freep = 0, ubrk = 0x4000\<rparr>"

definition sbrk_ex :: "u32 \<Rightarrow> u32 \<Rightarrow> bool" where
  "sbrk_ex b n \<longleftrightarrow> unat b + unat n < 2 ^ 31"

theorem malloc_free_witness:
  "um_ok [] (malloc_init um_new) \<and> grants_ok sbrk_ex \<and>
   (\<exists>r t. malloc sbrk_ex 100 um_new = Some (r, t) \<and> r \<noteq> 0 \<and> served {0x4000 ..< 0xC000} 100 (malloc_init um_new) r t)"
proof -
  have ok: "um_ok [] (malloc_init um_new)" by (simp add: um_ok_def malloc_init_def um_new_def)
  have g: "grants_ok sbrk_ex" by (simp add: grants_ok_def sbrk_ex_def)
  have u: "units 100 = 14" by (simp add: units_def)
  have c: "core (of_nat (units 100)) um_new = {0x4000 ..< 0xC000}" by (simp add: u core_def um_new_def)
  have s: "sbrk_ex (ubrk um_new) (of_nat (8 * max 4096 (units 100)))" by (simp add: u sbrk_ex_def um_new_def)
  obtain r t where r: "malloc sbrk_ex 100 um_new = Some (r, t)" "r \<noteq> 0"
    "served {} 100 (malloc_init um_new) r t \<or> served {0x4000 ..< 0xC000} 100 (malloc_init um_new) r t"
    using malloc_free[OF ok g, of 100] s c by (auto split: if_splits)
  moreover have "\<not> served {} 100 (malloc_init um_new) r t" by (auto simp: served_def blk_def u)
  ultimately show ?thesis using ok g by blast
qed

text \<open>The size in units is computed with wrap-around: a request for almost all of the address space is served like one for no byte at all.\<close>

lemma malloc_wraps: "malloc sbrk 0xFFFFFFFF s = malloc sbrk 0 s"
  by (simp add: malloc_def)

end
