(* ===== verification/Sh.thy ===== *)
theory Sh
  imports Params
begin

text \<open>
  The parser of the shell, \<^verbatim>\<open>sh.c\<close>, from \<open>gettoken\<close> to \<open>parsecmd\<close>. The text between the current position and the end of
  the line is the list of its bytes, and the counted strings that \<open>nulterminate\<close> cuts off are lists as well. A parse is a panic with its message
  or a command with the rest of the text; \<open>None\<close> is a recursion that its fuel does not suffice for.
\<close>

section \<open>Tokens\<close>

datatype cmd = Exec "u8 list list" | Redir cmd "u8 list" u32 int | Pipe cmd cmd | List cmd cmd | Back cmd

definition is_white :: "u8 \<Rightarrow> bool" where
  "is_white c \<longleftrightarrow> c \<in> set [32, 9, 13, 10, 11]"

definition is_symbol :: "u8 \<Rightarrow> bool" where
  "is_symbol c \<longleftrightarrow> c \<in> set [60, 124, 62, 38, 59, 40, 41]"

definition skip_white :: "u8 list \<Rightarrow> u8 list" where
  "skip_white s = dropWhile is_white s"

text \<open>The kind of the token (0 at the end, 97 for a word, 43 for \<open>>>\<close>), the word, and the rest.\<close>

definition gettoken :: "u8 list \<Rightarrow> u8 \<times> u8 list \<times> u8 list" where
  "gettoken s =
     (case skip_white s of
        [] \<Rightarrow> (0, [], [])
      | c # r \<Rightarrow>
          if c \<in> set [124, 40, 41, 59, 38, 60] then (c, [c], skip_white r)
          else if c = 62 then
            (case r of
               d # r' \<Rightarrow> if d = 62 then (43, [c, d], skip_white r') else (c, [c], skip_white r)
             | [] \<Rightarrow> (c, [c], []))
          else
            let word = takeWhile (\<lambda>x. \<not> is_white x \<and> \<not> is_symbol x) (c # r)
            in (97, word, skip_white (drop (length word) (c # r))))"

definition peek :: "u8 list \<Rightarrow> u8 list \<Rightarrow> bool" where
  "peek s toks \<longleftrightarrow> (case skip_white s of [] \<Rightarrow> False | c # r \<Rightarrow> c \<in> set toks)"

abbreviation "rest_of s \<equiv> snd (snd (gettoken s))"

lemma skip_white_len: "length (skip_white s) \<le> length s"
  by (simp add: skip_white_def length_dropWhile_le)

lemma gettoken_len: "length (rest_of s) \<le> length s" "skip_white s \<noteq> [] \<Longrightarrow> length (rest_of s) < length s"
proof -
  have "skip_white s \<noteq> [] \<Longrightarrow> length (rest_of s) < length (skip_white s)"
  proof -
    assume "skip_white s \<noteq> []"
    then obtain c r where s: "skip_white s = c # r" by (cases "skip_white s") auto
    have w: "\<not> is_white c" using s unfolding skip_white_def by (metis hd_dropWhile list.distinct(1) list.sel(1))
    show ?thesis
    proof (cases "is_symbol c")
      case True
      then show ?thesis using s skip_white_len[of r] skip_white_len[of "tl r"]
        by (auto simp: gettoken_def is_symbol_def Let_def split: list.splits)
    next
      case False
      then have "takeWhile (\<lambda>x. \<not> is_white x \<and> \<not> is_symbol x) (c # r) \<noteq> []" using w by simp
      then have "0 < length (takeWhile (\<lambda>x. \<not> is_white x \<and> \<not> is_symbol x) (c # r))" by blast
      then have "length (drop (length (takeWhile (\<lambda>x. \<not> is_white x \<and> \<not> is_symbol x) (c # r))) (c # r)) < length (c # r)" by simp
      then show ?thesis using s False skip_white_len[of "drop (length (takeWhile (\<lambda>x. \<not> is_white x \<and> \<not> is_symbol x) (c # r))) (c # r)"]
        by (auto simp: gettoken_def is_symbol_def Let_def split: if_splits)
    qed
  qed
  then show "skip_white s \<noteq> [] \<Longrightarrow> length (rest_of s) < length s" using skip_white_len[of s] by linarith
  then show "length (rest_of s) \<le> length s" by (cases "skip_white s = []") (auto simp: gettoken_def)
qed

lemma peek_len: "peek s toks \<Longrightarrow> length (rest_of s) < length s"
  using gettoken_len(2)[of s] by (auto simp: peek_def split: list.splits)

section \<open>The parser\<close>

type_synonym 'a parsed = "string + 'a"

definition O_RDONLY :: u32 where "O_RDONLY = 0"
definition O_WRONLY_CREATE :: u32 where "O_WRONLY_CREATE = 0x201"

function parseredirs :: "cmd \<Rightarrow> u8 list \<Rightarrow> (cmd \<times> u8 list) parsed" where
  "parseredirs cmd s =
     (if peek s [60, 62]
      then
        let (tok, _, s1) = gettoken s;
            (tok', file, s2) = gettoken s1
        in if tok' \<noteq> 97 then Inl ''missing file for redirection''
           else parseredirs (if tok = 60 then Redir cmd file O_RDONLY 0 else Redir cmd file O_WRONLY_CREATE 1) s2
      else Inr (cmd, skip_white s))"
  by pat_completeness auto
termination
proof (relation "measure (\<lambda>(cmd, s). length s)", goal_cases)
  case (2 cmd s x tok y z s1 w tok' v fl s2)
  then have "length s1 < length s" "length s2 \<le> length s1" using peek_len[of s] gettoken_len(1)[of s1] by (metis snd_conv)+
  then show ?case by simp
qed simp

declare parseredirs.simps [simp del]

lemma parseredirs_len: "parseredirs cmd s = Inr (cmd', s') \<Longrightarrow> length s' \<le> length s"
proof (induction cmd s rule: parseredirs.induct)
  case (1 cmd s)
  show ?case
  proof (cases "peek s [60, 62]")
    case True
    obtain tok w s1 where t: "gettoken s = (tok, w, s1)" by (metis prod_cases3)
    obtain tok' fl s2 where t': "gettoken s1 = (tok', fl, s2)" by (metis prod_cases3)
    have "length s2 \<le> length s" using gettoken_len(1)[of s] gettoken_len(1)[of s1] t t' by simp
    moreover have e: "parseredirs cmd s = (if tok' \<noteq> 97 then Inl ''missing file for redirection''
        else parseredirs (if tok = 60 then Redir cmd fl O_RDONLY 0 else Redir cmd fl O_WRONLY_CREATE 1) s2)"
      using True t t' by (subst parseredirs.simps) simp
    moreover have "tok' = 97" using 1(2) e by (cases "tok' = 97") simp_all
    ultimately show ?thesis using 1(1)[OF True t[symmetric] refl refl t'[symmetric] refl refl] 1(2) by simp
  next
    case False
    then show ?thesis using 1(2) skip_white_len[of s] by (subst (asm) parseredirs.simps) auto
  qed
qed

text \<open>\<open>parseexec\<close> fills in the arguments of the innermost command while the redirections around it are built.\<close>

fun fill :: "u8 list list \<Rightarrow> cmd \<Rightarrow> cmd" where
  "fill argv (Exec _) = Exec argv"
| "fill argv (Redir c f m fd) = Redir (fill argv c) f m fd"
| "fill argv c = c"

function parseargs :: "u8 list list \<Rightarrow> cmd \<Rightarrow> u8 list \<Rightarrow> (cmd \<times> u8 list) parsed" where
  "parseargs argv r0 s =
     (if peek s [124, 41, 38, 59] then Inr (fill argv r0, skip_white s)
      else
        let (tok, w, s1) = gettoken s
        in if tok = 0 then Inr (fill argv r0, s1)
           else if tok \<noteq> 97 then Inl ''syntax''
           else if length (argv @ [w]) \<ge> 10 then Inl ''too many args''
           else case parseredirs r0 s1 of
                  Inl e \<Rightarrow> Inl e
                | Inr (r0, s2) \<Rightarrow> parseargs (argv @ [w]) r0 s2)"
  by pat_completeness auto
termination
proof (relation "measure (\<lambda>(argv, r0, s). length s)", goal_cases)
  case (2 argv r0 s x tok y w s1 v r0' s2)
  then have t: "gettoken s = (tok, w, s1)" "tok \<noteq> 0" "parseredirs r0 s1 = Inr (r0', s2)" by auto
  then have "skip_white s \<noteq> []" by (auto simp: gettoken_def)
  then show ?case using gettoken_len(2)[of s] parseredirs_len[OF t(3)] t(1) by simp
qed simp

declare parseargs.simps [simp del]

function parsebacks :: "cmd \<Rightarrow> u8 list \<Rightarrow> cmd \<times> u8 list" where
  "parsebacks cmd s = (if peek s [38] then parsebacks (Back cmd) (rest_of s) else (cmd, skip_white s))"
  by pat_completeness auto
termination
  by (relation "measure (\<lambda>(cmd, s). length s)") (auto dest: peek_len)

declare parsebacks.simps [simp del]

fun parseline :: "nat \<Rightarrow> u8 list \<Rightarrow> (cmd \<times> u8 list) parsed option"
  and parsepipe :: "nat \<Rightarrow> u8 list \<Rightarrow> (cmd \<times> u8 list) parsed option"
  and parseexec :: "nat \<Rightarrow> u8 list \<Rightarrow> (cmd \<times> u8 list) parsed option"
  and parseblock :: "nat \<Rightarrow> u8 list \<Rightarrow> (cmd \<times> u8 list) parsed option" where
  "parseline 0 s = None"
| "parseline (Suc k) s =
     (case parsepipe k s of
        Some (Inr (cmd, s)) \<Rightarrow>
          let (cmd, s) = parsebacks cmd s
          in if peek s [59]
             then (case parseline k (rest_of s) of
                     Some (Inr (r, s)) \<Rightarrow> Some (Inr (List cmd r, s))
                   | x \<Rightarrow> x)
             else Some (Inr (cmd, s))
      | x \<Rightarrow> x)"
| "parsepipe 0 s = None"
| "parsepipe (Suc k) s =
     (case parseexec k s of
        Some (Inr (cmd, s)) \<Rightarrow>
          if peek s [124]
          then (case parsepipe k (rest_of s) of
                  Some (Inr (r, s)) \<Rightarrow> Some (Inr (Pipe cmd r, s))
                | x \<Rightarrow> x)
          else Some (Inr (cmd, skip_white s))
      | x \<Rightarrow> x)"
| "parseexec 0 s = None"
| "parseexec (Suc k) s =
     (if peek s [40] then parseblock k s
      else case parseredirs (Exec []) s of
             Inl e \<Rightarrow> Some (Inl e)
           | Inr (r0, s) \<Rightarrow> Some (parseargs [] r0 s))"
| "parseblock 0 s = None"
| "parseblock (Suc k) s =
     (if \<not> peek s [40] then Some (Inl ''parseblock'')
      else case parseline k (rest_of s) of
             Some (Inr (cmd, s)) \<Rightarrow>
               if \<not> peek s [41] then Some (Inl ''syntax - missing )'')
               else Some (parseredirs cmd (rest_of s))
           | x \<Rightarrow> x)"

definition parsecmd :: "u8 list \<Rightarrow> cmd parsed option" where
  "parsecmd s =
     (case parseline (4 * length s + 4) s of
        Some (Inr (cmd, s)) \<Rightarrow> if skip_white s \<noteq> [] then Some (Inl ''syntax'') else Some (Inr cmd)
      | Some (Inl e) \<Rightarrow> Some (Inl e)
      | None \<Rightarrow> None)"

section \<open>Termination\<close>

lemma parsebacks_len: "length (snd (parsebacks cmd s)) \<le> length s"
proof (induction cmd s rule: parsebacks.induct)
  case (1 cmd s)
  then show ?case using peek_len[of s "[38]"] skip_white_len[of s] by (subst parsebacks.simps) auto
qed

lemma parseargs_len: "parseargs argv r0 s = Inr (cmd', s') \<Longrightarrow> length s' \<le> length s"
proof (induction argv r0 s rule: parseargs.induct)
  case (1 argv r0 s)
  obtain tok w s1 where t: "gettoken s = (tok, w, s1)" by (metis prod_cases3)
  have l: "length s1 \<le> length s" using gettoken_len(1)[of s] t by simp
  have e: "parseargs argv r0 s = (if peek s [124, 41, 38, 59] then Inr (fill argv r0, skip_white s)
      else if tok = 0 then Inr (fill argv r0, s1) else if tok \<noteq> 97 then Inl ''syntax''
      else if length (argv @ [w]) \<ge> 10 then Inl ''too many args''
      else case parseredirs r0 s1 of Inl e \<Rightarrow> Inl e | Inr (r1, s2) \<Rightarrow> parseargs (argv @ [w]) r1 s2)"
    using t by (subst parseargs.simps) simp
  show ?case
  proof (cases "peek s [124, 41, 38, 59] \<or> tok = 0 \<or> tok \<noteq> 97 \<or> length (argv @ [w]) \<ge> 10")
    case True
    then show ?thesis using 1(2) e l skip_white_len[of s] by (auto split: if_splits)
  next
    case False
    then obtain r1 s2 where r: "parseredirs r0 s1 = Inr (r1, s2)" using 1(2) e by (cases "parseredirs r0 s1") auto
    have "length s' \<le> length s2"
      using False 1(1)[OF _ t[symmetric] refl refl _ _ _ r refl] 1(2) e r by simp
    then show ?thesis using parseredirs_len[OF r] l by simp
  qed
qed

lemma parse_len:
  "parseline k s = Some (Inr (c, s')) \<Longrightarrow> length s' \<le> length s"
  "parsepipe k s = Some (Inr (c, s')) \<Longrightarrow> length s' \<le> length s"
  "parseexec k s = Some (Inr (c, s')) \<Longrightarrow> length s' \<le> length s"
  "parseblock k s = Some (Inr (c, s')) \<Longrightarrow> length s' \<le> length s"
proof (induction k arbitrary: s s' c)
  case (Suc k)
  { case 1
    then obtain c1 s1 c2 s2 where p: "parsepipe k s = Some (Inr (c1, s1))" and b: "parsebacks c1 s1 = (c2, s2)"
      by (auto split: option.splits sum.splits prod.splits)
    have l: "length s2 \<le> length s" using Suc(2)[OF p] parsebacks_len[of c1 s1] b by simp
    show ?case
    proof (cases "peek s2 [59]")
      case True
      then obtain r where "parseline k (rest_of s2) = Some (Inr (r, s'))" using 1 p b by (auto split: option.splits sum.splits)
      from Suc(1)[OF this] show ?thesis using l gettoken_len(1)[of s2] by simp
    next
      case False
      then show ?thesis using 1 p b l by simp
    qed
  next
    case 2
    then obtain c1 s1 where p: "parseexec k s = Some (Inr (c1, s1))" by (auto split: option.splits sum.splits)
    have l: "length s1 \<le> length s" using Suc(3)[OF p] by simp
    show ?case
    proof (cases "peek s1 [124]")
      case True
      then obtain r where "parsepipe k (rest_of s1) = Some (Inr (r, s'))" using 2 p by (auto split: option.splits sum.splits)
      from Suc(2)[OF this] show ?thesis using l gettoken_len(1)[of s1] by simp
    next
      case False
      then show ?thesis using 2 p l skip_white_len[of s1] by simp
    qed
  next
    case 3
    show ?case
    proof (cases "peek s [40]")
      case True
      then show ?thesis using 3 Suc(4) by simp
    next
      case False
      then obtain r1 s1 where r: "parseredirs (Exec []) s = Inr (r1, s1)" "parseargs [] r1 s1 = Inr (c, s')" using 3 by (auto split: sum.splits)
      show ?thesis using parseredirs_len[OF r(1)] parseargs_len[OF r(2)] by simp
    qed
  next
    case 4
    then obtain c1 s1 where p: "parseline k (rest_of s) = Some (Inr (c1, s1))" and r: "parseredirs c1 (rest_of s1) = Inr (c, s')"
      by (auto split: option.splits sum.splits if_splits)
    show ?case using Suc(1)[OF p] parseredirs_len[OF r] gettoken_len(1)[of s] gettoken_len(1)[of s1] by simp
  }
qed simp_all

lemma parse_fuel:
  "4 * length s + 4 \<le> k \<Longrightarrow> parseline k s \<noteq> None"
  "4 * length s + 3 \<le> k \<Longrightarrow> parsepipe k s \<noteq> None"
  "4 * length s + 2 \<le> k \<Longrightarrow> parseexec k s \<noteq> None"
  "4 * length s + 1 \<le> k \<Longrightarrow> parseblock k s \<noteq> None"
proof (induction k arbitrary: s)
  case (Suc k)
  { case 1
    then obtain x where p: "parsepipe k s = Some x" using Suc(2)[of s] by auto
    show ?case
    proof (cases x)
      case (Inr y)
      obtain c1 s1 c2 s2 where y: "y = (c1, s1)" and b: "parsebacks c1 s1 = (c2, s2)" by (metis surj_pair)
      have "length s2 \<le> length s" using parse_len(2)[of k s c1 s1] p Inr y parsebacks_len[of c1 s1] b by simp
      then have "peek s2 [59] \<Longrightarrow> parseline k (rest_of s2) \<noteq> None" using Suc(1)[of "rest_of s2"] peek_len[of s2 "[59]"] 1 by simp
      then show ?thesis using p Inr y b by (auto split: option.splits sum.splits)
    qed (use p in simp)
  next
    case 2
    then obtain x where p: "parseexec k s = Some x" using Suc(3)[of s] by auto
    show ?case
    proof (cases x)
      case (Inr y)
      obtain c1 s1 where y: "y = (c1, s1)" by (metis surj_pair)
      have "length s1 \<le> length s" using parse_len(3)[of k s c1 s1] p Inr y by simp
      then have "peek s1 [124] \<Longrightarrow> parsepipe k (rest_of s1) \<noteq> None" using Suc(2)[of "rest_of s1"] peek_len[of s1 "[124]"] 2 by simp
      then show ?thesis using p Inr y by (auto split: option.splits sum.splits)
    qed (use p in simp)
  next
    case 3
    then show ?case using Suc(4)[of s] by (auto split: sum.splits)
  next
    case 4
    have "peek s [40] \<Longrightarrow> parseline k (rest_of s) \<noteq> None" using Suc(1)[of "rest_of s"] peek_len[of s "[40]"] 4 by simp
    then show ?case by (auto split: option.splits sum.splits)
  }
qed simp_all

text \<open>
  C29. The parser of the shell returns on every line, with a command or with the message of a panic; no nesting of parentheses, pipes and lists exhausts its recursion
  of depth four times the length of the line.
\<close>

theorem parsecmd_returns: "parsecmd s \<noteq> None"
  using parse_fuel(1)[of s "4 * length s + 4"] by (auto simp: parsecmd_def split: option.splits sum.splits)

section \<open>Printing\<close>

definition is_word :: "u8 list \<Rightarrow> bool" where
  "is_word w \<longleftrightarrow> w \<noteq> [] \<and> list_all (\<lambda>c. c \<noteq> 0 \<and> \<not> is_white c \<and> \<not> is_symbol c) w"

fun print :: "cmd \<Rightarrow> u8 list" where
  "print (Exec argv) = concat (map (\<lambda>w. w @ [32]) argv)"
| "print (Redir c f m fd) = 40 # print c @ 41 # (if fd = 0 then 60 else 62) # f"
| "print (Pipe l r) = 40 # print l @ 41 # 124 # 40 # print r @ [41]"
| "print (List l r) = 40 # print l @ 41 # 59 # 40 # print r @ [41]"
| "print (Back c) = 40 # print c @ [41, 38]"

fun wf_cmd :: "cmd \<Rightarrow> bool" where
  "wf_cmd (Exec argv) \<longleftrightarrow> length argv < 10 \<and> list_all is_word argv"
| "wf_cmd (Redir c f m fd) \<longleftrightarrow> wf_cmd c \<and> is_word f \<and> (m = O_RDONLY \<and> fd = 0 \<or> m = O_WRONLY_CREATE \<and> fd = 1)"
| "wf_cmd (Pipe l r) \<longleftrightarrow> wf_cmd l \<and> wf_cmd r"
| "wf_cmd (List l r) \<longleftrightarrow> wf_cmd l \<and> wf_cmd r"
| "wf_cmd (Back c) \<longleftrightarrow> wf_cmd c"

definition stops :: "u8 list \<Rightarrow> bool" where
  "stops s \<longleftrightarrow> s = [] \<or> hd s = 41"

lemma skip_white_simps [simp]: "skip_white [] = []" "\<not> is_white c \<Longrightarrow> skip_white (c # s) = c # s" "is_white c \<Longrightarrow> skip_white (c # s) = skip_white s"
  by (simp_all add: skip_white_def)

lemma white_simps [simp]: "\<not> is_white 40" "\<not> is_white 41" "\<not> is_white 60" "\<not> is_white 62" "\<not> is_white 124" "\<not> is_white 59" "\<not> is_white 38" "is_white 32"
  by (simp_all add: is_white_def)

lemma stops_skip [simp]: "stops s \<Longrightarrow> skip_white s = s"
  by (cases s) (auto simp: stops_def)

lemma peek_simps [simp]: "\<not> peek [] toks" "\<not> is_white c \<Longrightarrow> peek (c # s) toks = (c \<in> set toks)"
  by (simp_all add: peek_def)

lemma gettoken_symbol [simp]: "c \<in> set [124, 40, 41, 59, 38, 60] \<Longrightarrow> gettoken (c # s) = (c, [c], skip_white s)"
  by (auto simp: gettoken_def)

lemma gettoken_word:
  assumes "is_word w" "s = [] \<or> is_white (hd s) \<or> is_symbol (hd s)"
  shows "gettoken (w @ s) = (97, w, skip_white s)"
proof -
  obtain c v where w: "w = c # v" using assms(1) by (cases w) (auto simp: is_word_def)
  have "takeWhile (\<lambda>x. \<not> is_white x \<and> \<not> is_symbol x) (w @ s) = w"
    using assms by (cases s) (auto simp: is_word_def list_all_iff takeWhile_append2)
  moreover have "\<not> is_white c" "\<not> is_symbol c" using assms(1) w by (simp_all add: is_word_def)
  ultimately show ?thesis using w by (auto simp: gettoken_def is_symbol_def Let_def)
qed

lemma parseredirs_none: "\<not> peek s [60, 62] \<Longrightarrow> parseredirs c s = Inr (c, skip_white s)"
  by (subst parseredirs.simps) simp

text \<open>The front of a printed command without parentheses.\<close>

lemma exec_front:
  assumes "list_all is_word argv" "stops r"
  defines "s \<equiv> concat (map (\<lambda>w. w @ [32]) argv) @ r"
  shows "skip_white s = s" "\<not> peek s [60, 62]" "\<not> peek s [40]" "argv \<noteq> [] \<Longrightarrow> \<not> peek s [124, 41, 38, 59]"
proof -
  have "skip_white s = s \<and> \<not> peek s [60, 62] \<and> \<not> peek s [40] \<and> (argv \<noteq> [] \<longrightarrow> \<not> peek s [124, 41, 38, 59])"
  proof (cases argv)
    case Nil
    then show ?thesis using assms(2) by (cases r) (auto simp: s_def stops_def)
  next
    case (Cons w argv')
    then obtain c v where "w = c # v" "\<not> is_white c" "\<not> is_symbol c" using assms(1) by (cases w) (auto simp: is_word_def)
    then show ?thesis using Cons by (auto simp: s_def is_symbol_def)
  qed
  then show "skip_white s = s" "\<not> peek s [60, 62]" "\<not> peek s [40]" "argv \<noteq> [] \<Longrightarrow> \<not> peek s [124, 41, 38, 59]" by auto
qed

lemma parseargs_words:
  assumes "list_all is_word args" "length (argv @ args) < 10" "stops r"
  shows "parseargs argv (Exec []) (concat (map (\<lambda>w. w @ [32]) args) @ r) = Inr (Exec (argv @ args), r)"
  using assms
proof (induction args arbitrary: argv)
  case Nil
  then show ?case by (cases r; subst parseargs.simps) (simp_all add: stops_def gettoken_def)
next
  case (Cons w args)
  let ?s = "concat (map (\<lambda>w. w @ [32]) args) @ r"
  have f: "skip_white ?s = ?s" "\<not> peek ?s [60, 62]" using exec_front[of args r] Cons.prems by auto
  have "\<not> peek (w @ 32 # ?s) [124, 41, 38, 59]" using exec_front(4)[of "w # args" r] Cons.prems(1,3) by simp
  moreover have "gettoken (w @ 32 # ?s) = (97, w, ?s)" using gettoken_word[of w "32 # ?s"] Cons.prems(1) f(1) by simp
  moreover have "parseredirs (Exec []) ?s = Inr (Exec [], ?s)" using parseredirs_none[OF f(2)] f(1) by simp
  moreover have "parseargs (argv @ [w]) (Exec []) ?s = Inr (Exec ((argv @ [w]) @ args), r)" using Cons by simp
  ultimately show ?case using Cons.prems(2) by (subst parseargs.simps) simp
qed

lemma print_front: "wf_cmd c \<Longrightarrow> stops r \<Longrightarrow> skip_white (print c @ r) = print c @ r"
  using exec_front(1) by (cases c) auto

lemma parsebacks_none: "\<not> peek s [38] \<Longrightarrow> parsebacks c s = (c, skip_white s)"
  by (subst parsebacks.simps) simp

lemma stops_peek: "stops r \<Longrightarrow> 41 \<notin> set toks \<Longrightarrow> \<not> peek r toks"
  by (cases r) (auto simp: stops_def)

lemma pipe_alone: "parseexec j s = Some (Inr (c, r)) \<Longrightarrow> \<not> peek r [124] \<Longrightarrow> skip_white r = r \<Longrightarrow> parsepipe (Suc j) s = Some (Inr (c, r))"
  by simp

lemma line_alone: "parsepipe j s = Some (Inr (c, r)) \<Longrightarrow> stops r \<Longrightarrow> parseline (Suc j) s = Some (Inr (c, r))"
  using parsebacks_none[of r c] stops_peek[of r "[38]"] stops_peek[of r "[59]"] by simp

lemma parseexec_block:
  assumes "\<And>k. 4 * length (print c @ 41 # r) + 4 \<le> k \<Longrightarrow> parseline k (print c @ 41 # r) = Some (Inr (c, 41 # r))"
    "wf_cmd c" "skip_white r = r" "4 * length (40 # print c @ 41 # r) + 2 \<le> k"
  shows "parseexec k (40 # print c @ 41 # r) = Some (parseredirs c r)"
proof -
  have k: "k = Suc (Suc (k - 2))" using assms(4) by simp
  have "stops (41 # r)" by (simp add: stops_def)
  then have "skip_white (print c @ 41 # r) = print c @ 41 # r" by (rule print_front[OF assms(2)])
  moreover have "parseline (k - 2) (print c @ 41 # r) = Some (Inr (c, 41 # r))" using assms(1)[of "k - 2"] assms(4) by simp
  ultimately show ?thesis using assms(3) by (subst k) simp
qed

lemma parseredirs_one:
  assumes "is_word f" "stops r" "m = O_RDONLY \<and> fd = 0 \<or> m = O_WRONLY_CREATE \<and> fd = 1"
  shows "parseredirs c ((if fd = 0 then 60 else 62) # f @ r) = Inr (Redir c f m fd, r)"
proof -
  obtain x v where f: "f = x # v" "\<not> is_white x" "\<not> is_symbol x" using assms(1) by (cases f) (auto simp: is_word_def)
  have w: "gettoken (f @ r) = (97, f, r)" using gettoken_word[OF assms(1), of r] assms(2) by (auto simp: stops_def is_symbol_def)
  have "gettoken (62 # f @ r) = (62, [62], f @ r)" using f by (auto simp: gettoken_def is_symbol_def)
  moreover have "gettoken (60 # f @ r) = (60, [60], f @ r)" using f by simp
  moreover have "parseredirs c' r = Inr (c', r)" for c' using parseredirs_none[of r c'] stops_peek[OF assms(2), of "[60, 62]"] assms(2) by simp
  ultimately show ?thesis using assms(3) w by (subst parseredirs.simps) auto
qed

lemma parse_print:
  assumes "wf_cmd c" "stops r" "4 * length (print c @ r) + 4 \<le> k"
  shows "parseline k (print c @ r) = Some (Inr (c, r))"
  using assms
proof (induction c arbitrary: k r)
  case (Exec argv)
  have k: "k = Suc (Suc (Suc (k - 3)))" using Exec.prems(3) by simp
  let ?s = "print (Exec argv) @ r"
  have f: "skip_white ?s = ?s" "\<not> peek ?s [60, 62]" "\<not> peek ?s [40]" using exec_front[of argv r] Exec.prems by auto
  have "parseexec (Suc (k - 3)) ?s = Some (Inr (Exec argv, r))"
    using f parseredirs_none[OF f(2)] parseargs_words[of argv "[]" r] Exec.prems(1,2) by simp
  then show ?case using Exec.prems(2) stops_peek[of r "[124]"] by (subst k) (intro line_alone pipe_alone, simp_all)
next
  case (Redir c f m fd)
  let ?r = "(if fd = 0 then 60 else 62) # f @ r"
  have k: "k = Suc (Suc (k - 2))" using Redir.prems(3) by simp
  have "parseexec (k - 2) (40 # print c @ 41 # ?r) = Some (parseredirs c ?r)"
    by (rule parseexec_block) (use Redir in \<open>auto simp: stops_def\<close>)
  also have "\<dots> = Some (Inr (Redir c f m fd, r))" using parseredirs_one[of f r m fd c] Redir.prems(1,2) by simp
  finally show ?case using Redir.prems(2) stops_peek[of r "[124]"] by (subst k) (intro line_alone pipe_alone, simp_all)
next
  case (Pipe c1 c2)
  let ?r = "124 # 40 # print c2 @ 41 # r"
  have k: "k = Suc (Suc (Suc (k - 3)))" using Pipe.prems(3) by simp
  have "parseexec (Suc (k - 3)) (40 # print c1 @ 41 # ?r) = Some (parseredirs c1 ?r)"
    by (rule parseexec_block) (use Pipe in \<open>auto simp: stops_def\<close>)
  then have e1: "parseexec (Suc (k - 3)) (40 # print c1 @ 41 # ?r) = Some (Inr (c1, ?r))" using parseredirs_none[of ?r c1] by simp
  have "parseexec (k - 3) (40 # print c2 @ 41 # r) = Some (parseredirs c2 r)"
    by (rule parseexec_block) (use Pipe in \<open>auto simp: stops_def\<close>)
  then have "parseexec (k - 3) (40 # print c2 @ 41 # r) = Some (Inr (c2, r))"
    using parseredirs_none[of r c2] stops_peek[OF Pipe.prems(2), of "[60, 62]"] Pipe.prems(2) by simp
  then have "parsepipe (Suc (k - 3)) (40 # print c2 @ 41 # r) = Some (Inr (c2, r))"
    using Pipe.prems(2) stops_peek[of r "[124]"] by (intro pipe_alone) simp_all
  then have "parsepipe (Suc (Suc (k - 3))) (40 # print c1 @ 41 # ?r) = Some (Inr (Pipe c1 c2, r))" using e1 by simp
  then show ?case using Pipe.prems(2) by (subst k) (intro line_alone, simp_all)
next
  case (List c1 c2)
  let ?r = "59 # 40 # print c2 @ 41 # r"
  have k: "k = Suc (Suc (Suc (k - 3)))" using List.prems(3) by simp
  have "parseexec (Suc (k - 3)) (40 # print c1 @ 41 # ?r) = Some (parseredirs c1 ?r)"
    by (rule parseexec_block) (use List in \<open>auto simp: stops_def\<close>)
  then have "parsepipe (Suc (Suc (k - 3))) (40 # print c1 @ 41 # ?r) = Some (Inr (c1, ?r))"
    using parseredirs_none[of ?r c1] by (intro pipe_alone) simp_all
  moreover have "parseexec (k - 3) (40 # print c2 @ 41 # r) = Some (parseredirs c2 r)"
    by (rule parseexec_block) (use List in \<open>auto simp: stops_def\<close>)
  then have "parseexec (k - 3) (40 # print c2 @ 41 # r) = Some (Inr (c2, r))"
    using parseredirs_none[of r c2] stops_peek[OF List.prems(2), of "[60, 62]"] List.prems(2) by simp
  then have "parseline (Suc (Suc (k - 3))) (40 # print c2 @ 41 # r) = Some (Inr (c2, r))"
    using List.prems(2) stops_peek[of r "[124]"] by (intro line_alone pipe_alone) simp_all
  ultimately show ?case using parsebacks_none[of ?r c1] by (subst k) simp
next
  case (Back c)
  let ?r = "38 # r"
  have k: "k = Suc (Suc (k - 2))" using Back.prems(3) by simp
  have "parseexec (k - 2) (40 # print c @ 41 # ?r) = Some (parseredirs c ?r)"
    by (rule parseexec_block) (use Back in \<open>auto simp: stops_def\<close>)
  then have "parsepipe (Suc (k - 2)) (40 # print c @ 41 # ?r) = Some (Inr (c, ?r))"
    using parseredirs_none[of ?r c] by (intro pipe_alone) simp_all
  moreover have "parsebacks c ?r = (Back c, r)"
    using parsebacks_none[of r "Back c"] stops_peek[OF Back.prems(2), of "[38]"] Back.prems(2) by (subst parsebacks.simps) simp
  ultimately show ?case using stops_peek[OF Back.prems(2), of "[59]"] by (subst k) simp
qed

text \<open>
  C17. The parser is an inverse of printing with full parentheses: every command with at most nine arguments in each simple command is
  recovered from its text, with its pipes, lists, redirections and background marks in place.
\<close>

theorem parsecmd_print:
  assumes "wf_cmd c"
  shows "parsecmd (print c) = Some (Inr c)"
  using parse_print[OF assms, of "[]"] by (simp add: parsecmd_def stops_def)

theorem parsecmd_print_witness:
  "parsecmd (print (List (Back (Pipe (Exec [[108, 115]]) (Redir (Exec [[119, 99]]) [102] O_WRONLY_CREATE 1))) (Exec []))) =
     Some (Inr (List (Back (Pipe (Exec [[108, 115]]) (Redir (Exec [[119, 99]]) [102] O_WRONLY_CREATE 1))) (Exec [])))"
  by (rule parsecmd_print) (simp add: is_word_def is_white_def is_symbol_def)

end
