(* ===== verification/Ide.thy ===== *)
theory Ide
  imports Bcache
begin

text \<open>
  The driver for a real disk, \<^verbatim>\<open>ide.c\<close>, which kernels that are not built around a disk in memory use: a queue of buffers
  through their \<open>qnext\<close> fields, of which the first is at the disk, and an interrupt for each finished request. What the ports deliver comes from
  the device: the status bytes still to be read are part of the state, and the data of a read is an argument of the interrupt.
\<close>

section \<open>State\<close>

datatype port_out = Outb nat u8 | Outsl "u8 list"

record idest = biost +
  idequeue :: "nat option"
  qnext :: "nat \<Rightarrow> nat option"
  havedisk1 :: bool
  ide_in :: "u8 list"
  ide_out :: "port_out list"

section \<open>The driver\<close>

text \<open>\<open>idewait\<close> reads the status until the disk is ready; it spins when the status is never that.\<close>

definition idewait :: "bool \<Rightarrow> (int, 'z idest_scheme) kmon" where
  "idewait checkerr s =
     (case dropWhile (\<lambda>r. r AND 0xC0 \<noteq> 0x40) (ide_in s) of
        [] \<Rightarrow> Spn
      | r # rs \<Rightarrow> Ret (if checkerr \<and> r AND 0x21 \<noteq> 0 then -1 else 0) (s\<lparr>ide_in := rs\<rparr>))"

definition out :: "port_out \<Rightarrow> (unit, 'z idest_scheme) kmon" where
  "out x = modify (\<lambda>s. s\<lparr>ide_out := ide_out s @ [x]\<rparr>)"

text \<open>
  The probe for the second disk reads the status at most 1000 times. The calls that route the interrupt to a processor are not part of the model.
\<close>

fun probe :: "nat \<Rightarrow> u8 list \<Rightarrow> bool \<times> u8 list" where
  "probe 0 rs = (False, rs)"
| "probe (Suc n) [] = (False, [])"
| "probe (Suc n) (r # rs) = (if r \<noteq> 0 then (True, rs) else probe n rs)"

definition pio_ideinit :: "(unit, 'z idest_scheme) kmon" where
  "pio_ideinit =
     thn (modify (upd_lock Lide (initlock (LkStr ''ide''))))
     (bnd (idewait False) (\<lambda>_.
      thn (out (Outb 0x1f6 0xf0))
      (thn (modify (\<lambda>s. let (found, rs) = probe 1000 (ide_in s) in s\<lparr>havedisk1 := found \<or> havedisk1 s, ide_in := rs\<rparr>))
      (out (Outb 0x1f6 0xe0)))))"

definition idestart :: "nat option \<Rightarrow> (unit, 'z idest_scheme) kmon" where
  "idestart b =
     (case b of
        None \<Rightarrow> panic ''idestart''
      | Some b \<Rightarrow>
          bnd (getb b) (\<lambda>x.
          bnd (idewait False) (\<lambda>_.
          thn (out (Outb 0x3f6 0))
          (thn (out (Outb 0x1f2 1))
          (thn (out (Outb 0x1f3 (ucast (b_sector x AND 0xff))))
          (thn (out (Outb 0x1f4 (ucast (drop_bit 8 (b_sector x) AND 0xff))))
          (thn (out (Outb 0x1f5 (ucast (drop_bit 16 (b_sector x) AND 0xff))))
          (thn (out (Outb 0x1f6 (0xe0 OR push_bit 4 (ucast (b_dev x AND 1)) OR ucast (drop_bit 24 (b_sector x) AND 0x0f))))
          (if b_dirty x
           then thn (out (Outb 0x1f7 0x30)) (out (Outsl (b_data x)))
           else out (Outb 0x1f7 0x20))))))))))"

definition pio_ideintr :: "u8 list \<Rightarrow> (unit, 'z idest_scheme) kmon" where
  "pio_ideintr dat =
     thn (acquire Lide)
     (bnd (gets idequeue) (\<lambda>q.
        case q of
          None \<Rightarrow> release Lide
        | Some b \<Rightarrow>
            thn (modify (\<lambda>s. s\<lparr>idequeue := qnext s b\<rparr>))
            (bnd (getb b) (\<lambda>x.
             thn (if \<not> b_dirty x
                  then bnd (idewait True) (\<lambda>r. if r \<ge> 0 then updb b (\<lambda>x. x\<lparr>b_data := dat\<rparr>) else skip)
                  else skip)
             (thn (updb b (\<lambda>x. x\<lparr>b_valid := True\<rparr>))
             (thn (updb b (\<lambda>x. x\<lparr>b_dirty := False\<rparr>))
             (thn (wakeup (ChBuf b))
             (thn (bnd (gets idequeue) (\<lambda>q. if q \<noteq> None then idestart q else skip))
             (release Lide)))))))))"

text \<open>The last buffer of the queue that starts with \<open>b\<close>; the queue has at most \<open>NBUF\<close> buffers.\<close>

fun queue_last :: "nat \<Rightarrow> nat \<Rightarrow> (nat, 'z idest_scheme) kmon" where
  "queue_last 0 b = (\<lambda>s. Spn)"
| "queue_last (Suc fuel) b = bnd (gets (\<lambda>s. qnext s b)) (\<lambda>n. case n of None \<Rightarrow> ret b | Some b' \<Rightarrow> queue_last fuel b')"

definition enqueue :: "nat \<Rightarrow> (unit, 'z idest_scheme) kmon" where
  "enqueue b =
     thn (modify (\<lambda>s. s\<lparr>qnext := (qnext s)(b := None)\<rparr>))
     (bnd (gets idequeue) (\<lambda>q.
        case q of
          None \<Rightarrow> modify (\<lambda>s. s\<lparr>idequeue := Some b\<rparr>)
        | Some h \<Rightarrow> bnd (queue_last (Suc NBUF) h) (\<lambda>l. modify (\<lambda>s. s\<lparr>qnext := (qnext s)(l := Some b)\<rparr>))))"

text \<open>The wait for the request, with \<open>idelock\<close> held; \<open>pio_iderw_return\<close> is the rest after the sleep.\<close>

definition iderw_wait :: "nat \<Rightarrow> (unit, 'z idest_scheme) kmon" where
  "iderw_wait b =
     bnd (getb b) (\<lambda>x.
       if \<not> (b_valid x \<and> \<not> b_dirty x) then sleep (ChBuf b) (Some Lide)
       else release Lide)"

definition pio_iderw_return :: "bool \<Rightarrow> nat \<Rightarrow> (unit, 'z idest_scheme) kmon" where
  "pio_iderw_return ie b = thn (sleep_return ie Lide) (iderw_wait b)"

definition pio_iderw :: "nat \<Rightarrow> (unit, 'z idest_scheme) kmon" where
  "pio_iderw b =
     bnd (getb b) (\<lambda>x.
       if \<not> b_busy x then panic ''iderw: buf not busy''
       else if b_valid x \<and> \<not> b_dirty x then panic ''iderw: nothing to do''
       else bnd (gets havedisk1) (\<lambda>d1.
         if b_dev x \<noteq> 0 \<and> \<not> d1 then panic ''iderw: ide disk 1 not present''
         else
           thn (acquire Lide)
           (thn (enqueue b)
           (thn (bnd (gets idequeue) (\<lambda>q. if q = Some b then idestart (Some b) else skip))
           (iderw_wait b)))))"

section \<open>The queue\<close>

fun qlinked :: "(nat \<Rightarrow> nat option) \<Rightarrow> nat option \<Rightarrow> nat list \<Rightarrow> bool" where
  "qlinked nx q [] \<longleftrightarrow> q = None"
| "qlinked nx q (b # bs) \<longleftrightarrow> q = Some b \<and> qlinked nx (nx b) bs"

definition ide_q :: "nat list \<Rightarrow> 'z idest_scheme \<Rightarrow> bool" where
  "ide_q qs s \<longleftrightarrow> qlinked (qnext s) (idequeue s) qs \<and> distinct qs \<and> length qs \<le> NBUF"

lemma idest_acq [simp]:
  "idequeue (acq l s) = idequeue s" "qnext (acq l s) = qnext s" "ide_in (acq l s) = ide_in s" "ide_out (acq l s) = ide_out s"
  "havedisk1 (acq l s) = havedisk1 s" "idequeue (rel l s) = idequeue s" "qnext (rel l s) = qnext s" "ide_in (rel l s) = ide_in s"
  "ide_out (rel l s) = ide_out s" "havedisk1 (rel l s) = havedisk1 s"
  by (simp_all add: acq_def rel_def)

lemma idest_upd_locks [simp]:
  "lk_free l (s\<lparr>idequeue := q\<rparr>) = lk_free l s" "lk_held l (s\<lparr>idequeue := q\<rparr>) = lk_held l s" "cli_ok (s\<lparr>idequeue := q\<rparr>) = cli_ok s"
  "the_cpu (s\<lparr>idequeue := q\<rparr>) = the_cpu s"
  "lk_free l (s\<lparr>qnext := n\<rparr>) = lk_free l s" "lk_held l (s\<lparr>qnext := n\<rparr>) = lk_held l s" "cli_ok (s\<lparr>qnext := n\<rparr>) = cli_ok s"
  "the_cpu (s\<lparr>qnext := n\<rparr>) = the_cpu s"
  "lk_free l (s\<lparr>ide_in := i\<rparr>) = lk_free l s" "lk_held l (s\<lparr>ide_in := i\<rparr>) = lk_held l s" "cli_ok (s\<lparr>ide_in := i\<rparr>) = cli_ok s"
  "the_cpu (s\<lparr>ide_in := i\<rparr>) = the_cpu s"
  "lk_free l (s\<lparr>ide_out := o'\<rparr>) = lk_free l s" "lk_held l (s\<lparr>ide_out := o'\<rparr>) = lk_held l s" "cli_ok (s\<lparr>ide_out := o'\<rparr>) = cli_ok s"
  "the_cpu (s\<lparr>ide_out := o'\<rparr>) = the_cpu s"
  by (simp_all add: lk_defs)

lemma qlinked_upd: "b \<notin> set qs \<Longrightarrow> qlinked (nx(b := v)) q qs = qlinked nx q qs"
  by (induction qs arbitrary: q) auto

lemma qlinked_append: "qlinked nx (Some h) (h # bs) \<Longrightarrow> distinct (h # bs) \<Longrightarrow> b \<notin> set (h # bs) \<Longrightarrow> nx b = None \<Longrightarrow>
    qlinked (nx(last (h # bs) := Some b)) (Some h) ((h # bs) @ [b])"
proof (induction bs arbitrary: h)
  case (Cons c bs)
  then have "last (c # bs) \<noteq> h" using last_in_set[of "c # bs"] by auto
  then show ?case using Cons by simp
qed simp

lemma queue_last_Ret: "qlinked (qnext s) (Some h) (h # bs) \<Longrightarrow> length bs < fuel \<Longrightarrow> queue_last fuel h s = Ret (last (h # bs)) s"
  by (induction bs arbitrary: h fuel) (case_tac fuel; auto simp: mon_defs)+

lemma enqueue_Ret:
  assumes "ide_q qs s" "b \<notin> set qs" "length qs < NBUF"
  shows "\<exists>q n. enqueue b s = Ret () (s\<lparr>idequeue := q, qnext := n\<rparr>) \<and> ide_q (qs @ [b]) (s\<lparr>idequeue := q, qnext := n\<rparr>)"
proof (cases qs)
  case Nil
  then show ?thesis using assms
    by (intro exI[of _ "Some b"] exI[of _ "(qnext s)(b := None)"]) (simp add: enqueue_def ide_q_def mon_defs)
next
  case (Cons h bs)
  let ?s = "s\<lparr>qnext := (qnext s)(b := None)\<rparr>"
  have l: "qlinked (qnext ?s) (Some h) (h # bs)" "idequeue s = Some h" "distinct (h # bs)" "b \<notin> set (h # bs)"
    using assms Cons by (auto simp: ide_q_def qlinked_upd)
  have "queue_last (Suc NBUF) h ?s = Ret (last (h # bs)) ?s" using queue_last_Ret[OF l(1), of "Suc NBUF"] assms(3) Cons by simp
  then have e: "enqueue b s = Ret () (s\<lparr>qnext := (qnext ?s)(last (h # bs) := Some b)\<rparr>)" using l(2) by (simp add: enqueue_def mon_defs del: queue_last.simps)
  have "qlinked ((qnext ?s)(last (h # bs) := Some b)) (Some h) ((h # bs) @ [b])" using l by (intro qlinked_append) simp_all
  then show ?thesis using e l(2-4) Cons assms(3)
    by (intro exI[of _ "Some h"] exI[of _ "(qnext ?s)(last (h # bs) := Some b)"]) (auto simp: ide_q_def)
qed

section \<open>Requests\<close>

text \<open>A device that is ready, without an error, at each of its next answers.\<close>

definition good_device :: "'z idest_scheme \<Rightarrow> bool" where
  "good_device s \<longleftrightarrow> 2 \<le> length (ide_in s) \<and> list_all (\<lambda>r. r AND 0xC0 = 0x40 \<and> r AND 0x21 = 0) (ide_in s)"

definition request :: "buf \<Rightarrow> port_out list" where
  "request x = [Outb 0x3f6 0, Outb 0x1f2 1, Outb 0x1f3 (ucast (b_sector x)), Outb 0x1f4 (ucast (drop_bit 8 (b_sector x))),
     Outb 0x1f5 (ucast (drop_bit 16 (b_sector x))),
     Outb 0x1f6 (0xe0 OR push_bit 4 (ucast (b_dev x AND 1)) OR ucast (drop_bit 24 (b_sector x) AND 0x0f))] @
     (if b_dirty x then [Outb 0x1f7 0x30, Outsl (b_data x)] else [Outb 0x1f7 0x20])"

lemma ucast_low: "ucast (w AND 0xff :: u32) = (ucast w :: u8)"
proof -
  have "w AND 0xff = take_bit 8 w" by (simp add: take_bit_eq_mask mask_eq_exp_minus_1)
  then show ?thesis by (auto simp: bit_simps intro!: bit_word_eqI)
qed

lemma idewait_Ret: "ide_in s = r # rs \<Longrightarrow> r AND 0xC0 = 0x40 \<Longrightarrow> r AND 0x21 = 0 \<Longrightarrow> idewait e s = Ret 0 (s\<lparr>ide_in := rs\<rparr>)"
  by (simp add: idewait_def)

lemma idestart_Ret:
  assumes "b < length (bufs s)" "ide_in s = r # rs" "r AND 0xC0 = 0x40" "r AND 0x21 = 0"
  shows "idestart (Some b) s = Ret () (s\<lparr>ide_in := rs, ide_out := ide_out s @ request (bufs s ! b)\<rparr>)"
  using assms idewait_Ret[OF assms(2-4), of False]
  by (simp add: idestart_def mon_defs getb_def out_def request_def ucast_low)

lemma pio_iderw_Swt:
  assumes q: "ide_q qs s" "b \<notin> set qs" "length qs < NBUF" "good_device s"
    and x: "b < length (bufs s)" "b_busy (bufs s ! b)" "\<not> (b_valid (bufs s ! b) \<and> \<not> b_dirty (bufs s ! b))" "b_dev (bufs s ! b) = 0 \<or> havedisk1 s"
    and r: "runs me s" "ncli (the_cpu s) = 0" "lk_free Lide s"
  shows "\<exists>t. pio_iderw b s = Swt t \<and> ide_q (qs @ [b]) t \<and> bufs t = bufs s \<and> lk_free Lide t \<and>
    ide_out t = ide_out s @ (if qs = [] then request (bufs s ! b) else []) \<and>
    ptable t = (ptable s)[me := (ptable s ! me)\<lparr>p_chan := ChBuf b, p_state := SLEEPING\<rparr>]"
proof -
  let ?a = "acq Lide s"
  obtain q n where e: "enqueue b ?a = Ret () (?a\<lparr>idequeue := q, qnext := n\<rparr>)" "ide_q (qs @ [b]) (?a\<lparr>idequeue := q, qnext := n\<rparr>)"
    using enqueue_Ret[of qs ?a b] q(1-3) by (auto simp: ide_q_def)
  let ?b = "?a\<lparr>idequeue := q, qnext := n\<rparr>"
  have qb: "q = Some b \<longleftrightarrow> qs = []" using e(2) q(2) by (cases qs) (auto simp: ide_q_def)
  obtain r1 rs where i: "ide_in s = r1 # rs" "r1 AND 0xC0 = 0x40" "r1 AND 0x21 = 0" using q(4) by (cases "ide_in s") (auto simp: good_device_def)
  define c where "c = (if qs = [] then ?b\<lparr>ide_in := rs, ide_out := ide_out s @ request (bufs s ! b)\<rparr> else ?b)"
  have st: "(if q = Some b then idestart (Some b) else skip) ?b = Ret () c"
    using idestart_Ret[of b ?b r1 rs] x(1) i qb by (simp add: c_def mon_defs)
  have c: "bufs c = bufs s" "idequeue c = q" "qnext c = n" "ptable c = ptable s" "lk_held Lide c" "lk_free Lptable c" "ncli (the_cpu c) = 1"
    "cpu_proc (the_cpu c) = Some me" "ide_out c = ide_out s @ (if qs = [] then request (bufs s ! b) else [])"
    using r by (auto simp: c_def runs_def)
  let ?t = "(rel Lide (acq Lptable c))\<lparr>ptable := (ptable s)[me := (ptable s ! me)\<lparr>p_chan := ChBuf b, p_state := SLEEPING\<rparr>]\<rparr>"
  have "sleep (ChBuf b) (Some Lide) c = Swt ?t" using sleep_Swt[of c me Lide "ChBuf b"] c r(1) by (simp add: runs_def)
  then have "iderw_wait b c = Swt ?t" using c(1) x(1,3) by (simp add: iderw_wait_def mon_defs getb_def)
  then have "pio_iderw b s = Swt ?t" using e(1) st x r(3) by (simp add: pio_iderw_def mon_defs getb_def acquire_free)
  moreover have "ide_q (qs @ [b]) ?t" using e(2) c(2,3) by (simp add: ide_q_def)
  ultimately show ?thesis using c by (intro exI[of _ ?t]) simp
qed

lemma pio_ideintr_Ret:
  assumes q: "ide_q (b # qs) s" "good_device s" "\<forall>c \<in> set (b # qs). c < length (bufs s)"
    and r: "lk_free Lide s" "lk_free Lptable s" "cli_ok s"
  defines "x \<equiv> bufs s ! b"
  shows "\<exists>t. pio_ideintr dat s = Ret () t \<and> ide_q qs t \<and> lk_free Lide t \<and>
    bufs t = (bufs s)[b := (if b_dirty x then x else x\<lparr>b_data := dat\<rparr>)\<lparr>b_valid := True, b_dirty := False\<rparr>] \<and>
    ide_out t = ide_out s @ (if qs = [] then [] else request (bufs s ! hd qs)) \<and> ptable t = map (wakeup_proc (ChBuf b)) (ptable s)"
proof -
  obtain r1 r2 rs where i: "ide_in s = r1 # r2 # rs" "r1 AND 0xC0 = 0x40" "r1 AND 0x21 = 0" "r2 AND 0xC0 = 0x40" "r2 AND 0x21 = 0"
    using q(2) by (cases "ide_in s"; cases "tl (ide_in s)") (auto simp: good_device_def)
  have b: "b < length (bufs s)" "idequeue s = Some b" "qlinked (qnext s) (qnext s b) qs" "distinct (b # qs)" "length qs \<le> NBUF"
    using q by (auto simp: ide_q_def)
  let ?y = "(if b_dirty x then x else x\<lparr>b_data := dat\<rparr>)\<lparr>b_valid := True, b_dirty := False\<rparr>"
  define u where "u = (if b_dirty x then (acq Lide s)\<lparr>idequeue := qnext s b, bufs := (bufs s)[b := ?y]\<rparr>
    else (acq Lide s)\<lparr>idequeue := qnext s b, ide_in := r2 # rs, bufs := (bufs s)[b := ?y]\<rparr>)"
  let ?w = "(rel Lptable (acq Lptable u))\<lparr>ptable := map (wakeup_proc (ChBuf b)) (ptable s)\<rparr>"
  have n: "0 \<le> ncli (the_cpu s)" using r(3) by (simp add: cli_ok_def)
  have u: "lk_free Lptable u" "cli_ok u" "ptable u = ptable s" "lk_held Lide u" using r by (auto simp: u_def)
  have wk: "wakeup (ChBuf b) u = Ret () ?w" using wakeup_Ret[OF u(1,2)] u(3) by simp
  have hw: "lk_held Lide ?w" using u(4) r(3) n by (simp add: u_def)
  obtain t where t: "(bnd (gets idequeue) (\<lambda>q. if q \<noteq> None then idestart q else skip)) ?w = Ret () t" "lk_held Lide t" "bufs t = bufs u" "idequeue t = qnext s b"
    "qnext t = qnext s" "ide_out t = ide_out s @ (if qs = [] then [] else request (bufs s ! hd qs))" "ptable t = ptable ?w"
  proof (cases qs)
    case Nil
    then show ?thesis using that[of ?w] b(3) hw by (simp add: mon_defs u_def)
  next
    case (Cons c cs)
    have c: "c < length (bufs s)" "c \<noteq> b" "qnext s b = Some c" using q(3) b(3,4) Cons by auto
    obtain r3 rs3 where "ide_in ?w = r3 # rs3" "r3 AND 0xC0 = 0x40" "r3 AND 0x21 = 0" using i by (cases "b_dirty x") (auto simp: u_def)
    then have "idestart (Some c) ?w = Ret () (?w\<lparr>ide_in := rs3, ide_out := ide_out s @ request (bufs s ! c)\<rparr>)"
      using idestart_Ret[of c ?w r3 rs3] c by (simp add: u_def)
    then show ?thesis using that[of "?w\<lparr>ide_in := rs3, ide_out := ide_out s @ request (bufs s ! c)\<rparr>"] c hw Cons by (simp add: mon_defs u_def)
  qed
  have "pio_ideintr dat s = thn (wakeup (ChBuf b)) (thn (bnd (gets idequeue) (\<lambda>q. if q \<noteq> None then idestart q else skip)) (release Lide)) u"
    using b i idewait_Ret[of "(acq Lide s)\<lparr>idequeue := qnext s b\<rparr>" r1 "r2 # rs" True] r(1)
    by (simp add: pio_ideintr_def mon_defs getb_def updb_def acquire_free u_def x_def)
  also have "\<dots> = Ret () (rel Lide t)" using wk t(1,2) by (simp add: thn_def bnd_def release_held)
  finally show ?thesis using t b u_def by (intro exI[of _ "rel Lide t"]) (simp add: ide_q_def)
qed

text \<open>The registers that a request sets name its sector.\<close>

lemma request_sector:
  fixes x :: buf
  assumes "b_sector x < 2 ^ 28"
  defines "lo \<equiv> ucast (b_sector x) :: u8" and "mi \<equiv> ucast (drop_bit 8 (b_sector x)) :: u8" and "hi \<equiv> ucast (drop_bit 16 (b_sector x)) :: u8"
    and "tp \<equiv> (0xe0 OR push_bit 4 (ucast (b_dev x AND 1)) OR ucast (drop_bit 24 (b_sector x) AND 0x0f)) AND 0x0f :: u8"
  shows "ucast lo OR push_bit 8 (ucast mi) OR push_bit 16 (ucast hi) OR push_bit 24 (ucast tp) = b_sector x"
proof -
  let ?s = "b_sector x"
  have f: "(0x0f :: u8) = mask 4" "(0x0f :: u32) = mask 4" by (simp_all add: mask_eq_exp_minus_1)
  have "push_bit 4 (y :: u8) AND 0x0f = 0" for y unfolding f by (simp add: take_bit_eq_mask[symmetric] take_bit_push_bit)
  then have "tp = ucast (drop_bit 24 ?s AND 0x0f) AND 0x0f" unfolding tp_def by (simp add: bit.conj_disj_distrib2)
  then have tp: "tp = take_bit 4 (ucast (take_bit 4 (drop_bit 24 ?s)))" unfolding f by (simp add: take_bit_eq_mask)
  have "unat ?s < 2 ^ 28" using assms(1) by (simp add: word_less_nat_alt)
  then have "unat (take_bit 28 ?s) = unat ?s" by (simp add: unsigned_take_bit_eq take_bit_nat_eq_self)
  then have e: "take_bit 28 ?s = ?s" by (rule word_unat_eq_iff[THEN iffD2])
  show ?thesis
  proof (rule bit_word_eqI)
    fix n assume n: "n < LENGTH(32)"
    have b: "bit (ucast lo :: u32) n = (n < 8 \<and> bit ?s n)" "bit (push_bit 8 (ucast mi) :: u32) n = (8 \<le> n \<and> n < 16 \<and> bit ?s n)"
      "bit (push_bit 16 (ucast hi) :: u32) n = (16 \<le> n \<and> n < 24 \<and> bit ?s n)" "bit (push_bit 24 (ucast tp) :: u32) n = (24 \<le> n \<and> n < 28 \<and> bit ?s n)"
      using n unfolding lo_def mi_def hi_def tp by (auto simp: bit_simps)
    have "n < 28" if "bit ?s n"
    proof -
      have "bit (take_bit 28 ?s) n" using that unfolding e .
      then show ?thesis by (simp add: bit_take_bit_iff)
    qed
    then show "bit (ucast lo OR push_bit 8 (ucast mi) OR push_bit 16 (ucast hi) OR push_bit 24 (ucast tp) :: u32) n = bit ?s n"
      unfolding bit_or_iff b by auto
  qed
qed

text \<open>What the disk in memory leaves of the buffer.\<close>

lemma iderw_bufs:
  assumes "b < length (bufs s)" "b_busy (bufs s ! b)" "\<not> (b_valid (bufs s ! b) \<and> \<not> b_dirty (bufs s ! b))" "b_dev (bufs s ! b) = 1"
    "b_sector (bufs s ! b) < disksize s"
  defines "x \<equiv> bufs s ! b"
  shows "\<exists>w. iderw b s = Ret () w \<and> bufs w = (bufs s)[b := (if b_dirty x then x else x\<lparr>b_data := disk s (b_sector x)\<rparr>)\<lparr>b_valid := True, b_dirty := False\<rparr>]"
proof -
  have n: "\<not> disksize s \<le> b_sector (bufs s ! b)" using assms(5) by simp
  show ?thesis
  proof (cases "b_dirty x")
    case True
    then show ?thesis using assms(1,2,4) n
      by (simp add: iderw_def mon_defs getb_def updb_def x_def) (intro arg_cong[where f = "\<lambda>y. (bufs s)[b := y]"] buf.equality, simp_all)
  next
    case False
    then show ?thesis using assms(1-4) n
      by (simp add: iderw_def mon_defs getb_def updb_def x_def) (intro arg_cong[where f = "\<lambda>y. (bufs s)[b := y]"] buf.equality, simp_all)
  qed
qed


definition ide_ex :: idest where
  "ide_ex = biost.extend (biost_ex\<lparr>bufs := (bufs biost_ex)[0 := (bufs biost_ex ! 0)\<lparr>b_busy := True, b_dev := 1, b_sector := 5\<rparr>]\<rparr>)
     (idest.fields None (\<lambda>_. None) True [0x50, 0x50] [])"


end
