(* ===== verification/Kbd.thy ===== *)
theory Kbd
  imports Console
begin

text \<open>
  The keyboard, \<^verbatim>\<open>kbd.c\<close> with the tables of \<^verbatim>\<open>kbd.h\<close>: how \<open>kbdgetc\<close> turns the bytes of the controller
  into characters, and the interrupt that passes them to the console. The bytes that the status and the data port deliver are inputs.
\<close>

section \<open>The tables\<close>

unbundle bit_operations_syntax

text \<open>An array of 256 bytes from its first elements and the elements set by index; the others are zero.\<close>

definition table :: "u8 list \<Rightarrow> (nat \<times> u8) list \<Rightarrow> u8 list" where
  "table xs ps = fold (\<lambda>(i, v) t. t[i := v]) ps (xs @ replicate (256 - length xs) 0)"

definition shiftcode :: "u8 list" where
  "shiftcode = table [] [(0x1D, 2), (0x2A, 1), (0x36, 1), (0x38, 4), (0x9D, 2), (0xB8, 4)]"

definition togglecode :: "u8 list" where
  "togglecode = table [] [(0x3A, 8), (0x45, 16), (0x46, 32)]"

definition normalmap :: "u8 list" where
  "normalmap = table
     [0, 27, 49, 50, 51, 52, 53, 54, 55, 56, 57, 48, 45, 61, 8, 9,
      113, 119, 101, 114, 116, 121, 117, 105, 111, 112, 91, 93, 10, 0, 97, 115,
      100, 102, 103, 104, 106, 107, 108, 59, 39, 96, 0, 92, 122, 120, 99, 118,
      98, 110, 109, 44, 46, 47, 0, 42, 0, 32, 0, 0, 0, 0, 0, 0,
      0, 0, 0, 0, 0, 0, 0, 55, 56, 57, 45, 52, 53, 54, 43, 49,
      50, 51, 48, 46, 0, 0, 0, 0]
     [(0x9c, 10), (0xb5, 47), (0xc8, 226), (0xd0, 227), (0xc9, 230), (0xd1, 231), (0xcb, 228), (0xcd, 229), (0x97, 224), (0xcf, 225), (0xd2, 232), (0xd3, 233)]"

definition shiftmap :: "u8 list" where
  "shiftmap = table
     [0, 27, 33, 64, 35, 36, 37, 94, 38, 42, 40, 41, 95, 43, 8, 9,
      81, 87, 69, 82, 84, 89, 85, 73, 79, 80, 123, 125, 10, 0, 65, 83,
      68, 70, 71, 72, 74, 75, 76, 58, 34, 126, 0, 124, 90, 88, 67, 86,
      66, 78, 77, 60, 62, 63, 0, 42, 0, 32, 0, 0, 0, 0, 0, 0,
      0, 0, 0, 0, 0, 0, 0, 55, 56, 57, 45, 52, 53, 54, 43, 49,
      50, 51, 48, 46, 0, 0, 0, 0]
     [(0x9c, 10), (0xb5, 47), (0xc8, 226), (0xd0, 227), (0xc9, 230), (0xd1, 231), (0xcb, 228), (0xcd, 229), (0x97, 224), (0xcf, 225), (0xd2, 232), (0xd3, 233)]"

definition ctlmap :: "u8 list" where
  "ctlmap = table
     [0, 0, 0, 0, 0, 0, 0, 0, 0, 0, 0, 0, 0, 0, 0, 0,
      17, 23, 5, 18, 20, 25, 21, 9, 15, 16, 0, 0, 13, 0, 1, 19,
      4, 6, 7, 8, 10, 11, 12, 0, 0, 0, 0, 28, 26, 24, 3, 22,
      2, 14, 13, 0, 0, -17, 0, 0]
     [(0x9c, 13), (0xb5, -17), (0xc8, 226), (0xd0, 227), (0xc9, 230), (0xd1, 231), (0xcb, 228), (0xcd, 229), (0x97, 224), (0xcf, 225), (0xd2, 232), (0xd3, 233)]"

section \<open>Reading a key\<close>

text \<open>The static \<open>shift\<close>: bits for the shift, control and alt keys held, the locks, and an escape byte that was read.\<close>

record kbdst = consst +
  kbd_shift :: u32

definition charcode :: "u32 \<Rightarrow> u8 list" where
  "charcode k = (if k = 0 then normalmap else if k = 1 then shiftmap else ctlmap)"

definition capslock :: "u32 \<Rightarrow> u32 \<Rightarrow> u32" where
  "capslock shift c =
     (if shift AND 8 \<noteq> 0
      then if 97 \<le> c \<and> c \<le> 122 then c - 32
           else if 65 \<le> c \<and> c \<le> 90 then c + 32 else c
      else c)"

definition kbd_press :: "u32 \<Rightarrow> u32 \<Rightarrow> int \<times> u32" where
  "kbd_press data shift =
     (let shift = shift OR ucast (shiftcode ! unat data);
          shift = shift XOR ucast (togglecode ! unat data);
          c = ucast (charcode (shift AND 3) ! unat data)
      in (uint (capslock shift c), shift))"

definition kbdgetc :: "u8 \<Rightarrow> u8 \<Rightarrow> u32 \<Rightarrow> int \<times> u32" where
  "kbdgetc st inp shift =
     (let data = ucast inp :: u32 in
      if st AND 1 = 0 then (-1, shift)
      else if data = 0xE0 then (0, shift OR 64)
      else if data AND 0x80 \<noteq> 0 then
        let data = if shift AND 64 \<noteq> 0 then data else data AND 0x7F
        in (0, shift AND NOT (ucast (shiftcode ! unat data) OR 64))
      else if shift AND 64 \<noteq> 0 then kbd_press (data OR 0x80) (shift AND NOT 64)
      else kbd_press data shift)"

text \<open>The values of \<open>kbdgetc\<close> for the bytes that wait in the controller, until it is empty and \<open>kbdgetc\<close> returns -1.\<close>

fun kbd_codes :: "u32 \<Rightarrow> u8 list \<Rightarrow> int list \<times> u32" where
  "kbd_codes shift [] = ([], shift)"
| "kbd_codes shift (d # ds) =
     (let (c, shift) = kbdgetc 1 d shift; (cs, shift) = kbd_codes shift ds in (c # cs, shift))"

definition kbdintr :: "u8 list \<Rightarrow> (unit, 'z kbdst_scheme) kmon" where
  "kbdintr ds =
     bnd (gets (\<lambda>s. kbd_codes (kbd_shift s) ds)) (\<lambda>(cs, shift).
     thn (modify (\<lambda>s. s\<lparr>kbd_shift := shift\<rparr>))
     (consoleintr cs))"

section \<open>Typing a text\<close>

text \<open>The tables in full, to compute with.\<close>

lemma shiftcode_code [code]: "shiftcode =
  [0, 0, 0, 0, 0, 0, 0, 0, 0, 0, 0, 0, 0, 0, 0, 0, 0, 0, 0, 0, 0, 0, 0, 0, 0, 0, 0, 0, 0, 2, 0, 0,
   0, 0, 0, 0, 0, 0, 0, 0, 0, 0, 1, 0, 0, 0, 0, 0, 0, 0, 0, 0, 0, 0, 1, 0, 4, 0, 0, 0, 0, 0, 0, 0,
   0, 0, 0, 0, 0, 0, 0, 0, 0, 0, 0, 0, 0, 0, 0, 0, 0, 0, 0, 0, 0, 0, 0, 0, 0, 0, 0, 0, 0, 0, 0, 0,
   0, 0, 0, 0, 0, 0, 0, 0, 0, 0, 0, 0, 0, 0, 0, 0, 0, 0, 0, 0, 0, 0, 0, 0, 0, 0, 0, 0, 0, 0, 0, 0,
   0, 0, 0, 0, 0, 0, 0, 0, 0, 0, 0, 0, 0, 0, 0, 0, 0, 0, 0, 0, 0, 0, 0, 0, 0, 0, 0, 0, 0, 2, 0, 0,
   0, 0, 0, 0, 0, 0, 0, 0, 0, 0, 0, 0, 0, 0, 0, 0, 0, 0, 0, 0, 0, 0, 0, 0, 4, 0, 0, 0, 0, 0, 0, 0,
   0, 0, 0, 0, 0, 0, 0, 0, 0, 0, 0, 0, 0, 0, 0, 0, 0, 0, 0, 0, 0, 0, 0, 0, 0, 0, 0, 0, 0, 0, 0, 0,
   0, 0, 0, 0, 0, 0, 0, 0, 0, 0, 0, 0, 0, 0, 0, 0, 0, 0, 0, 0, 0, 0, 0, 0, 0, 0, 0, 0, 0, 0, 0, 0]"
  by code_simp

lemma togglecode_code [code]: "togglecode =
  [0, 0, 0, 0, 0, 0, 0, 0, 0, 0, 0, 0, 0, 0, 0, 0, 0, 0, 0, 0, 0, 0, 0, 0, 0, 0, 0, 0, 0, 0, 0, 0,
   0, 0, 0, 0, 0, 0, 0, 0, 0, 0, 0, 0, 0, 0, 0, 0, 0, 0, 0, 0, 0, 0, 0, 0, 0, 0, 8, 0, 0, 0, 0, 0,
   0, 0, 0, 0, 0, 16, 32, 0, 0, 0, 0, 0, 0, 0, 0, 0, 0, 0, 0, 0, 0, 0, 0, 0, 0, 0, 0, 0, 0, 0, 0, 0,
   0, 0, 0, 0, 0, 0, 0, 0, 0, 0, 0, 0, 0, 0, 0, 0, 0, 0, 0, 0, 0, 0, 0, 0, 0, 0, 0, 0, 0, 0, 0, 0,
   0, 0, 0, 0, 0, 0, 0, 0, 0, 0, 0, 0, 0, 0, 0, 0, 0, 0, 0, 0, 0, 0, 0, 0, 0, 0, 0, 0, 0, 0, 0, 0,
   0, 0, 0, 0, 0, 0, 0, 0, 0, 0, 0, 0, 0, 0, 0, 0, 0, 0, 0, 0, 0, 0, 0, 0, 0, 0, 0, 0, 0, 0, 0, 0,
   0, 0, 0, 0, 0, 0, 0, 0, 0, 0, 0, 0, 0, 0, 0, 0, 0, 0, 0, 0, 0, 0, 0, 0, 0, 0, 0, 0, 0, 0, 0, 0,
   0, 0, 0, 0, 0, 0, 0, 0, 0, 0, 0, 0, 0, 0, 0, 0, 0, 0, 0, 0, 0, 0, 0, 0, 0, 0, 0, 0, 0, 0, 0, 0]"
  by code_simp

lemma normalmap_code [code]: "normalmap =
  [0, 27, 49, 50, 51, 52, 53, 54, 55, 56, 57, 48, 45, 61, 8, 9, 113, 119, 101, 114, 116, 121, 117, 105, 111, 112, 91, 93, 10, 0, 97, 115,
   100, 102, 103, 104, 106, 107, 108, 59, 39, 96, 0, 92, 122, 120, 99, 118, 98, 110, 109, 44, 46, 47, 0, 42, 0, 32, 0, 0, 0, 0, 0, 0,
   0, 0, 0, 0, 0, 0, 0, 55, 56, 57, 45, 52, 53, 54, 43, 49, 50, 51, 48, 46, 0, 0, 0, 0, 0, 0, 0, 0, 0, 0, 0, 0,
   0, 0, 0, 0, 0, 0, 0, 0, 0, 0, 0, 0, 0, 0, 0, 0, 0, 0, 0, 0, 0, 0, 0, 0, 0, 0, 0, 0, 0, 0, 0, 0,
   0, 0, 0, 0, 0, 0, 0, 0, 0, 0, 0, 0, 0, 0, 0, 0, 0, 0, 0, 0, 0, 0, 0, 224, 0, 0, 0, 0, 10, 0, 0, 0,
   0, 0, 0, 0, 0, 0, 0, 0, 0, 0, 0, 0, 0, 0, 0, 0, 0, 0, 0, 0, 0, 47, 0, 0, 0, 0, 0, 0, 0, 0, 0, 0,
   0, 0, 0, 0, 0, 0, 0, 0, 226, 230, 0, 228, 0, 229, 0, 225, 227, 231, 232, 233, 0, 0, 0, 0, 0, 0, 0, 0, 0, 0, 0, 0,
   0, 0, 0, 0, 0, 0, 0, 0, 0, 0, 0, 0, 0, 0, 0, 0, 0, 0, 0, 0, 0, 0, 0, 0, 0, 0, 0, 0, 0, 0, 0, 0]"
  by code_simp

lemma shiftmap_code [code]: "shiftmap =
  [0, 27, 33, 64, 35, 36, 37, 94, 38, 42, 40, 41, 95, 43, 8, 9, 81, 87, 69, 82, 84, 89, 85, 73, 79, 80, 123, 125, 10, 0, 65, 83,
   68, 70, 71, 72, 74, 75, 76, 58, 34, 126, 0, 124, 90, 88, 67, 86, 66, 78, 77, 60, 62, 63, 0, 42, 0, 32, 0, 0, 0, 0, 0, 0,
   0, 0, 0, 0, 0, 0, 0, 55, 56, 57, 45, 52, 53, 54, 43, 49, 50, 51, 48, 46, 0, 0, 0, 0, 0, 0, 0, 0, 0, 0, 0, 0,
   0, 0, 0, 0, 0, 0, 0, 0, 0, 0, 0, 0, 0, 0, 0, 0, 0, 0, 0, 0, 0, 0, 0, 0, 0, 0, 0, 0, 0, 0, 0, 0,
   0, 0, 0, 0, 0, 0, 0, 0, 0, 0, 0, 0, 0, 0, 0, 0, 0, 0, 0, 0, 0, 0, 0, 224, 0, 0, 0, 0, 10, 0, 0, 0,
   0, 0, 0, 0, 0, 0, 0, 0, 0, 0, 0, 0, 0, 0, 0, 0, 0, 0, 0, 0, 0, 47, 0, 0, 0, 0, 0, 0, 0, 0, 0, 0,
   0, 0, 0, 0, 0, 0, 0, 0, 226, 230, 0, 228, 0, 229, 0, 225, 227, 231, 232, 233, 0, 0, 0, 0, 0, 0, 0, 0, 0, 0, 0, 0,
   0, 0, 0, 0, 0, 0, 0, 0, 0, 0, 0, 0, 0, 0, 0, 0, 0, 0, 0, 0, 0, 0, 0, 0, 0, 0, 0, 0, 0, 0, 0, 0]"
  by code_simp

lemma ctlmap_code [code]: "ctlmap =
  [0, 0, 0, 0, 0, 0, 0, 0, 0, 0, 0, 0, 0, 0, 0, 0, 17, 23, 5, 18, 20, 25, 21, 9, 15, 16, 0, 0, 13, 0, 1, 19,
   4, 6, 7, 8, 10, 11, 12, 0, 0, 0, 0, 28, 26, 24, 3, 22, 2, 14, 13, 0, 0, -17, 0, 0, 0, 0, 0, 0, 0, 0, 0, 0,
   0, 0, 0, 0, 0, 0, 0, 0, 0, 0, 0, 0, 0, 0, 0, 0, 0, 0, 0, 0, 0, 0, 0, 0, 0, 0, 0, 0, 0, 0, 0, 0,
   0, 0, 0, 0, 0, 0, 0, 0, 0, 0, 0, 0, 0, 0, 0, 0, 0, 0, 0, 0, 0, 0, 0, 0, 0, 0, 0, 0, 0, 0, 0, 0,
   0, 0, 0, 0, 0, 0, 0, 0, 0, 0, 0, 0, 0, 0, 0, 0, 0, 0, 0, 0, 0, 0, 0, 224, 0, 0, 0, 0, 13, 0, 0, 0,
   0, 0, 0, 0, 0, 0, 0, 0, 0, 0, 0, 0, 0, 0, 0, 0, 0, 0, 0, 0, 0, -17, 0, 0, 0, 0, 0, 0, 0, 0, 0, 0,
   0, 0, 0, 0, 0, 0, 0, 0, 226, 230, 0, 228, 0, 229, 0, 225, 227, 231, 232, 233, 0, 0, 0, 0, 0, 0, 0, 0, 0, 0, 0, 0,
   0, 0, 0, 0, 0, 0, 0, 0, 0, 0, 0, 0, 0, 0, 0, 0, 0, 0, 0, 0, 0, 0, 0, 0, 0, 0, 0, 0, 0, 0, 0, 0]"
  by code_simp

lemma kbd_codes_append:
  "kbd_codes sh (xs @ ys) = (let (cs, sh1) = kbd_codes sh xs; (ds, sh2) = kbd_codes sh1 ys in (cs @ ds, sh2))"
  by (induction xs arbitrary: sh) (simp_all add: Let_def split_beta)

text \<open>The bytes of the keys for a character: its key pressed and released, between those of the shift key where it needs one.\<close>

definition keys :: "u8 \<Rightarrow> u8 list" where
  "keys c =
     (case find_idx (\<lambda>x. x = c) normalmap of
        Some d \<Rightarrow> [of_nat d, of_nat d + 0x80]
      | None \<Rightarrow> (case find_idx (\<lambda>x. x = c) shiftmap of
                   Some d \<Rightarrow> [0x2A, of_nat d, of_nat d + 0x80, 0xAA]
                 | None \<Rightarrow> []))"

definition typed_right :: "u8 \<Rightarrow> bool" where
  "typed_right c \<longleftrightarrow> (let (cs, sh) = kbd_codes 0 (keys c) in filter (\<lambda>x. x \<noteq> 0) cs = [uint c] \<and> sh = 0)"

definition on_keyboard :: "u8 list" where
  "on_keyboard = [8, 9, 10, 27] @ map of_nat [32..<127]"

lemma all_typed_right: "list_all typed_right on_keyboard"
  by code_simp

text \<open>
  A text of printable characters, tabs, newlines, backspaces and escapes that is typed key by key is delivered to the console unchanged, among the zeros that
  the shift keys and the releases give, and leaves no key held.
\<close>

theorem kbd_types_text:
  assumes "list_all (\<lambda>c. c \<in> set on_keyboard) cs"
  shows "filter (\<lambda>x. x \<noteq> 0) (fst (kbd_codes 0 (concat (map keys cs)))) = map uint cs \<and> snd (kbd_codes 0 (concat (map keys cs))) = 0"
  using assms
proof (induction cs)
  case (Cons c cs)
  then have "typed_right c" using all_typed_right by (simp add: list_all_iff)
  then show ?case using Cons by (simp add: kbd_codes_append typed_right_def Let_def split_beta)
qed simp

end
