(* ===== verification/Qthread.thy ===== *)
theory Qthread
  imports Threads Umalloc
begin

text \<open>
  The thread library of user programs, \<^verbatim>\<open>qthread.c\<close>. A system call stub stands for the kernel function that its handler
  of \<^verbatim>\<open>sysproc.c\<close> calls with the same arguments. A pointer argument that a function only writes through is a part of its result.
\<close>

section \<open>The calls\<close>

definition status :: "int \<Rightarrow> int" where
  "status val = (if val < 0 then -1 else 0)"

definition qthread_mutex_init :: "(int \<times> int, 'z procst_scheme) kmon" where
  "qthread_mutex_init = bnd mutex_init (\<lambda>mutex. ret (mutex, if mutex > 0 then 0 else mutex))"

definition qthread_mutex_destroy :: "int \<Rightarrow> (int, 'z procst_scheme) kmon" where
  "qthread_mutex_destroy mutex = bnd (mutex_destroy mutex) (\<lambda>val. ret (status val))"

definition qthread_mutex_lock :: "int \<Rightarrow> (int, 'z procst_scheme) kmon" where
  "qthread_mutex_lock mutex = bnd (mutex_lock mutex) (\<lambda>val. ret (status val))"

definition qthread_mutex_unlock :: "int \<Rightarrow> (int, 'z procst_scheme) kmon" where
  "qthread_mutex_unlock mutex = bnd (mutex_unlock mutex) (\<lambda>val. ret (status val))"

definition qthread_cond_init :: "(int \<times> int, 'z procst_scheme) kmon" where
  "qthread_cond_init = bnd condvar_init (\<lambda>cond. ret (cond, if cond > 0 then 0 else cond))"

definition qthread_cond_destroy :: "int \<Rightarrow> (int, 'z procst_scheme) kmon" where
  "qthread_cond_destroy cond = bnd (condvar_destroy cond) (\<lambda>val. ret (status val))"

definition qthread_cond_signal :: "int \<Rightarrow> (int, 'z procst_scheme) kmon" where
  "qthread_cond_signal cond = bnd (condvar_signal cond) (\<lambda>val. ret (status val))"

definition qthread_cond_broadcast :: "int \<Rightarrow> (int, 'z procst_scheme) kmon" where
  "qthread_cond_broadcast cond = bnd (condvar_broadcast cond) (\<lambda>val. ret (status val))"

definition qthread_cond_wait :: "int \<Rightarrow> int \<Rightarrow> (int, 'z procst_scheme) kmon" where
  "qthread_cond_wait cond mutex = bnd (condvar_wait cond mutex) (\<lambda>val. ret (status val))"

text \<open>The system call \<open>kthread_exit\<close>, with which a thread ends: called by itself, or by the wrapper with the value of its function.\<close>

definition qthread_exit :: "u32 \<Rightarrow> (unit, 'z kst_scheme) kmon" where
  "qthread_exit retval = thn (updme (\<lambda>q. q\<lparr>p_threadretval := sint retval\<rparr>)) exit"

definition wrapper :: "(u32 \<Rightarrow> (u32, 'z kst_scheme) kmon) \<Rightarrow> u32 \<Rightarrow> (unit, 'z kst_scheme) kmon" where
  "wrapper func arg = bnd (func arg) qthread_exit"

text \<open>
  \<open>qthread_join\<close> gives its value and what it stores through \<open>retval\<close>, if anything.
\<close>

definition qthread_join :: "int \<Rightarrow> (int \<times> int option, 'z kst_scheme) kmon" where
  "qthread_join thread =
     bnd (wait (of_int thread)) (\<lambda>val.
     if val \<noteq> -1
     then bnd (getthreadretval thread) (\<lambda>val. ret (if val \<noteq> -1 then (0, Some val) else (-1, None)))
     else ret (-1, None))"

text \<open>
  \<open>qthread_create\<close> takes the heap of the program and the kernel's answer to \<open>sbrk\<close>. Its result has the pointer \<open>*thread\<close>, the number
  stored there, its value and the heap; a search of the allocator that does not end is the outcome \<open>Spn\<close>, and a store through a null pointer
  is undefined. The address of the wrapper is an argument.
\<close>

definition qthread_create :: "(u32 \<Rightarrow> u32 \<Rightarrow> bool) \<Rightarrow> u32 \<Rightarrow> u32 \<Rightarrow> u32 \<Rightarrow> u32 \<Rightarrow> umst \<Rightarrow> (u32 \<times> int \<times> int \<times> umst, 'z kst_scheme) kmon" where
  "qthread_create sbrk attr wrap my_func arg h =
     (case malloc sbrk 4 h of
        None \<Rightarrow> (\<lambda>s. Spn)
      | Some (thread, h1) \<Rightarrow>
          (case malloc sbrk 4096 h1 of
             None \<Rightarrow> (\<lambda>s. Spn)
           | Some (stack, h2) \<Rightarrow>
               bnd (thn (updme (\<lambda>q. q\<lparr>p_ctflag := True\<rparr>)) (fork (stack + 4096) attr wrap my_func arg)) (\<lambda>tid.
               if thread = 0 then undefd
               else ret (thread, tid, if tid = -1 then tid else 0, h2))))"

section \<open>What the calls return\<close>

text \<open>
  C20. A join of an exited thread returns 0 and stores the value with which the thread ended, and gives the entry and the kernel stack of
  the thread back; but if that value is -1, the join frees the thread and reports a failure, and stores nothing.
\<close>

theorem qthread_join_value:
  assumes "runs p s" and "p_type (ptable s ! p) = 0" and "zombie_thread p i tid s" and "kmem_ok xs s" and "p_kstack (ptable s ! i) \<notin> set xs"
  shows "\<exists>t. qthread_join tid s = Ret (if p_threadretval (ptable s ! i) = -1 then (-1, None) else (0, Some (p_threadretval (ptable s ! i)))) t \<and>
    p_state (ptable t ! i) = UNUSED \<and> p_tcount (ptable t ! p) = p_tcount (ptable s ! p) - 1 \<and> kmem_ok (p_kstack (ptable s ! i) # xs) t"
proof -
  let ?w = "rel Lptable (acq Lptable s)"
  have z: "zombie_thread p i tid ?w" using assms(3) by (simp add: zombie_thread_def)
  have w: "runs p ?w" "kmem_ok xs ?w" using assms(1,4) by (auto simp: runs_def kmem_ok_def)
  have d: "i < length (ptable s)" "i \<noteq> p" "p < length (ptable s)" "0 < tid" using assms(1,3) by (auto simp: zombie_thread_def)
  obtain t where t: "getthreadretval tid ?w = Ret (p_threadretval (ptable s ! i)) t" "kmem_ok (p_kstack (ptable s ! i) # xs) t"
    "ptable t = (ptable s)[p := (ptable s ! p)\<lparr>p_tcount := p_tcount (ptable s ! p) - 1\<rparr>, i := gone ((ptable s ! i)\<lparr>p_pgdir := 0\<rparr>)]"
    using getthreadretval_Ret[OF w(1) z w(2)] assms(5) by auto
  show ?thesis using t d wait_thread[OF assms(1-3)]
    by (intro exI[of _ t]) (simp add: qthread_join_def mon_defs gone_def drop_sync_def clear_proc_def)
qed

definition joined_ex :: "int \<Rightarrow> kst" where
  "joined_ex v = (thr_ex 0)\<lparr>ptable := (ptable (thr_ex 0))[1 := (ptable (thr_ex 0) ! 1)\<lparr>p_state := ZOMBIE, p_threadretval := v\<rparr>]\<rparr>"

lemma joined_ex_ok: "runs 0 (joined_ex v)" "p_type (ptable (joined_ex v) ! 0) = 0" "zombie_thread 0 1 2 (joined_ex v)"
    "kmem_ok [0x80202000, 0x80201000] (joined_ex v)" "p_kstack (ptable (joined_ex v) ! 1) = 0x80203000" "p_threadretval (ptable (joined_ex v) ! 1) = v"
proof -
  show "runs 0 (joined_ex v)" using thr_ex_ok(6)[of 0] by (simp add: joined_ex_def runs_def)
  show "kmem_ok [0x80202000, 0x80201000] (joined_ex v)" unfolding joined_ex_def by (rule thr_ex_kmem)
  have "is_page 0x80203000 (joined_ex v)" unfolding joined_ex_def by (rule thr_ex_kmem)
  then show "zombie_thread 0 1 2 (joined_ex v)"
    by (auto simp: zombie_thread_def joined_ex_def thr_ex_ptable proc_boot_def less_Suc_eq numeral_3_eq_3)
qed (simp_all add: joined_ex_def thr_ex_ptable proc_boot_def)

theorem qthread_join_value_witness:
  "(\<exists>t. qthread_join 2 (joined_ex 7) = Ret (0, Some 7) t \<and> p_state (ptable t ! 1) = UNUSED) \<and>
   (\<exists>t. qthread_join 2 (joined_ex (-1)) = Ret (-1, None) t \<and> p_state (ptable t ! 1) = UNUSED)"
  using qthread_join_value[OF joined_ex_ok(1-4), of 7] qthread_join_value[OF joined_ex_ok(1-4), of "-1"]
  by (auto simp: joined_ex_ok(5,6) joined_ex_ok(5,6)[unfolded One_nat_def])

text \<open>
  Only threads get a mutex: a call of the process that created them, or with a number that is out of range or not initialised, returns -1 without waiting,
  and a program that ignores the value goes on without the mutex.
\<close>

lemma qthread_lock_refused:
  assumes "mutex_guard m s = Ret None t"
  shows "qthread_mutex_lock m s = Ret (-1) t" "qthread_mutex_unlock m s = Ret (-1) t"
  using assms by (simp_all add: qthread_mutex_lock_def qthread_mutex_unlock_def mutex_lock_def mutex_unlock_def mon_defs status_def)

lemma main_thread_has_no_mutex:
  assumes "cpu_proc (the_cpu s) = Some p" "p < length (ptable s)" "p_type (ptable s ! p) = 0"
  shows "qthread_mutex_lock m s = Ret (-1) s"
  using assms by (intro qthread_lock_refused) (simp add: mutex_guard_def mon_defs)

end
