(* ===== verification/Spec2Isabelle.thy ===== *)
theory Spec2Isabelle
  imports Kmutex Kcondvar Strings Vmtab Bcache Logtx Trap Pipefifo Filedata Ktype Threads Grep Ulib Umalloc Sh Ide Kbd Qthread
begin

text \<open>
  Verification of the operating system under \<^verbatim>\<open>src/mutex-lock\<close>: xv6 for the x86, extended by kernel threads with mutexes and condition
  variables. File names below are relative to that directory.

  \<^bold>\<open>The program and its parts.\<close> User programs enter the kernel by system calls and interrupts (\<^verbatim>\<open>trap.c\<close>, \<^verbatim>\<open>syscall.c\<close>). The calls
  (\<^verbatim>\<open>sysproc.c\<close>, \<^verbatim>\<open>sysfile.c\<close>) work on the process table (\<^verbatim>\<open>proc.c\<close>), on address spaces (\<^verbatim>\<open>vm.c\<close>, over the page allocator \<^verbatim>\<open>kalloc.c\<close>) and on open
  files (\<^verbatim>\<open>file.c\<close>, \<^verbatim>\<open>pipe.c\<close>, \<^verbatim>\<open>console.c\<close>). Files are inodes (\<^verbatim>\<open>fs.c\<close>), whose blocks are written through the log (\<^verbatim>\<open>log.c\<close>) and the buffer
  cache (\<^verbatim>\<open>bio.c\<close>) to a disk (\<^verbatim>\<open>memide.c\<close> or \<^verbatim>\<open>ide.c\<close>). All of it is protected by spin locks (\<^verbatim>\<open>spinlock.c\<close>). Outside the kernel are the
  library of user programs (\<^verbatim>\<open>ulib.c\<close>, \<^verbatim>\<open>printf.c\<close>, \<^verbatim>\<open>umalloc.c\<close>, \<^verbatim>\<open>qthread.c\<close>) and the programs, of which \<^verbatim>\<open>sh.c\<close> and \<^verbatim>\<open>grep.c\<close> have logic of their own.

  \<^bold>\<open>How code becomes definitions.\<close> A kernel function is a value of the state monad \<open>kmon\<close> of \<open>Prelude\<close>. Its outcome is a return with a value
  and a state (\<open>Ret\<close>), a switch to the scheduler with the state at that moment (\<open>Swt\<close>), a \<open>panic\<close> with its message (\<open>Pnc\<close>), a spin on a lock that is
  never released on this path (\<open>Spn\<close>), or behaviour that C leaves undefined (\<open>Ub\<close>). What a function does after the switch is a definition of its own,
  \<open>sleep_return\<close> for \<open>sleep\<close> and so on, to be run on whatever state the other processes have left; interleavings are sequences of such paths, and for the
  mutexes a step relation at the level of single atomic accesses. The state is a chain of extensible records, each component adding its variables:
  \<open>lockst\<close> (CPUs and locks), \<open>procst\<close> (process table), \<open>memst\<close> (memory and free list), \<open>biost\<close> (buffers and disk), \<open>logst\<close>, \<open>fsst\<close>, \<open>consst\<close>,
  \<open>filest\<close>, \<open>kst\<close> (clock); a function of a lower component works on every extension. Words of C are \<open>32 word\<close> and \<open>8 word\<close> where they wrap around or are
  addresses; pointers into a static array are indices, pointers into memory are addresses.

  \<^bold>\<open>The theories.\<close>

    \<^item> \<open>Prelude\<close>: the monad, its total-correctness calculus \<open>wp\<close>, the calculus \<open>stays\<close> for invariants on every way out of a path, lists, little-endian bytes.
      \<open>Params\<close>: \<^verbatim>\<open>param.h\<close>, \<^verbatim>\<open>memlayout.h\<close>, \<^verbatim>\<open>mmu.h\<close>.

    \<^item> \<open>Spinlock\<close>: \<^verbatim>\<open>spinlock.c\<close>. An acquired and released lock restores the interrupt state. \<open>Proc\<close>: scheduler, \<open>sleep\<close>, \<open>wakeup\<close>, \<open>kill\<close>
      of \<^verbatim>\<open>proc.c\<close>; no wakeup is lost between the test of a condition and the switch, and \<open>wakeup\<close> changes exactly the sleepers on its channel.

    \<^item> \<open>Kthread\<close>: mutexes and condition variables of \<^verbatim>\<open>proc.c\<close>. \<open>Kmutex\<close>: mutual exclusion over all interleavings of the atomic accesses
      of any number of CPUs, the calls as runs of that step relation, and a reachable deadlock: a thread that waits for a mutex inside \<open>ptable.lock\<close> keeps
      the owner from unlocking. \<open>Kcondvar\<close>: waiting releases the mutex, signal wakes one waiter and broadcast all.

    \<^item> \<open>Strings\<close>: \<^verbatim>\<open>string.c\<close>. \<open>Kalloc\<close>: \<^verbatim>\<open>kalloc.c\<close>, a refinement of a set of free pages, with the contract as the locale \<open>page_allocator\<close>.
      \<open>Vm\<close>, \<open>Vmtab\<close>: \<^verbatim>\<open>vm.c\<close> on page tables in byte memory and their meaning as translations.

    \<^item> \<open>Bio\<close>, \<open>Bcache\<close>: \<^verbatim>\<open>bio.c\<close>, \<^verbatim>\<open>memide.c\<close>, with the contract of the cache as the locale \<open>block_cache\<close>. \<open>Ide\<close>: \<^verbatim>\<open>ide.c\<close>, whose requests end as those of the
      memory disk do. \<open>Log\<close>, \<open>Logtx\<close>: \<^verbatim>\<open>log.c\<close>; a crash between any two disk writes of a commit recovers to the state before or after the transaction.

    \<^item> \<open>Fs\<close>, \<open>Dir\<close>: \<^verbatim>\<open>fs.c\<close>. \<open>Inode\<close>, \<open>Balloc\<close>, \<open>Filedata\<close>: what inode updates, block allocation, \<open>writei\<close> and \<open>readi\<close> do to the contents of the blocks.

    \<^item> \<open>Console\<close>: \<^verbatim>\<open>console.c\<close>, \<^verbatim>\<open>uart.c\<close>. \<open>Kbd\<close>: \<^verbatim>\<open>kbd.c\<close>; every text of printable characters can be typed. \<open>File\<close>: \<^verbatim>\<open>file.c\<close>, \<^verbatim>\<open>pipe.c\<close>.
      \<open>Ring\<close>, \<open>Pipefifo\<close>: ring buffers with wrapping counters (locale \<open>ring_buffer\<close>), and pipes as bounded queues.

    \<^item> \<open>Process\<close>: \<open>fork\<close>, \<open>exit\<close>, \<open>wait\<close> of \<^verbatim>\<open>proc.c\<close>. \<open>Syscall\<close>: \<^verbatim>\<open>syscall.c\<close>, \<^verbatim>\<open>sysproc.c\<close>. \<open>Exec\<close>: \<^verbatim>\<open>exec.c\<close>. \<open>Sysfile\<close>: \<^verbatim>\<open>sysfile.c\<close>.
      \<open>Trap\<close>: \<^verbatim>\<open>trap.c\<close>. \<open>Ktype\<close>: every trap and every continuation keeps the shape of all tables and the range of all indices. \<open>Threads\<close>: the exit and join
      of a thread, a thread that can never finish its exit, and a close of a shared descriptor that panics. \<open>Kexample\<close>: a concrete state.

    \<^item> \<open>Qthread\<close>: \<^verbatim>\<open>qthread.c\<close>. \<open>Ulib\<close>: \<^verbatim>\<open>ulib.c\<close>, \<^verbatim>\<open>printf.c\<close>, with the locale \<open>digit_loop\<close> shared by the two printers of numbers. \<open>Umalloc\<close>: \<^verbatim>\<open>umalloc.c\<close>;
      \<open>malloc\<close> always returns, and with \<open>free\<close> it partitions the memory granted by the kernel. \<open>Sh\<close>: the parser of \<^verbatim>\<open>sh.c\<close>, total and inverse to printing.
      \<open>Grep\<close>: \<^verbatim>\<open>grep.c\<close>, whose matcher decides membership in the language of the pattern.

  \<^bold>\<open>Bounds and fuel.\<close> Loops over arrays are recursions over their indices. Loops with fuel, which end in \<open>Spn\<close> when it is used up: the page loops of
  \<^verbatim>\<open>vm.c\<close>, with \<open>2 ^ 20\<close> units, the number of pages of an address space; the scans of the buffer list,
  with one unit more than \<open>NBUF\<close>; \<open>readi\<close>, \<open>writei\<close> and \<open>filewrite\<close>, with the number of bytes, since every turn moves at least one; \<open>kill_line\<close>, with
  one unit more than the size of the input ring. The theorems about \<open>allocuvm\<close>, the scans, \<open>readi\<close> and \<open>writei\<close> are total: they say that
  the result is \<open>Ret\<close>, so the fuel suffices. The parser of the shell
  takes fuel linear in the length of its line, and is proved to return on every line. The search loops of \<open>malloc\<close>, \<open>free\<close> and the user's \<open>strcpy\<close>, which
  on a damaged heap or an unterminated string do not end, are \<open>partial_function\<close>s, and are proved to return on well-formed input.

  \<^bold>\<open>Parameters.\<close> What a device answers (status and data of the disk, bytes of the keyboard and the serial line, the fault address) and what \<open>sbrk\<close> grants to a
  program are arguments or fields of the state.

  \<^bold>\<open>Not modelled.\<close> The boot loader and \<^verbatim>\<open>main.c\<close>, and all assembly (\<^verbatim>\<open>swtch.S\<close> appears as the outcome \<open>Swt\<close>, \<^verbatim>\<open>trapasm.S\<close> as the trap frame given to
  \<open>trap\<close>); the programming of the interrupt controllers and of the segments, which writes to devices what nothing reads back (\<^verbatim>\<open>lapic.c\<close>, \<^verbatim>\<open>ioapic.c\<close>, \<^verbatim>\<open>picirq.c\<close>, \<^verbatim>\<open>mp.c\<close>,
  \<^verbatim>\<open>timer.c\<close>, \<open>seginit\<close>); \<^verbatim>\<open>mkfs.c\<close>, which runs on the build host; the parts of \<^verbatim>\<open>sh.c\<close> and \<^verbatim>\<open>grep.c\<close> that only issue system calls, and the small programs and tests,
  which do little else. Memory is sequentially consistent in the step relation of the mutexes. Kernel functions other than those run as whole paths between
  switches, which their locks and the disabled interrupts give; a lock held by another CPU appears as \<open>Spn\<close>.
\<close>

end
